(* ===== verification/Daikon_Prelude.thy ===== *)
theory Daikon_Prelude
  imports Main "HOL-Library.Word" "HOL-Library.AList"
begin

section \<open>Prelude: machine integers, text, hash maps, machines with an invariant\<close>

text \<open>
  What the components of the key-value store share:
  \<^item> \<open>u64\<close> and \<open>i64\<close> (both 64-bit words; an \<open>i64\<close> is read by \<open>sint\<close>) with Rust's checked,
    saturating and wrapping operations;
  \<^item> Rust's \<open>to_string\<close> and \<open>parse\<close> on 64-bit integers, and \<open>str::chars\<close> on UTF-8 bytes;
  \<^item> \<open>std::collections::HashMap\<close>: an association list with distinct keys, whose list order is
    the (unspecified) iteration order; the laws a client relies on are the locale \<open>hash_map\<close>;
  \<^item> machines and transition systems: a step function or relation with an invariant, lifted to runs once
    for all components.
  A Rust \<open>String\<close> is the \<open>string\<close> of its UTF-8 bytes, so \<open>length\<close> is Rust's \<open>len()\<close>.
\<close>

named_theorems inv_intros \<open>introduction rules for component invariants\<close>
named_theorems step_defs \<open>definitions of the operations of a component\<close>

subsection \<open>Machine integers\<close>

type_synonym u64 = "64 word"
type_synonym i64 = "64 word"

text \<open>\<open>u64::checked_add\<close>: \<open>None\<close> on overflow.\<close>

definition checked_add_u64 :: "u64 \<Rightarrow> u64 \<Rightarrow> u64 option" where
  "checked_add_u64 a b = (if unat a + unat b < 2 ^ 64 then Some (a + b) else None)"

lemma checked_add_u64_Some: "checked_add_u64 a b = Some c \<Longrightarrow> unat c = unat a + unat b"
  by (auto simp: checked_add_u64_def unat_word_ariths split: if_splits)

text \<open>\<open>u64::saturating_sub\<close>: 0 where the difference would be negative.\<close>

definition saturating_sub_u64 :: "u64 \<Rightarrow> u64 \<Rightarrow> u64" where
  "saturating_sub_u64 a b = (if a < b then 0 else a - b)"

lemma unat_saturating_sub_u64: "unat (saturating_sub_u64 a b) = unat a - unat b"
  by (auto simp: saturating_sub_u64_def word_less_nat_alt unat_sub word_le_nat_alt)

lemma unat_of_nat_u64: "n < 2 ^ 64 \<Longrightarrow> unat (of_nat n :: u64) = n"
  by (rule of_nat_inverse[OF refl]) simp

definition i64_MAX :: int where "i64_MAX = 2 ^ 63 - 1"
definition i64_MIN :: int where "i64_MIN = - (2 ^ 63)"

text \<open>\<open>i64::saturating_mul\<close>.\<close>

definition saturating_mul_i64 :: "i64 \<Rightarrow> i64 \<Rightarrow> i64" where
  "saturating_mul_i64 a b = word_of_int (max i64_MIN (min i64_MAX (sint a * sint b)))"

lemma sint_word_of_int_i64:
  "i64_MIN \<le> i \<Longrightarrow> i \<le> i64_MAX \<Longrightarrow> sint (word_of_int i :: i64) = i"
  by (simp add: i64_MIN_def i64_MAX_def sint_sbintrunc' signed_take_bit_int_eq_self)

lemma sint_i64_range: "i64_MIN \<le> sint (w :: i64)" "sint (w :: i64) \<le> i64_MAX"
  using sint_range_size[of w] by (auto simp: i64_MIN_def i64_MAX_def word_size)

lemma sint_saturating_mul_i64:
  "sint (saturating_mul_i64 a b) = max i64_MIN (min i64_MAX (sint a * sint b))"
  unfolding saturating_mul_i64_def
  by (rule sint_word_of_int_i64) (auto simp: i64_MIN_def i64_MAX_def)

text \<open>
  The code's plain \<open>+\<close> and \<open>-\<close> on \<open>i64\<close> wrap around in the release profile the README builds:
  they are \<open>+\<close> and \<open>-\<close> on words. Without overflow they are the integer operations.
\<close>

lemma sint_plus_i64:
  "i64_MIN \<le> sint a + sint b \<Longrightarrow> sint a + sint b \<le> i64_MAX \<Longrightarrow>
   sint (a + b :: i64) = sint a + sint b"
  using sint_word_of_int_i64[of "sint a + sint b"] by (simp add: wi_hom_add[symmetric])

text \<open>\<open>as i64\<close> of a small unsigned number is the number.\<close>

lemma sint_small_i64:
  assumes "unat (w :: i64) < 2 ^ 63"
  shows "sint w = int (unat w)"
proof -
  have "int (unat w) < 2 ^ 63" using assms by (metis of_nat_less_iff of_nat_numeral of_nat_power)
  then have "sint (word_of_int (int (unat w)) :: i64) = int (unat w)"
    by (intro sint_word_of_int_i64) (auto simp only: i64_MIN_def i64_MAX_def)
  then show ?thesis by (simp only: word_of_int_uint of_nat_unat)
qed

subsection \<open>Text\<close>

definition digit_char :: "nat \<Rightarrow> char" where
  "digit_char d = char_of (48 + d)"

definition digit_val :: "char \<Rightarrow> nat option" where
  "digit_val c = (let n = of_char c :: nat in if 48 \<le> n \<and> n \<le> 57 then Some (n - 48) else None)"

lemma digit_val_char[simp]: "d < 10 \<Longrightarrow> digit_val (digit_char d) = Some d"
  by (simp add: digit_val_def digit_char_def)

text \<open>\<open>to_string\<close> on an unsigned integer: decimal digits, no leading zero.\<close>

fun show_nat :: "nat \<Rightarrow> string" where
  "show_nat n = (if n < 10 then [digit_char n] else show_nat (n div 10) @ [digit_char (n mod 10)])"

declare show_nat.simps [simp del]

definition show_i64 :: "i64 \<Rightarrow> string" where
  "show_i64 w = (if sint w < 0 then CHR ''-'' # show_nat (nat (- sint w)) else show_nat (nat (sint w)))"

definition show_u64 :: "u64 \<Rightarrow> string" where
  "show_u64 w = show_nat (unat w)"

text \<open>The digit loop of \<open>from_str_radix\<close>, over an unbounded accumulator.\<close>

fun parse_digits :: "nat \<Rightarrow> string \<Rightarrow> nat option" where
  "parse_digits acc [] = Some acc"
| "parse_digits acc (c # cs) =
     (case digit_val c of None \<Rightarrow> None | Some d \<Rightarrow> parse_digits (10 * acc + d) cs)"

definition parse_nat :: "string \<Rightarrow> nat option" where
  "parse_nat s = (if s = [] then None else parse_digits 0 s)"

text \<open>
  \<open>str::parse::<i64>\<close>: an optional sign, at least one digit, and a value in range;
  \<open>str::parse::<u64>\<close>: the same with \<open>+\<close> as the only sign.
\<close>

definition parse_i64 :: "string \<Rightarrow> i64 option" where
  "parse_i64 s =
     (let (neg, ds) = (case s of c # cs \<Rightarrow> if c = CHR ''-'' then (True, cs)
                                  else if c = CHR ''+'' then (False, cs) else (False, s)
                               | [] \<Rightarrow> (False, []))
      in case parse_nat ds of
           None \<Rightarrow> None
         | Some n \<Rightarrow> (let i = (if neg then - int n else int n)
                      in if i64_MIN \<le> i \<and> i \<le> i64_MAX then Some (word_of_int i) else None))"

definition parse_u64 :: "string \<Rightarrow> u64 option" where
  "parse_u64 s =
     (let ds = (case s of c # cs \<Rightarrow> if c = CHR ''+'' then cs else s | [] \<Rightarrow> [])
      in case parse_nat ds of
           None \<Rightarrow> None
         | Some n \<Rightarrow> if n < 2 ^ 64 then Some (of_nat n) else None)"

lemma parse_digits_append:
  "parse_digits acc (xs @ ys) = (case parse_digits acc xs of None \<Rightarrow> None | Some a \<Rightarrow> parse_digits a ys)"
  by (induction acc xs rule: parse_digits.induct) (auto split: option.splits)

lemma show_nat_nonempty: "show_nat n \<noteq> []"
  by (subst show_nat.simps) simp

lemma parse_digits_show_nat: "parse_digits 0 (show_nat n) = Some n"
proof (induction n rule: show_nat.induct)
  case (1 n)
  show ?case
  proof (cases "n < 10")
    case True
    then show ?thesis by (subst show_nat.simps) simp
  next
    case False
    with 1 have "parse_digits 0 (show_nat (n div 10)) = Some (n div 10)" by simp
    with False show ?thesis
      by (subst show_nat.simps) (simp add: parse_digits_append)
  qed
qed

lemma parse_nat_show_nat[simp]: "parse_nat (show_nat n) = Some n"
  by (simp add: parse_nat_def show_nat_nonempty parse_digits_show_nat)

lemma hd_show_nat: "digit_val (hd (show_nat n)) \<noteq> None"
proof (induction n rule: show_nat.induct)
  case (1 n)
  then show ?case
    by (subst show_nat.simps) (simp add: show_nat_nonempty)
qed

lemma hd_show_nat_sign: "hd (show_nat n) \<noteq> CHR ''-''" "hd (show_nat n) \<noteq> CHR ''+''"
  using hd_show_nat[of n] by (auto simp: digit_val_def)

lemma show_nat_cases:
  obtains c cs where "show_nat n = c # cs" "c \<noteq> CHR ''-''" "c \<noteq> CHR ''+''"
  using show_nat_nonempty[of n] hd_show_nat_sign[of n] by (cases "show_nat n") auto

text \<open>Parsing is the inverse of printing on every 64-bit integer.\<close>

lemma parse_i64_show_i64[simp]: "parse_i64 (show_i64 w) = Some w"
proof (cases "sint w < 0")
  case True
  then show ?thesis
    using sint_i64_range[of w] by (simp add: parse_i64_def show_i64_def)
next
  case False
  obtain c cs where s: "show_nat (nat (sint w)) = c # cs" "c \<noteq> CHR ''-''" "c \<noteq> CHR ''+''"
    by (rule show_nat_cases)
  from s(1) have "parse_nat (c # cs) = Some (nat (sint w))" by (metis parse_nat_show_nat)
  with False s show ?thesis
    using sint_i64_range[of w] by (simp add: parse_i64_def show_i64_def)
qed

lemma parse_u64_show_u64[simp]: "parse_u64 (show_u64 w) = Some w"
proof -
  obtain c cs where s: "show_nat (unat w) = c # cs" "c \<noteq> CHR ''-''" "c \<noteq> CHR ''+''"
    by (rule show_nat_cases)
  from s(1) have p: "parse_nat (c # cs) = Some (unat w)" by (metis parse_nat_show_nat)
  have "unat w < 2 ^ 64" using unsigned_less[of w] by simp
  with s p show ?thesis by (simp add: parse_u64_def show_u64_def)
qed

text \<open>
  \<open>str::chars\<close>: each Unicode scalar value is kept as the bytes that encode it, a leading byte
  and the continuation bytes (\<open>10xxxxxx\<close>) that follow it.
\<close>

definition is_continuation :: "char \<Rightarrow> bool" where
  "is_continuation c = (let n = of_char c :: nat in 128 \<le> n \<and> n < 192)"

lemma length_dropWhile_Suc[termination_simp]: "length (dropWhile P xs) < Suc (length xs)"
  by (simp add: length_dropWhile_le le_imp_less_Suc)

fun chars :: "string \<Rightarrow> string list" where
  "chars [] = []"
| "chars (c # cs) = (c # takeWhile is_continuation cs) # chars (dropWhile is_continuation cs)"

lemma concat_chars[simp]: "concat (chars s) = s"
  by (induction s rule: chars.induct) auto

lemma chars_ascii: "\<forall>c \<in> set s. \<not> is_continuation c \<Longrightarrow> chars s = map (\<lambda>c. [c]) s"
proof (induction s)
  case (Cons c cs)
  then have "takeWhile is_continuation cs = []" "dropWhile is_continuation cs = cs"
    by (cases cs; simp)+
  with Cons show ?case by simp
qed simp

subsection \<open>Hash maps\<close>

type_synonym ('k, 'v) hmap = "('k \<times> 'v) list"

abbreviation hm_get :: "('k, 'v) hmap \<Rightarrow> 'k \<Rightarrow> 'v option" where
  "hm_get \<equiv> map_of"

abbreviation hm_insert :: "'k \<Rightarrow> 'v \<Rightarrow> ('k, 'v) hmap \<Rightarrow> ('k, 'v) hmap" where
  "hm_insert \<equiv> AList.update"

abbreviation hm_remove :: "'k \<Rightarrow> ('k, 'v) hmap \<Rightarrow> ('k, 'v) hmap" where
  "hm_remove \<equiv> AList.delete"

abbreviation hm_keys :: "('k, 'v) hmap \<Rightarrow> 'k list" where
  "hm_keys m \<equiv> map fst m"

abbreviation hm_wf :: "('k, 'v) hmap \<Rightarrow> bool" where
  "hm_wf m \<equiv> distinct (hm_keys m)"

declare update_conv' [simp] delete_conv' [simp] dom_update [simp]
  distinct_update [simp] distinct_delete [simp]

lemma hm_remove_keys[simp]: "fst ` set (hm_remove k m) = fst ` set m - {k}"
  by (auto simp: AList.delete_eq image_iff)

lemma hm_get_None: "hm_get m k = None \<longleftrightarrow> k \<notin> fst ` set m"
  by (rule map_of_eq_None_iff)

lemma set_hm_insert: "hm_wf m \<Longrightarrow> set (hm_insert k v m) = insert (k, v) {p \<in> set m. fst p \<noteq> k}"
  by (induction m) (auto simp: image_iff)

lemma set_hm_insert_subset: "set (hm_insert k v m) \<subseteq> insert (k, v) (set m)"
  by (induction m) auto

lemma hm_insert_all: "P (k, v) \<Longrightarrow> \<forall>x \<in> set m. P x \<Longrightarrow> \<forall>x \<in> set (hm_insert k v m). P x"
  using set_hm_insert_subset[of k v m] by blast

lemma hm_insert_keys: "fst ` set (hm_insert k v m) = insert k (fst ` set m)"
  by (induction m) auto

lemma set_hm_remove: "set (hm_remove k m) = {p \<in> set m. fst p \<noteq> k}"
  by (auto simp: AList.delete_eq)

lemma hm_insert_not_Nil[simp]: "hm_insert k v m \<noteq> []"
  by (cases m) auto

lemma length_hm_insert:
  "length (hm_insert k v m) = (if k \<in> fst ` set m then length m else Suc (length m))"
  by (induction m) auto

text \<open>
  The interface the store relies on: what a lookup returns after each operation, the keys an
  iteration visits, and that the operations keep the representation well formed.
\<close>

locale hash_map =
  fixes empty :: 'm
    and get :: "'m \<Rightarrow> 'k \<Rightarrow> 'v option"
    and ins :: "'k \<Rightarrow> 'v \<Rightarrow> 'm \<Rightarrow> 'm"
    and rem :: "'k \<Rightarrow> 'm \<Rightarrow> 'm"
    and ks :: "'m \<Rightarrow> 'k list"
    and wf :: "'m \<Rightarrow> bool"
  assumes get_empty: "get empty k = None"
    and get_ins: "get (ins k v m) j = (if j = k then Some v else get m j)"
    and get_rem: "get (rem k m) j = (if j = k then None else get m j)"
    and ks_get: "wf m \<Longrightarrow> k \<in> set (ks m) \<longleftrightarrow> get m k \<noteq> None"
    and ks_distinct: "wf m \<Longrightarrow> distinct (ks m)"
    and wf_empty: "wf empty"
    and wf_ins: "wf m \<Longrightarrow> wf (ins k v m)"
    and wf_rem: "wf m \<Longrightarrow> wf (rem k m)"
begin

lemma get_fold_ins_other:
  "j \<notin> fst ` set ps \<Longrightarrow> get (fold (\<lambda>(k, v). ins k v) ps m) j = get m j"
  by (induction ps arbitrary: m) (auto simp: get_ins)

lemma get_fold_ins:
  "distinct (map fst ps) \<Longrightarrow>
   get (fold (\<lambda>(k, v). ins k v) ps m) j = (case map_of ps j of Some v \<Rightarrow> Some v | None \<Rightarrow> get m j)"
proof (induction ps arbitrary: m)
  case (Cons p ps)
  obtain k v where p: "p = (k, v)" by (cases p)
  show ?case
  proof (cases "j = k")
    case True
    with Cons.prems p have "j \<notin> fst ` set ps" by simp
    with True p show ?thesis by (simp add: get_ins get_fold_ins_other)
  next
    case False
    with Cons p show ?thesis by (simp add: get_ins split: option.splits)
  qed
qed simp

lemma wf_fold_ins: "wf m \<Longrightarrow> wf (fold (\<lambda>(k, v). ins k v) ps m)"
  by (induction ps arbitrary: m) (auto simp: wf_ins)

lemma get_fold_rem:
  "get (fold rem js m) j = (if j \<in> set js then None else get m j)"
  by (induction js arbitrary: m) (auto simp: get_rem)

lemma wf_fold_rem: "wf m \<Longrightarrow> wf (fold rem js m)"
  by (induction js arbitrary: m) (auto simp: wf_rem)

lemma card_get: "wf m \<Longrightarrow> length (ks m) = card {k. get m k \<noteq> None}"
proof -
  assume w: "wf m"
  then have "{k. get m k \<noteq> None} = set (ks m)" by (auto simp: ks_get)
  with w show ?thesis by (simp add: ks_distinct distinct_card)
qed

end

interpretation hm: hash_map "[]" map_of AList.update AList.delete "map fst" "\<lambda>m. distinct (map fst m)"
  by unfold_locales (auto simp: map_of_eq_None_iff simp del: not_None_eq)

subsection \<open>Machines with an invariant\<close>

text \<open>
  A component is a step function over a state; its contract is that every step on an admissible
  event keeps the invariant. Runs are \<open>foldl\<close>.
\<close>

locale machine =
  fixes step :: "'s \<Rightarrow> 'e \<Rightarrow> 's"
    and ok :: "'e \<Rightarrow> bool"
    and inv :: "'s \<Rightarrow> bool"
  assumes step_inv: "inv s \<Longrightarrow> ok e \<Longrightarrow> inv (step s e)"
begin

lemma run_inv: "inv s \<Longrightarrow> list_all ok es \<Longrightarrow> inv (foldl step s es)"
  by (induction es arbitrary: s) (auto intro: step_inv)

lemma run_append: "foldl step s (es @ fs) = foldl step (foldl step s es) fs"
  by simp

end

text \<open>A machine whose steps only ever move up in a preorder: so do its runs.\<close>

locale monotone_machine = machine +
  fixes below :: "'s \<Rightarrow> 's \<Rightarrow> bool"
  assumes below_refl: "below s s"
    and below_trans: "below s t \<Longrightarrow> below t u \<Longrightarrow> below s u"
    and step_above: "inv s \<Longrightarrow> ok e \<Longrightarrow> below s (step s e)"
begin

lemma run_above: "inv s \<Longrightarrow> list_all ok es \<Longrightarrow> below s (foldl step s es)"
proof (induction es arbitrary: s)
  case (Cons e es)
  then have "below s (step s e)" "below (step s e) (foldl step (step s e) es)"
    by (auto intro: step_above step_inv)
  then show ?case by (auto intro: below_trans)
qed (simp add: below_refl)

end

text \<open>
  A relation whose steps keep an invariant that holds at the start: so does every reachable state.
  Invariants of concurrent components are stated this way, each on those proved before it.
\<close>

locale transition_system =
  fixes start :: 's
    and step :: "'s \<Rightarrow> 's \<Rightarrow> bool"
    and inv :: "'s \<Rightarrow> bool"
  assumes start_inv: "inv start"
    and step_inv: "inv s \<Longrightarrow> step s t \<Longrightarrow> inv t"
begin

lemma run_keeps: "step\<^sup>*\<^sup>* start s \<Longrightarrow> inv s"
  by (induction rule: rtranclp_induct) (blast intro: start_inv step_inv)+

end

end
