(* ===== verification/Kv_Error.thy ===== *)
theory Kv_Error
  imports Daikon_Prelude
begin

section \<open>Errors (error.rs)\<close>

text \<open>
  \<open>KvStoreError\<close> with its constructors in the source's order, the \<open>Result\<close> type, and the
  \<open>Display\<close> text that \<open>thiserror\<close> derives from the \<open>#[error(...)]\<close> attributes. The two variants
  that wrap a foreign error (\<open>IoError\<close>, \<open>SerializationError\<close>) carry that error's message.
\<close>

datatype kv_error =
    KeyNotFound string
  | TypeMismatch string string string
  | KeyTooLarge nat nat
  | ValueTooLarge nat nat
  | MemoryLimitExceeded nat nat
  | InvalidKey string
  | InvalidValue string
  | IoError string
  | SerializationError string
  | DataCorruption string
  | ReadOnly
  | ReplicationError string
  | OperationFailed string

type_synonym 'a result = "kv_error + 'a"

fun show_error :: "kv_error \<Rightarrow> string" where
  "show_error (KeyNotFound k) = ''Key '' @ [CHR 0x27] @ k @ [CHR 0x27] @ '' not found''"
| "show_error (TypeMismatch k e g) =
     ''Type mismatch for key '' @ [CHR 0x27] @ k @ [CHR 0x27] @ '': expected '' @ e @ '', got '' @ g"
| "show_error (KeyTooLarge n m) =
     ''Key too large: '' @ show_nat n @ '' bytes (max: '' @ show_nat m @ '' bytes)''"
| "show_error (ValueTooLarge n m) =
     ''Value too large: '' @ show_nat n @ '' bytes (max: '' @ show_nat m @ '' bytes)''"
| "show_error (MemoryLimitExceeded n m) =
     ''Memory limit exceeded: '' @ show_nat n @ '' bytes (max: '' @ show_nat m @ '' bytes)''"
| "show_error (InvalidKey t) = ''Invalid key: '' @ t"
| "show_error (InvalidValue t) = ''Invalid value: '' @ t"
| "show_error (IoError t) = ''IO error: '' @ t"
| "show_error (SerializationError t) = ''Serialization error: '' @ t"
| "show_error (DataCorruption t) = ''Data corruption detected: '' @ t"
| "show_error ReadOnly = ''Store is read-only''"
| "show_error (ReplicationError t) = ''Replication error: '' @ t"
| "show_error (OperationFailed t) = ''Operation failed: '' @ t"

definition type_mismatch :: "string \<Rightarrow> string \<Rightarrow> string \<Rightarrow> kv_error" where
  "type_mismatch key expected got = TypeMismatch key expected got"

definition is_ok :: "'a result \<Rightarrow> bool" where
  "is_ok r = (case r of Inl _ \<Rightarrow> False | Inr _ \<Rightarrow> True)"

lemma is_ok_simps[simp]: "is_ok (Inr x)" "\<not> is_ok (Inl e)"
  by (simp_all add: is_ok_def)

lemma is_ok_iff: "is_ok r \<longleftrightarrow> (\<exists>x. r = Inr x)"
  by (cases r) simp_all

end
