(* ===== verification/At_Rest.thy ===== *)
theory At_Rest
  imports Kv_Error
begin

section \<open>Encryption at rest (crypto.rs)\<close>

text \<open>
  The framing around AES-GCM: the key from the environment, the prefix, the nonce in front of the
  ciphertext, and every error message. The crates (\<open>aes_gcm\<close>, \<open>base64\<close>, \<open>hex\<close>) are a record
  of operations; the environment variable and the random nonce are arguments. A byte string is a
  \<open>string\<close>.
\<close>

record crypto_lib =
  hex_decode :: "string \<Rightarrow> string option"
  b64_decode :: "string \<Rightarrow> string option"
  b64_encode :: "string \<Rightarrow> string"
  aes_encrypt :: "string \<Rightarrow> string \<Rightarrow> string \<Rightarrow> string option"
  aes_decrypt :: "string \<Rightarrow> string \<Rightarrow> string \<Rightarrow> string option"

definition enc_prefix :: string where "enc_prefix = ''DAIKON-ENC1:''"
definition nonce_size :: nat where "nonce_size = 12"

text \<open>
  \<open>str::trim\<close> removes Unicode white space; a text is blank when all its characters are. The
  characters are given by their UTF-8 bytes.
\<close>

definition bytes :: "nat list \<Rightarrow> string" where
  "bytes ns = map char_of ns"

definition white_space :: "string list" where
  "white_space =
     map (\<lambda>n. bytes [n]) [9, 10, 11, 12, 13, 32]
     @ map (\<lambda>n. bytes [194, n]) [133, 160]
     @ [bytes [225, 154, 128]]
     @ map (\<lambda>n. bytes [226, 128, n]) ([128..<139] @ [168, 169, 175])
     @ [bytes [226, 129, 159], bytes [227, 128, 128]]"

definition is_blank :: "string \<Rightarrow> bool" where
  "is_blank s = list_all (\<lambda>c. c \<in> set white_space) (chars s)"

definition key_from_env :: "crypto_lib \<Rightarrow> string option \<Rightarrow> string + string option" where
  "key_from_env L env =
     (case (case env of Some raw \<Rightarrow> if is_blank raw then None else Some raw | None \<Rightarrow> None) of
        None \<Rightarrow> Inr None
      | Some raw \<Rightarrow>
          (case (case hex_decode L raw of Some k \<Rightarrow> Some k | None \<Rightarrow> b64_decode L raw) of
             None \<Rightarrow> Inl ''KV_AT_REST_KEY must be 32-byte hex or base64''
           | Some decoded \<Rightarrow>
               if length decoded \<noteq> 32 then Inl ''KV_AT_REST_KEY must decode to exactly 32 bytes''
               else Inr (Some decoded)))"

definition enabled :: "crypto_lib \<Rightarrow> string option \<Rightarrow> bool" where
  "enabled L env = (case key_from_env L env of Inr k \<Rightarrow> k \<noteq> None | Inl _ \<Rightarrow> False)"

text \<open>\<open>nonce\<close> is the outcome of \<open>getrandom\<close>: twelve bytes, or a failure.\<close>

definition encrypt :: "crypto_lib \<Rightarrow> string option \<Rightarrow> string option \<Rightarrow> string \<Rightarrow> string + string" where
  "encrypt L env nonce data =
     (case key_from_env L env of
        Inl e \<Rightarrow> Inl e
      | Inr None \<Rightarrow> Inr data
      | Inr (Some key) \<Rightarrow>
          (case nonce of
             None \<Rightarrow> Inl ''random nonce generation failed''
           | Some nonce_bytes \<Rightarrow>
               (case aes_encrypt L key nonce_bytes data of
                  None \<Rightarrow> Inl ''encryption failed''
                | Some ciphertext \<Rightarrow> Inr (enc_prefix @ b64_encode L (nonce_bytes @ ciphertext)))))"

definition starts_with :: "string \<Rightarrow> string \<Rightarrow> bool" where
  "starts_with p s = (take (length p) s = p)"

definition decrypt :: "crypto_lib \<Rightarrow> string option \<Rightarrow> string \<Rightarrow> string + string" where
  "decrypt L env data =
     (if \<not> starts_with enc_prefix data then Inr data
      else case key_from_env L env of
        Inl e \<Rightarrow> Inl e
      | Inr None \<Rightarrow> Inl ''encrypted data requires KV_AT_REST_KEY''
      | Inr (Some key) \<Rightarrow>
          (case b64_decode L (drop (length enc_prefix) data) of
             None \<Rightarrow> Inl ''invalid encrypted data''
           | Some payload \<Rightarrow>
               if length payload < nonce_size then Inl ''invalid encrypted data''
               else (case aes_decrypt L key (take nonce_size payload) (drop nonce_size payload) of
                       None \<Rightarrow> Inl ''decryption failed; check KV_AT_REST_KEY''
                     | Some plain \<Rightarrow> Inr plain)))"

subsection \<open>The crates' contract\<close>

text \<open>
  Documented behaviour: base64 decodes what it encoded, and AES-GCM with the same key and nonce
  decrypts what it encrypted.
\<close>

definition crypto_lib_ok :: "crypto_lib \<Rightarrow> bool" where
  "crypto_lib_ok L \<longleftrightarrow> (\<forall>x. b64_decode L (b64_encode L x) = Some x)
     \<and> (\<forall>key nonce x c. aes_encrypt L key nonce x = Some c \<longrightarrow> aes_decrypt L key nonce c = Some x)"

lemma starts_with_append[simp]: "starts_with p (p @ s)"
  by (simp add: starts_with_def)

lemma decrypt_encrypt:
  assumes "crypto_lib_ok L" "encrypt L env nonce data = Inr out"
    and "\<And>n. nonce = Some n \<Longrightarrow> length n = nonce_size"
    and "\<not> starts_with enc_prefix data"
  shows "decrypt L env out = Inr data"
proof (cases "key_from_env L env")
  case (Inl e)
  with assms(2) show ?thesis by (simp add: encrypt_def)
next
  case (Inr k)
  show ?thesis
  proof (cases k)
    case None
    with Inr assms(2,4) show ?thesis by (simp add: encrypt_def decrypt_def)
  next
    case (Some key)
    with Inr assms(2) obtain n c where n: "nonce = Some n" "aes_encrypt L key n data = Some c"
      "out = enc_prefix @ b64_encode L (n @ c)"
      by (auto simp: encrypt_def split: option.splits)
    from n(1) assms(3) have "length n = nonce_size" by simp
    with n Inr Some assms(1) show ?thesis by (simp add: decrypt_def crypto_lib_ok_def)
  qed
qed

lemma encrypt_prefixed:
  "key_from_env L env = Inr (Some key) \<Longrightarrow> encrypt L env nonce data = Inr out \<Longrightarrow> starts_with enc_prefix out"
  by (auto simp: encrypt_def split: option.splits)

subsection \<open>Properties\<close>

text \<open>Encryption at rest round trips, and the mode of a blob is readable from its prefix: with a
  key configured, \<open>decrypt\<close> recovers every plaintext that \<open>encrypt\<close> accepted and the blob carries
  the prefix; without a key the bytes pass through unchanged, and a prefixed blob is refused.\<close>

theorem at_rest_roundtrip:
  assumes "crypto_lib_ok L" "length n = nonce_size" "encrypt L env (Some n) data = Inr out"
    "\<not> starts_with enc_prefix data"
  shows "decrypt L env out = Inr data
     \<and> (enabled L env \<longrightarrow> starts_with enc_prefix out)
     \<and> (\<not> enabled L env \<longrightarrow> out = data \<and> (\<exists>e. decrypt L env (enc_prefix @ data) = Inl e))"
proof -
  have "decrypt L env out = Inr data"
    by (rule decrypt_encrypt[OF assms(1,3)]) (use assms(2,4) in auto)
  moreover have "enabled L env \<longrightarrow> starts_with enc_prefix out"
    using encrypt_prefixed[OF _ assms(3)] by (auto simp: enabled_def split: sum.splits)
  moreover have "\<not> enabled L env \<longrightarrow> out = data \<and> (\<exists>e. decrypt L env (enc_prefix @ data) = Inl e)"
    using assms(3) by (auto simp: enabled_def encrypt_def decrypt_def split: sum.splits)
  ultimately show ?thesis by blast
qed

text \<open>A concrete library: hex and base64 as the identity, and a cipher that adds no secrecy.\<close>

definition toy_lib :: crypto_lib where
  "toy_lib = \<lparr>hex_decode = (\<lambda>_. None), b64_decode = Some, b64_encode = (\<lambda>x. x),
     aes_encrypt = (\<lambda>k n x. Some (rev x)), aes_decrypt = (\<lambda>k n c. Some (rev c))\<rparr>"

lemma toy_lib_ok: "crypto_lib_ok toy_lib"
  by (simp add: crypto_lib_ok_def toy_lib_def)

theorem at_rest_roundtrip_witness:
  "decrypt toy_lib (Some (replicate 32 CHR ''k'')) (enc_prefix @ replicate 12 CHR ''n'' @ ''olleh'') = Inr ''hello''"
proof -
  have "\<not> is_blank (replicate 32 CHR ''k'')"
    by code_simp
  then have "encrypt toy_lib (Some (replicate 32 CHR ''k'')) (Some (replicate 12 CHR ''n'')) ''hello''
      = Inr (enc_prefix @ replicate 12 CHR ''n'' @ ''olleh'')"
    by (simp add: encrypt_def key_from_env_def toy_lib_def)
  from at_rest_roundtrip[OF toy_lib_ok _ this] show ?thesis
    by (simp add: nonce_size_def starts_with_def enc_prefix_def)
qed

end
