(* ===== verification/Wal_Log.thy ===== *)
theory Wal_Log
  imports At_Rest
begin

section \<open>The write-ahead log (wal.rs)\<close>

text \<open>
  The log is a file of lines, one encoded (and possibly encrypted) entry each. The state is the
  file's content, \<open>None\<close> when it does not exist. The JSON codec of an entry is a parameter, as
  are the outcomes of the file operations; a failed write leaves some of its bytes behind.
\<close>

datatype wal_operation =
    WalSet string string "u64 option"
  | WalDelete string
  | WalIncr string
  | WalDecr string
  | WalIncrBy string i64
  | WalAppend string string
  | WalGetSet string string
  | WalMset "(string \<times> string) list"
  | WalPfAdd string "string list"
  | WalPfMerge string "string list"
  | WalLPush string "string list"
  | WalRPush string "string list"
  | WalLPop string
  | WalRPop string
  | WalExpire string u64
  | WalPersist string
  | WalHSet string "(string, string) hmap"
  | WalHDel string "string list"
  | WalHIncrBy string string i64

record wal_entry =
  timestamp :: u64
  operation :: wal_operation

definition wal_entry_new :: "u64 \<Rightarrow> wal_operation \<Rightarrow> wal_entry" where
  "wal_entry_new now op = \<lparr>timestamp = now, operation = op\<rparr>"

record wal_codec =
  to_json :: "wal_entry \<Rightarrow> string + string"
  from_json :: "string \<Rightarrow> wal_entry option"

record wal_io =
  open_error :: "string option"
  line_error :: "(string \<times> string) option"
  newline_error :: "string option"

definition nl :: char where "nl = CHR 0x0A"
definition cr :: char where "cr = CHR 0x0D"

subsection \<open>Operations\<close>

definition wal_new :: "string option \<Rightarrow> string option" where
  "wal_new f = (case f of None \<Rightarrow> Some [] | Some c \<Rightarrow> Some c)"

text \<open>
  \<open>append\<close> writes the line, then the line feed. \<open>line_error\<close> carries the bytes that reached the
  file before the error, and its message.
\<close>

definition wal_append ::
  "crypto_lib \<Rightarrow> string option \<Rightarrow> wal_codec \<Rightarrow> wal_io \<Rightarrow> string option \<Rightarrow> wal_entry \<Rightarrow>
   string option \<Rightarrow> unit result \<times> string option" where
  "wal_append L env J io nonce entry f =
     (case (f, open_error io) of
        (None, _) \<Rightarrow> (Inl (IoError ''entity not found''), f)
      | (Some c, Some e) \<Rightarrow> (Inl (IoError e), f)
      | (Some c, None) \<Rightarrow>
          (case to_json J entry of Inl e \<Rightarrow> (Inl (SerializationError e), f) | Inr json_line \<Rightarrow>
           case encrypt L env nonce json_line of Inl e \<Rightarrow> (Inl (OperationFailed e), f) | Inr encoded_line \<Rightarrow>
           case line_error io of Some (partial, e) \<Rightarrow> (Inl (IoError e), Some (c @ partial)) | None \<Rightarrow>
           case newline_error io of Some e \<Rightarrow> (Inl (IoError e), Some (c @ encoded_line)) | None \<Rightarrow>
           (Inr (), Some (c @ encoded_line @ [nl]))))"

text \<open>
  \<open>BufRead::lines\<close>: split at line feeds, drop one carriage return before each; bytes after the
  last line feed are a line of their own.
\<close>

definition strip_cr :: "string \<Rightarrow> string" where
  "strip_cr l = (if l \<noteq> [] \<and> last l = cr then butlast l else l)"

function file_lines :: "string \<Rightarrow> string list" where
  "file_lines s =
     (if s = [] then []
      else case dropWhile (\<lambda>c. c \<noteq> nl) s of
        [] \<Rightarrow> [s]
      | _ # rest \<Rightarrow> strip_cr (takeWhile (\<lambda>c. c \<noteq> nl) s) # file_lines rest)"
  by pat_completeness auto
termination
proof (relation "measure length", simp)
  fix s :: string and x rest
  assume "dropWhile (\<lambda>c. c \<noteq> nl) s = x # rest"
  then have "Suc (length rest) \<le> length s" by (metis length_Cons length_dropWhile_le)
  then show "(rest, s) \<in> measure length" by simp
qed

declare file_lines.simps [simp del]

text \<open>\<open>String\<close> lines must be UTF-8: the byte patterns \<open>std::str::from_utf8\<close> accepts.\<close>

definition byte_in :: "nat \<Rightarrow> nat \<Rightarrow> char \<Rightarrow> bool" where
  "byte_in a b c = (a \<le> of_char c \<and> (of_char c :: nat) \<le> b)"

fun utf8_ok :: "string \<Rightarrow> bool" where
  "utf8_ok [] = True"
| "utf8_ok (a # s) =
     (if byte_in 0 127 a then utf8_ok s
      else case s of [] \<Rightarrow> False | b # s2 \<Rightarrow>
        if byte_in 194 223 a then is_continuation b \<and> utf8_ok s2
        else case s2 of [] \<Rightarrow> False | c # s3 \<Rightarrow>
          if byte_in 224 239 a then
            (if byte_in 224 224 a then byte_in 160 191 b
             else if byte_in 237 237 a then byte_in 128 159 b
             else is_continuation b) \<and> is_continuation c \<and> utf8_ok s3
          else case s3 of [] \<Rightarrow> False | d # s4 \<Rightarrow>
            byte_in 240 244 a
            \<and> (if byte_in 240 240 a then byte_in 144 191 b
               else if byte_in 244 244 a then byte_in 128 143 b
               else is_continuation b)
            \<and> is_continuation c \<and> is_continuation d \<and> utf8_ok s4)"

definition utf8_error :: string where
  "utf8_error = ''stream did not contain valid UTF-8''"

text \<open>A line that does not parse is skipped with a warning; one that does not decrypt is an error.\<close>

fun read_lines ::
  "crypto_lib \<Rightarrow> string option \<Rightarrow> wal_codec \<Rightarrow> nat \<Rightarrow> string list \<Rightarrow> wal_entry list result" where
  "read_lines L env J n [] = Inr []"
| "read_lines L env J n (line # rest) =
     (if \<not> utf8_ok line
      then Inl (OperationFailed (''Failed to read WAL line '' @ show_nat n @ '': '' @ utf8_error))
      else if is_blank line then read_lines L env J (n + 1) rest
      else case decrypt L env line of
        Inl e \<Rightarrow> Inl (OperationFailed (''Failed to decrypt WAL line '' @ show_nat n @ '': '' @ e))
      | Inr decrypted \<Rightarrow>
          (case from_json J decrypted of
             Some entry \<Rightarrow> map_sum id (\<lambda>es. entry # es) (read_lines L env J (n + 1) rest)
           | None \<Rightarrow> read_lines L env J (n + 1) rest))"

definition wal_read_all ::
  "crypto_lib \<Rightarrow> string option \<Rightarrow> wal_codec \<Rightarrow> string option \<Rightarrow> wal_entry list result" where
  "wal_read_all L env J f =
     (case f of None \<Rightarrow> Inr [] | Some c \<Rightarrow> read_lines L env J 0 (file_lines c))"

definition wal_clear :: "string option \<Rightarrow> string option" where
  "wal_clear f = Some []"

definition wal_size :: "string option \<Rightarrow> nat result" where
  "wal_size f =
     (case f of Some c \<Rightarrow> Inr (length c)
      | None \<Rightarrow> Inl (OperationFailed ''Failed to get WAL size: entity not found''))"

subsection \<open>Lines\<close>

text \<open>A file that ends in a line feed, or is empty: what complete appends leave.\<close>

definition terminated :: "string \<Rightarrow> bool" where
  "terminated c \<longleftrightarrow> c = [] \<or> last c = nl"

lemma file_lines_Nil[simp]: "file_lines [] = []"
  by (subst file_lines.simps) simp

lemma file_lines_line:
  assumes "nl \<notin> set l"
  shows "file_lines (l @ nl # rest) = strip_cr l # file_lines rest"
proof -
  have "dropWhile (\<lambda>c. c \<noteq> nl) (l @ nl # rest) = nl # rest"
    using assms by (subst dropWhile_append2) auto
  moreover have "takeWhile (\<lambda>c. c \<noteq> nl) (l @ nl # rest) = l"
    using assms by (subst takeWhile_append2) auto
  ultimately show ?thesis by (subst file_lines.simps) simp
qed

lemma file_lines_last:
  assumes "nl \<notin> set l" "l \<noteq> []"
  shows "file_lines l = [l]"
proof -
  have "dropWhile (\<lambda>c. c \<noteq> nl) l = []" using assms(1) by (auto simp: dropWhile_eq_Nil_conv)
  then show ?thesis using assms(2) by (subst file_lines.simps) (simp only: list.case if_False)
qed

lemma split_first_line:
  assumes "nl \<in> set c"
  obtains l rest where "c = l @ nl # rest" "nl \<notin> set l"
  using split_list_first[OF assms] by blast

lemma file_lines_append: "terminated c \<Longrightarrow> file_lines (c @ d) = file_lines c @ file_lines d"
proof (induction "length c" arbitrary: c rule: less_induct)
  case less
  show ?case
  proof (cases "c = []")
    case False
    with less.prems have "nl \<in> set c" unfolding terminated_def by (metis last_in_set)
    then obtain l rest where c: "c = l @ nl # rest" "nl \<notin> set l" by (rule split_first_line)
    with less.prems have "terminated rest" by (auto simp: terminated_def split: if_splits)
    with less.hyps[of rest] c show ?thesis by (simp add: file_lines_line)
  qed simp
qed

lemma terminated_append_line[simp]: "terminated (c @ l @ [nl])"
  by (simp add: terminated_def)

lemma read_lines_append:
  "read_lines L env J n ls = Inr es \<Longrightarrow>
   read_lines L env J n (ls @ ms) = map_sum id (\<lambda>fs. es @ fs) (read_lines L env J (n + length ls) ms)"
proof (induction ls arbitrary: n es)
  case Nil
  then show ?case by (cases "read_lines L env J n ms") simp_all
next
  case (Cons l ls)
  consider (skip) "read_lines L env J (n + 1) ls = Inr es" "\<And>ms. read_lines L env J n ((l # ls) @ ms) = read_lines L env J (n + 1) (ls @ ms)"
    | (entry) e es' where "es = e # es'" "read_lines L env J (n + 1) ls = Inr es'"
        "\<And>ms. read_lines L env J n ((l # ls) @ ms) = map_sum id (\<lambda>es. e # es) (read_lines L env J (n + 1) (ls @ ms))"
    using Cons.prems
    by (cases "decrypt L env l"; cases "read_lines L env J (n + 1) ls")
       (auto split: if_splits option.splits)
  then show ?case
  proof cases
    case skip
    with Cons.IH[OF skip(1)] show ?thesis by simp
  next
    case entry
    then show ?thesis
      unfolding entry(3) Cons.IH[OF entry(2)]
      by (cases "read_lines L env J (n + 1 + length ls) ms") simp_all
  qed
qed

subsection \<open>What an append adds\<close>

text \<open>A line that survives \<open>file_lines\<close> and the blank test unchanged.\<close>

definition line_ok :: "string \<Rightarrow> bool" where
  "line_ok l \<longleftrightarrow> l \<noteq> [] \<and> nl \<notin> set l \<and> last l \<noteq> cr \<and> utf8_ok l \<and> \<not> is_blank l"

text \<open>
  The contract of the codec and the crates: JSON of an entry is one such line that reads back
  and does not start with the encryption prefix; base64 prints ASCII letters, digits and signs.
\<close>

definition wal_codec_ok :: "wal_codec \<Rightarrow> bool" where
  "wal_codec_ok J \<longleftrightarrow> (\<forall>e j. to_json J e = Inr j \<longrightarrow>
     from_json J j = Some e \<and> line_ok j \<and> \<not> starts_with enc_prefix j)"

definition b64_text_ok :: "crypto_lib \<Rightarrow> bool" where
  "b64_text_ok L \<longleftrightarrow> (\<forall>x. \<forall>c \<in> set (b64_encode L x). byte_in 33 126 c)"

lemma utf8_ok_ascii: "\<forall>c \<in> set s. byte_in 33 126 c \<Longrightarrow> utf8_ok s"
  by (induction s) (auto simp: byte_in_def)

lemma letter_not_blank: "[CHR ''D''] \<notin> set white_space"
  by code_simp

lemma prefixed_line_ok:
  assumes "\<forall>c \<in> set b. byte_in 33 126 c"
  shows "line_ok (enc_prefix @ b)"
proof -
  have p: "\<forall>c \<in> set enc_prefix. byte_in 33 126 c"
    by (simp add: enc_prefix_def byte_in_def)
  with assms have all: "\<forall>c \<in> set (enc_prefix @ b). byte_in 33 126 c" by auto
  have n: "\<not> byte_in 33 126 nl" "\<not> byte_in 33 126 cr" by (simp_all add: byte_in_def nl_def cr_def)
  have ne: "enc_prefix @ b \<noteq> []" by (simp add: enc_prefix_def)
  have "\<not> is_continuation CHR ''A''" by code_simp
  then have "hd (chars (enc_prefix @ b)) = [CHR ''D'']" "chars (enc_prefix @ b) \<noteq> []"
    by (simp_all add: enc_prefix_def)
  then have nb: "\<not> is_blank (enc_prefix @ b)"
    unfolding is_blank_def list_all_iff using letter_not_blank by (metis hd_in_set)
  show ?thesis
    unfolding line_ok_def using utf8_ok_ascii[OF all] all n ne nb last_in_set[OF ne] by metis
qed

lemma encrypt_line_ok:
  assumes "wal_codec_ok J" "b64_text_ok L" "to_json J e = Inr j" "encrypt L env nonce j = Inr out"
  shows "line_ok out"
  using assms prefixed_line_ok[of "b64_encode L x" for x]
  by (auto simp: encrypt_def wal_codec_ok_def b64_text_ok_def split: sum.splits option.splits)

lemma wal_append_ok:
  assumes "wal_append L env J io nonce e (Some c) = (Inr (), f)"
  obtains j out where "to_json J e = Inr j" "encrypt L env nonce j = Inr out" "f = Some (c @ out @ [nl])"
  using assms by (auto simp: wal_append_def split: option.splits sum.splits prod.splits)

lemma read_lines_one:
  assumes "line_ok l" "decrypt L env l = Inr j" "from_json J j = Some e"
  shows "read_lines L env J n [l] = Inr [e]"
  using assms by (simp add: line_ok_def)

lemma wal_append_reads:
  assumes "wal_codec_ok J" "crypto_lib_ok L" "b64_text_ok L" "\<And>n. nonce = Some n \<Longrightarrow> length n = nonce_size"
    "terminated c" "wal_read_all L env J (Some c) = Inr es"
    "wal_append L env J io nonce e (Some c) = (Inr (), f)"
  shows "wal_read_all L env J f = Inr (es @ [e]) \<and> (\<exists>d. f = Some d \<and> terminated d)"
proof -
  from assms(7) obtain j out where j: "to_json J e = Inr j" "encrypt L env nonce j = Inr out"
    "f = Some (c @ out @ [nl])" by (rule wal_append_ok)
  have l: "line_ok out" by (rule encrypt_line_ok[OF assms(1,3) j(1,2)])
  have jok: "from_json J j = Some e" "\<not> starts_with enc_prefix j"
    using assms(1) j(1) by (auto simp: wal_codec_ok_def)
  have d: "decrypt L env out = Inr j" by (rule decrypt_encrypt[OF assms(2) j(2) assms(4) jok(2)])
  have "file_lines (out @ [nl]) = [out]"
    using l file_lines_line[of out "[]"] by (simp add: line_ok_def strip_cr_def)
  then have "file_lines (c @ out @ [nl]) = file_lines c @ [out]"
    using file_lines_append[OF assms(5)] by simp
  moreover have "read_lines L env J 0 (file_lines c) = Inr es" using assms(6) by (simp add: wal_read_all_def)
  ultimately show ?thesis
    using read_lines_append[of L env J 0 "file_lines c" es "[out]"] read_lines_one[OF l d jok(1)] j(3)
    by (simp add: wal_read_all_def)
qed

subsection \<open>The journal interface\<close>

text \<open>
  What recovery relies on: a successful append adds its entry at the end of what is read, and
  leaves a state the next append can build on.
\<close>

locale journal =
  fixes append :: "'s \<Rightarrow> 'ev \<Rightarrow> 's option"
    and read :: "'s \<Rightarrow> 'e list option"
    and payload :: "'ev \<Rightarrow> 'e"
    and ok :: "'ev \<Rightarrow> bool"
    and good :: "'s \<Rightarrow> bool"
  assumes append_reads: "good s \<Longrightarrow> ok ev \<Longrightarrow> read s = Some es \<Longrightarrow> append s ev = Some t \<Longrightarrow>
      read t = Some (es @ [payload ev]) \<and> good t"
begin

fun append_all :: "'s \<Rightarrow> 'ev list \<Rightarrow> 's option" where
  "append_all s [] = Some s"
| "append_all s (ev # evs) = Option.bind (append s ev) (\<lambda>t. append_all t evs)"

lemma append_all_reads:
  "good s \<Longrightarrow> list_all ok evs \<Longrightarrow> read s = Some es \<Longrightarrow> append_all s evs = Some t \<Longrightarrow>
   read t = Some (es @ map payload evs) \<and> good t"
proof (induction evs arbitrary: s es)
  case (Cons ev evs)
  from Cons.prems(4) obtain u where u: "append s ev = Some u" "append_all u evs = Some t"
    by (auto simp: bind_eq_Some_conv)
  with append_reads[OF Cons.prems(1) _ Cons.prems(3), of ev u] Cons.prems(2)
  have "read u = Some (es @ [payload ev])" "good u" by simp_all
  with Cons.IH[of u "es @ [payload ev]"] Cons.prems(2) u(2) show ?case by simp
qed simp

end

text \<open>One call of \<open>append\<close>: the file operations' outcomes, the nonce drawn and the entry.\<close>

type_synonym append_call = "wal_io \<times> string option \<times> wal_entry"

definition logged :: "crypto_lib \<Rightarrow> string option \<Rightarrow> wal_codec \<Rightarrow> string option \<Rightarrow> append_call \<Rightarrow> string option option" where
  "logged L env J f call =
     (case call of (io, nonce, e) \<Rightarrow>
        (case wal_append L env J io nonce e f of (Inr _, f') \<Rightarrow> Some f' | (Inl _, _) \<Rightarrow> None))"

definition read_back :: "crypto_lib \<Rightarrow> string option \<Rightarrow> wal_codec \<Rightarrow> string option \<Rightarrow> wal_entry list option" where
  "read_back L env J f = (case wal_read_all L env J f of Inr es \<Rightarrow> Some es | Inl _ \<Rightarrow> None)"

definition libs_ok :: "crypto_lib \<Rightarrow> wal_codec \<Rightarrow> bool" where
  "libs_ok L J \<longleftrightarrow> wal_codec_ok J \<and> crypto_lib_ok L \<and> b64_text_ok L"

definition nonce_ok :: "append_call \<Rightarrow> bool" where
  "nonce_ok call = (case call of (_, nonce, _) \<Rightarrow> (case nonce of Some n \<Rightarrow> length n = nonce_size | None \<Rightarrow> True))"

definition good_file :: "crypto_lib \<Rightarrow> wal_codec \<Rightarrow> string option \<Rightarrow> bool" where
  "good_file L J f \<longleftrightarrow> libs_ok L J \<and> (\<exists>c. f = Some c \<and> terminated c)"

interpretation wal: journal "logged L env J" "read_back L env J" "\<lambda>(_, _, e). e" nonce_ok "good_file L J"
  for L env J
proof
  fix f ev es f'
  assume a: "good_file L J f" "nonce_ok ev" "read_back L env J f = Some es" "logged L env J f ev = Some f'"
  obtain io nonce e where ev: "ev = (io, nonce, e)" by (cases ev)
  from a(1) obtain c where c: "f = Some c" "terminated c" "wal_codec_ok J" "crypto_lib_ok L" "b64_text_ok L"
    by (auto simp: good_file_def libs_ok_def)
  from a(3) have r: "wal_read_all L env J (Some c) = Inr es"
    using c(1) by (auto simp: read_back_def split: sum.splits)
  from a(4) have w: "wal_append L env J io nonce e (Some c) = (Inr (), f')"
    using c(1) ev by (auto simp: logged_def split: prod.splits sum.splits)
  have "\<And>n. nonce = Some n \<Longrightarrow> length n = nonce_size"
    using a(2) ev by (simp add: nonce_ok_def)
  from wal_append_reads[OF c(3-5) this c(2) r w] c(3-5)
  show "read_back L env J f' = Some (es @ [(case ev of (_, _, e) \<Rightarrow> e)]) \<and> good_file L J f'"
    by (simp add: ev read_back_def good_file_def libs_ok_def)
qed

fun wal_append_all :: "crypto_lib \<Rightarrow> string option \<Rightarrow> wal_codec \<Rightarrow> string option \<Rightarrow> append_call list \<Rightarrow> string option option" where
  "wal_append_all L env J f [] = Some f"
| "wal_append_all L env J f (call # calls) =
     Option.bind (logged L env J f call) (\<lambda>f'. wal_append_all L env J f' calls)"

lemma wal_append_all_eq: "wal_append_all L env J f calls = wal.append_all L env J f calls"
  by (induction calls arbitrary: f) simp_all

subsection \<open>A torn last line\<close>

lemma read_torn_tail:
  assumes "terminated c" "wal_read_all L env J (Some c) = Inr es" "nl \<notin> set t" "t \<noteq> []"
    "utf8_ok t" "decrypt L env t = Inr d" "from_json J d = None"
  shows "wal_read_all L env J (Some (c @ t)) = Inr es"
  using assms read_lines_append[of L env J 0 "file_lines c" es "[t]"]
  by (simp add: wal_read_all_def file_lines_append file_lines_last)

lemma append_after_torn:
  assumes "terminated c" "wal_read_all L env J (Some c) = Inr es" "nl \<notin> set t"
    "to_json J e = Inr j" "key_from_env L env = Inr None" "wal_codec_ok J"
    "utf8_ok (t @ j)" "\<not> is_blank (t @ j)" "\<not> starts_with enc_prefix (t @ j)" "from_json J (t @ j) = None"
  shows "wal_append L env J \<lparr>open_error = None, line_error = None, newline_error = None\<rparr> nonce e (Some (c @ t))
       = (Inr (), Some (c @ (t @ j) @ [nl]))"
    and "wal_read_all L env J (Some (c @ (t @ j) @ [nl])) = Inr es"
proof -
  have j: "line_ok j" using assms(4,6) by (auto simp: wal_codec_ok_def)
  show "wal_append L env J \<lparr>open_error = None, line_error = None, newline_error = None\<rparr> nonce e (Some (c @ t))
       = (Inr (), Some (c @ (t @ j) @ [nl]))"
    using assms(4,5) by (simp add: wal_append_def encrypt_def)
  have "strip_cr (t @ j) = t @ j" using j by (simp add: strip_cr_def line_ok_def)
  then have "file_lines (c @ (t @ j) @ [nl]) = file_lines c @ [t @ j]"
    using file_lines_append[OF assms(1)] file_lines_line[of "t @ j" "[]"] j assms(3)
    by (simp add: line_ok_def)
  moreover have "read_lines L env J n [t @ j] = Inr []" for n
    using assms(7-10) by (simp add: decrypt_def)
  ultimately show "wal_read_all L env J (Some (c @ (t @ j) @ [nl])) = Inr es"
    using read_lines_append[of L env J 0 "file_lines c" es "[t @ j]"] assms(2)
    by (simp add: wal_read_all_def)
qed

subsection \<open>Properties\<close>

text \<open>A concrete codec that serialises two entries.\<close>

definition entry_a :: wal_entry where "entry_a = \<lparr>timestamp = 1, operation = WalDelete ''a''\<rparr>"
definition entry_b :: wal_entry where "entry_b = \<lparr>timestamp = 2, operation = WalIncr ''b''\<rparr>"

definition toy_codec :: wal_codec where
  "toy_codec = \<lparr>
     to_json = (\<lambda>e. if e = entry_a then Inr ''{a}'' else if e = entry_b then Inr ''{b}'' else Inl ''unsupported''),
     from_json = (\<lambda>s. if s = ''{a}'' then Some entry_a else if s = ''{b}'' then Some entry_b else None)\<rparr>"

definition no_failures :: wal_io where
  "no_failures = \<lparr>open_error = None, line_error = None, newline_error = None\<rparr>"

lemma brace_lines: "line_ok ''{a}''" "line_ok ''{b}''" "\<not> starts_with enc_prefix ''{a}''" "\<not> starts_with enc_prefix ''{b}''"
  by code_simp+

lemma toy_codec_ok: "wal_codec_ok toy_codec"
  by (auto simp: wal_codec_ok_def toy_codec_def brace_lines split: if_splits)

text \<open>A text encoding of bytes in the manner of base64: two letters per byte.\<close>

definition nibble_char :: "nat \<Rightarrow> char" where "nibble_char n = char_of (65 + n)"

definition text_encode :: "string \<Rightarrow> string" where
  "text_encode s = concat (map (\<lambda>c. [nibble_char (of_char c div 16), nibble_char (of_char c mod 16)]) s)"

fun text_decode :: "string \<Rightarrow> string option" where
  "text_decode [] = Some []"
| "text_decode [c] = None"
| "text_decode (a # b # s) =
     map_option (\<lambda>t. char_of ((of_char a - 65) * 16 + (of_char b - 65) :: nat) # t) (text_decode s)"

lemma of_nibble_char: "n < 16 \<Longrightarrow> of_char (nibble_char n) = (65 + n :: nat)"
  by (simp add: nibble_char_def)

lemma byte_halves: "(of_char c :: nat) div 16 < 16" "(of_char c :: nat) mod 16 < 16"
  using nat_of_char_less_256[of c] by (simp_all add: div_less_iff_less_mult)

lemma byte_halves_le: "(of_char c :: nat) div 16 \<le> 61" "(of_char c :: nat) mod 16 \<le> 61"
  using byte_halves[of c] by linarith+

lemma text_decode_encode: "text_decode (text_encode s) = Some s"
proof (induction s)
  case (Cons c s)
  then show ?case
    by (simp add: text_encode_def of_nibble_char byte_halves)
qed (simp add: text_encode_def)

lemma text_encode_printable: "c \<in> set (text_encode s) \<Longrightarrow> byte_in 33 126 c"
  using byte_halves_le by (auto simp: text_encode_def byte_in_def of_nibble_char byte_halves)

definition text_lib :: crypto_lib where
  "text_lib = \<lparr>hex_decode = (\<lambda>_. None), b64_decode = text_decode, b64_encode = text_encode,
     aes_encrypt = (\<lambda>k n x. Some (rev x)), aes_decrypt = (\<lambda>k n c. Some (rev c))\<rparr>"

lemma text_lib_ok: "crypto_lib_ok text_lib" "b64_text_ok text_lib"
  by (simp_all add: crypto_lib_ok_def b64_text_ok_def text_lib_def text_decode_encode text_encode_printable)



text \<open>A torn last line. Bytes of an entry whose write was cut off are skipped by \<open>read_all\<close>, and
  everything before them is read; but the next append does not start a new line, so without
  encryption its entry is glued to the torn bytes and lost although the append reports success.\<close>

theorem torn_line_loses_next_entry:
  assumes "terminated c" "wal_read_all L env J (Some c) = Inr es" "nl \<notin> set t" "t \<noteq> []"
    "utf8_ok t" "\<not> starts_with enc_prefix t" "from_json J t = None"
    "to_json J e = Inr j" "key_from_env L env = Inr None" "wal_codec_ok J"
    "utf8_ok (t @ j)" "\<not> is_blank (t @ j)" "\<not> starts_with enc_prefix (t @ j)" "from_json J (t @ j) = None"
  shows "wal_read_all L env J (Some (c @ t)) = Inr es
     \<and> fst (wal_append L env J no_failures nonce e (Some (c @ t))) = Inr ()
     \<and> wal_read_all L env J (snd (wal_append L env J no_failures nonce e (Some (c @ t)))) = Inr es"
proof -
  have "decrypt L env t = Inr t" using assms(6) by (simp add: decrypt_def)
  from read_torn_tail[OF assms(1-5) this assms(7)]
  show ?thesis
    using append_after_torn(1)[OF assms(1-3,8-14), of nonce] append_after_torn(2)[OF assms(1-3,8-14)]
    by (simp add: no_failures_def)
qed

theorem torn_line_loses_next_entry_witness:
  "wal_read_all text_lib None toy_codec
     (snd (wal_append text_lib None toy_codec no_failures None entry_a (Some (''{b}'' @ [nl] @ ''{x'')))) = Inr [entry_b]"
proof -
  have r: "wal_read_all text_lib None toy_codec (Some (''{b}'' @ [nl])) = Inr [entry_b]"
  proof -
    have "file_lines (''{b}'' @ [nl]) = [''{b}'']"
      using file_lines_line[of "''{b}''" "[]"] by (simp add: nl_def strip_cr_def cr_def)
    moreover have "decrypt text_lib None ''{b}'' = Inr ''{b}''"
      using brace_lines(4) by (simp add: decrypt_def)
    moreover have "from_json toy_codec ''{b}'' = Some entry_b" by (simp add: toy_codec_def)
    ultimately show ?thesis
      unfolding wal_read_all_def using read_lines_one[OF brace_lines(2)] by (simp only: option.case)
  qed
  have facts: "terminated (''{b}'' @ [nl])" "nl \<notin> set ''{x''" "utf8_ok ''{x''" "\<not> starts_with enc_prefix ''{x''"
    "utf8_ok (''{x'' @ ''{a}'')" "\<not> is_blank (''{x'' @ ''{a}'')" "\<not> starts_with enc_prefix (''{x'' @ ''{a}'')"
    by code_simp+
  have j: "from_json toy_codec ''{x'' = None" "to_json toy_codec entry_a = Inr ''{a}''"
    "from_json toy_codec (''{x'' @ ''{a}'') = None" "key_from_env text_lib None = Inr None"
    by (simp_all add: toy_codec_def key_from_env_def)
  from torn_line_loses_next_entry[OF facts(1) r facts(2) _ facts(3,4) j(1,2,4) toy_codec_ok facts(5-7) j(3), of None]
  show ?thesis by simp
qed

end
