(* ===== verification/Store_Config.thy ===== *)
theory Store_Config
  imports Daikon_Prelude
begin

section \<open>Configuration (config.rs)\<close>

text \<open>
  The \<open>StoreConfig\<close> struct, its defaults and \<open>validate\<close>. Reading and writing the file
  (\<open>from_file\<close>, \<open>save_to_file\<close>) is in \<open>Config_File\<close>.
\<close>

record store_config =
  max_key_size :: nat
  max_value_size :: nat
  max_memory_bytes :: nat
  max_keys :: nat
  lru_eviction_enabled :: bool
  ttl_cleanup_interval_secs :: u64
  persist_path :: string
  snapshot_interval_secs :: u64
  backup_versions :: nat
  enable_logging :: bool
  keyspace_notifications_enabled :: bool

definition default_max_key_size :: nat where "default_max_key_size = 1024"
definition default_max_value_size :: nat where "default_max_value_size = 10 * 1024 * 1024"
definition default_max_memory :: nat where "default_max_memory = 1024 * 1024 * 1024"
definition default_max_keys :: nat where "default_max_keys = 1000000"
definition default_lru_enabled :: bool where "default_lru_enabled = True"
definition default_ttl_cleanup_interval :: u64 where "default_ttl_cleanup_interval = 60"
definition default_persist_path :: string where "default_persist_path = ''store.json''"
definition default_snapshot_interval_secs :: u64 where "default_snapshot_interval_secs = 0"
definition default_backup_versions :: nat where "default_backup_versions = 3"
definition default_enable_logging :: bool where "default_enable_logging = True"

lemmas config_default_defs = default_max_key_size_def default_max_value_size_def
  default_max_memory_def default_max_keys_def default_lru_enabled_def
  default_ttl_cleanup_interval_def default_persist_path_def default_snapshot_interval_secs_def
  default_backup_versions_def default_enable_logging_def

definition default_config :: store_config where
  "default_config =
     \<lparr> max_key_size = default_max_key_size,
       max_value_size = default_max_value_size,
       max_memory_bytes = default_max_memory,
       max_keys = default_max_keys,
       lru_eviction_enabled = default_lru_enabled,
       ttl_cleanup_interval_secs = default_ttl_cleanup_interval,
       persist_path = default_persist_path,
       snapshot_interval_secs = default_snapshot_interval_secs,
       backup_versions = default_backup_versions,
       enable_logging = default_enable_logging,
       keyspace_notifications_enabled = False \<rparr>"

definition validate_config :: "store_config \<Rightarrow> string + unit" where
  "validate_config c =
     (if max_key_size c = 0 then Inl ''max_key_size must be greater than 0''
      else if max_value_size c = 0 then Inl ''max_value_size must be greater than 0''
      else if max_key_size c > max_value_size c
        then Inl ''max_key_size cannot be larger than max_value_size''
      else if backup_versions c = 0 then Inl ''backup_versions must be at least 1''
      else Inr ())"

lemma validate_config_ok_iff:
  "validate_config c = Inr () \<longleftrightarrow>
     0 < max_key_size c \<and> max_key_size c \<le> max_value_size c \<and> 0 < backup_versions c"
  by (auto simp: validate_config_def)

text \<open>The defaults pass the validation, as the source's own test expects.\<close>

lemma default_config_valid: "validate_config default_config = Inr ()"
  by (simp add: validate_config_ok_iff default_config_def config_default_defs)

end
