(* ===== verification/Hyper_Log_Log.thy ===== *)
theory Hyper_Log_Log
  imports Kv_Error
begin

section \<open>HyperLogLog sketches (hyperloglog.rs)\<close>

text \<open>
  A sketch is a precision \<open>p\<close> and \<open>2^p\<close> registers. \<open>DefaultHasher\<close> is a parameter
  \<open>hash\<close>: its algorithm is documented as unspecified, and every property here holds for any
  function from strings to 64-bit words. Registers (\<open>u8\<close> in the code) are naturals; the
  invariant bounds them by 61, so the cast to \<open>u8\<close> loses nothing.

  The lemmas: the register index is always in range (the indexing never panics), every
  operation keeps the invariant, a sketch only grows, its registers depend on the set of added
  values alone, and \<open>merge\<close> is the least upper bound, so that merging two sketches is the sketch
  of the union of their inputs.
\<close>

unbundle bit_operations_syntax

datatype hyperloglog = Sketch (precision: nat) (registers: "nat list")

definition MIN_PRECISION :: nat where "MIN_PRECISION = 4"
definition MAX_PRECISION :: nat where "MAX_PRECISION = 16"
definition DEFAULT_PRECISION :: nat where "DEFAULT_PRECISION = 10"

lemmas precision_defs = MIN_PRECISION_def MAX_PRECISION_def DEFAULT_PRECISION_def

definition hll_new :: "nat \<Rightarrow> hyperloglog" where
  "hll_new p = (let p' = max MIN_PRECISION (min MAX_PRECISION p) in Sketch p' (replicate (2 ^ p') 0))"

definition hll_default :: hyperloglog where
  "hll_default = hll_new DEFAULT_PRECISION"

definition register_count :: "hyperloglog \<Rightarrow> nat" where
  "register_count h = length (registers h)"

definition hll_memory_bytes :: "hyperloglog \<Rightarrow> nat" where
  "hll_memory_bytes h = length (registers h)"

text \<open>\<open>u64::leading_zeros\<close>: the number of zero bits above the highest set bit.\<close>

definition leading_zeros :: "u64 \<Rightarrow> nat" where
  "leading_zeros w = length (takeWhile (\<lambda>i. \<not> bit w i) (rev [0..<64]))"

definition hll_index :: "nat \<Rightarrow> u64 \<Rightarrow> nat" where
  "hll_index p w = unat (drop_bit (64 - p) w)"

definition hll_rank :: "nat \<Rightarrow> u64 \<Rightarrow> nat" where
  "hll_rank p w = min (leading_zeros (push_bit p w) + 1) ((64 - p) + 1)"

definition hll_add :: "(string \<Rightarrow> u64) \<Rightarrow> string \<Rightarrow> hyperloglog \<Rightarrow> bool \<times> hyperloglog" where
  "hll_add hash v h =
     (let w = hash v;
          index = hll_index (precision h) w;
          rank = hll_rank (precision h) w
      in if rank > registers h ! index
         then (True, Sketch (precision h) ((registers h)[index := rank]))
         else (False, h))"

text \<open>The callers' loop \<open>for value in &values { hll.add(value); }\<close>.\<close>

definition hll_add_all :: "(string \<Rightarrow> u64) \<Rightarrow> string list \<Rightarrow> hyperloglog \<Rightarrow> hyperloglog" where
  "hll_add_all hash vs h = foldl (\<lambda>h v. snd (hll_add hash v h)) h vs"

text \<open>\<open>iter_mut().zip(...)\<close>: registers past the end of the other sketch stay as they are.\<close>

fun merge_registers :: "nat list \<Rightarrow> nat list \<Rightarrow> nat list" where
  "merge_registers (t # ts) (s # ss) = max t s # merge_registers ts ss"
| "merge_registers ts _ = ts"

definition hll_merge :: "hyperloglog \<Rightarrow> hyperloglog \<Rightarrow> hyperloglog result" where
  "hll_merge h other =
     (if precision h \<noteq> precision other
      then Inl (InvalidValue (''Cannot merge HyperLogLogs with different precisions: ''
             @ show_nat (precision h) @ '' vs '' @ show_nat (precision other)))
      else Inr (Sketch (precision h) (merge_registers (registers h) (registers other))))"

subsection \<open>The estimate\<close>

text \<open>
  \<open>count\<close> is an expression over \<open>f64\<close>. The arithmetic (the hardware's and the platform's \<open>ln\<close>,
  whose precision Rust leaves unspecified) is a record of operations; the expression is the
  code's, operation by operation.
\<close>

record 'f f64_arith =
  f_lit :: "string \<Rightarrow> 'f"
  f_of_nat :: "nat \<Rightarrow> 'f"
  f_add :: "'f \<Rightarrow> 'f \<Rightarrow> 'f"
  f_mul :: "'f \<Rightarrow> 'f \<Rightarrow> 'f"
  f_div :: "'f \<Rightarrow> 'f \<Rightarrow> 'f"
  f_le :: "'f \<Rightarrow> 'f \<Rightarrow> bool"
  f_less :: "'f \<Rightarrow> 'f \<Rightarrow> bool"
  f_max :: "'f \<Rightarrow> 'f \<Rightarrow> 'f"
  f_ln :: "'f \<Rightarrow> 'f"
  f_powi :: "'f \<Rightarrow> int \<Rightarrow> 'f"
  f_sum :: "'f list \<Rightarrow> 'f"
  f_round :: "'f \<Rightarrow> 'f"
  f_as_u64 :: "'f \<Rightarrow> u64"
  f_parse :: "string \<Rightarrow> 'f option"
  f_show :: "'f \<Rightarrow> string"

definition hll_alpha :: "'f f64_arith \<Rightarrow> nat \<Rightarrow> 'f" where
  "hll_alpha F n =
     (let m = f_of_nat F n
      in if n = 16 then f_lit F ''0.673''
         else if n = 32 then f_lit F ''0.697''
         else if n = 64 then f_lit F ''0.709''
         else f_div F (f_lit F ''0.7213'')
                (f_add F (f_lit F ''1.0'') (f_div F (f_lit F ''1.079'') m)))"

definition hll_count :: "'f f64_arith \<Rightarrow> hyperloglog \<Rightarrow> u64" where
  "hll_count F h =
     (let m = f_of_nat F (length (registers h));
          alpha = hll_alpha F (length (registers h));
          total = f_sum F (map (\<lambda>r. f_powi F (f_lit F ''2'') (- int r)) (registers h));
          raw_estimate = f_div F (f_mul F (f_mul F alpha m) m) total;
          zero_registers = f_of_nat F (length (filter (\<lambda>r. r = 0) (registers h)));
          estimate = (if f_le F raw_estimate (f_mul F (f_lit F ''2.5'') m)
                         \<and> f_less F (f_lit F ''0.0'') zero_registers
                      then f_mul F m (f_ln F (f_div F m zero_registers))
                      else raw_estimate)
      in f_as_u64 F (f_max F (f_round F estimate) (f_lit F ''0.0'')))"

subsection \<open>Invariant\<close>

definition hll_wf :: "hyperloglog \<Rightarrow> bool" where
  "hll_wf h \<longleftrightarrow> MIN_PRECISION \<le> precision h \<and> precision h \<le> MAX_PRECISION
     \<and> length (registers h) = 2 ^ precision h
     \<and> (\<forall>r \<in> set (registers h). r \<le> 64 - precision h + 1)"

lemma hll_index_less: "p \<le> 64 \<Longrightarrow> hll_index p w < 2 ^ p"
proof -
  assume p: "p \<le> 64"
  have "unat w < 2 ^ 64" using unsigned_less[of w] by simp
  also have "(2::nat) ^ 64 = 2 ^ p * 2 ^ (64 - p)" using p by (simp flip: power_add)
  finally have "unat w div 2 ^ (64 - p) < 2 ^ p" by (rule less_mult_imp_div_less)
  moreover have "unat (drop_bit (64 - p) w) = unat w div 2 ^ (64 - p)"
    by (subst unat_drop_bit_eq) (rule drop_bit_eq_div)
  ultimately show ?thesis by (simp add: hll_index_def)
qed

lemma hll_index_in_range: "hll_wf h \<Longrightarrow> hll_index (precision h) w < length (registers h)"
  using hll_index_less[of "precision h" w] by (simp add: hll_wf_def precision_defs)

lemma hll_rank_bounds: "1 \<le> hll_rank p w" "hll_rank p w \<le> 64 - p + 1"
  by (simp_all add: hll_rank_def)

lemma hll_rank_u8: "MIN_PRECISION \<le> p \<Longrightarrow> hll_rank p w \<le> 61"
  using hll_rank_bounds(2)[of p w] by (simp add: precision_defs)

lemma hll_wf_new[simp]: "hll_wf (hll_new p)"
  by (simp add: hll_wf_def hll_new_def Let_def precision_defs)

lemma hll_wf_default[simp]: "hll_wf hll_default"
  by (simp add: hll_default_def)

text \<open>Adding a value is a pointwise maximum at its register.\<close>

lemma hll_add_snd:
  "snd (hll_add hash v h) =
     Sketch (precision h)
       ((registers h)[hll_index (precision h) (hash v) :=
          max (registers h ! hll_index (precision h) (hash v)) (hll_rank (precision h) (hash v))])"
  by (cases h) (auto simp: hll_add_def Let_def max_def)

lemma hll_add_fst:
  "fst (hll_add hash v h) \<longleftrightarrow>
     registers h ! hll_index (precision h) (hash v) < hll_rank (precision h) (hash v)"
  by (simp add: hll_add_def Let_def)

lemma hll_add_precision[simp]: "precision (snd (hll_add hash v h)) = precision h"
  by (simp add: hll_add_snd)

lemma hll_wf_add: "hll_wf h \<Longrightarrow> hll_wf (snd (hll_add hash v h))"
  using hll_rank_bounds(2)[of "precision h" "hash v"] hll_index_in_range[of h "hash v"]
  by (auto simp: hll_add_snd hll_wf_def dest!: set_update_subset_insert [THEN subsetD])

interpretation hll_machine: machine "\<lambda>h v. snd (hll_add hash v h)" "\<lambda>_. True" hll_wf
  for hash
  by unfold_locales (simp add: hll_wf_add)

lemma hll_wf_add_all: "hll_wf h \<Longrightarrow> hll_wf (hll_add_all hash vs h)"
  unfolding hll_add_all_def by (rule hll_machine.run_inv) (simp_all add: list_all_iff)

lemma hll_add_all_precision[simp]: "precision (hll_add_all hash vs h) = precision h"
  unfolding hll_add_all_def by (induction vs arbitrary: h) simp_all

subsection \<open>The order of sketches\<close>

text \<open>Sketches of one precision are ordered register by register.\<close>

instantiation hyperloglog :: order
begin

definition less_eq_hyperloglog :: "hyperloglog \<Rightarrow> hyperloglog \<Rightarrow> bool" where
  "h \<le> k \<longleftrightarrow> precision h = precision k \<and> list_all2 (\<le>) (registers h) (registers k)"

definition less_hyperloglog :: "hyperloglog \<Rightarrow> hyperloglog \<Rightarrow> bool" where
  "h < k \<longleftrightarrow> h \<le> k \<and> \<not> k \<le> (h :: hyperloglog)"

instance
proof
  fix h k l :: hyperloglog
  show "h < k \<longleftrightarrow> h \<le> k \<and> \<not> k \<le> h" by (rule less_hyperloglog_def)
  show "h \<le> h" by (simp add: less_eq_hyperloglog_def list_all2_refl)
  show "h \<le> k \<Longrightarrow> k \<le> l \<Longrightarrow> h \<le> l"
    unfolding less_eq_hyperloglog_def
    by (auto elim: list_all2_trans [where ?P1.0 = "(\<le>)" and ?P2.0 = "(\<le>)", rotated])
  show "h \<le> k \<Longrightarrow> k \<le> h \<Longrightarrow> h = k"
    unfolding less_eq_hyperloglog_def
    by (cases h; cases k)
      (auto simp: list_all2_conv_all_nth intro!: nth_equalityI intro: order.antisym)
qed

end

lemma hll_le_nth:
  "h \<le> k \<longleftrightarrow> precision h = precision k \<and> length (registers h) = length (registers k)
     \<and> (\<forall>i < length (registers h). registers h ! i \<le> registers k ! i)"
  by (auto simp: less_eq_hyperloglog_def list_all2_conv_all_nth)

lemma hll_add_above: "hll_wf h \<Longrightarrow> h \<le> snd (hll_add hash v h)"
  by (auto simp: hll_le_nth hll_add_snd nth_list_update hll_index_in_range)

interpretation hll_growth: monotone_machine "\<lambda>h v. snd (hll_add hash v h)" "\<lambda>_. True" hll_wf "(\<le>)"
  for hash
  by unfold_locales (auto simp: hll_add_above hll_wf_add intro: order.trans)

lemma hll_add_all_above: "hll_wf h \<Longrightarrow> h \<le> hll_add_all hash vs h"
  unfolding hll_add_all_def by (rule hll_growth.run_above) (simp_all add: list_all_iff)

subsection \<open>Registers are maxima over the set of added values\<close>

lemma length_hll_add[simp]: "length (registers (snd (hll_add hash v h))) = length (registers h)"
  by (simp add: hll_add_snd)

lemma length_hll_add_all[simp]: "length (registers (hll_add_all hash vs h)) = length (registers h)"
  unfolding hll_add_all_def by (induction vs arbitrary: h) simp_all

definition ranks_at :: "(string \<Rightarrow> u64) \<Rightarrow> nat \<Rightarrow> nat \<Rightarrow> string set \<Rightarrow> nat set" where
  "ranks_at hash p i V = hll_rank p ` hash ` {v \<in> V. hll_index p (hash v) = i}"

lemma ranks_at_insert:
  "ranks_at hash p i (insert v V) =
     (if hll_index p (hash v) = i then insert (hll_rank p (hash v)) (ranks_at hash p i V) else ranks_at hash p i V)"
  by (auto simp: ranks_at_def)

lemma finite_ranks_at[simp]: "finite V \<Longrightarrow> finite (ranks_at hash p i V)"
  by (simp add: ranks_at_def)

lemma ranks_at_empty[simp]: "ranks_at hash p i {} = {}"
  by (simp add: ranks_at_def)

lemma ranks_at_Un: "ranks_at hash p i (V \<union> W) = ranks_at hash p i V \<union> ranks_at hash p i W"
  by (auto simp: ranks_at_def)

lemma nth_hll_add_all:
  "i < length (registers h) \<Longrightarrow>
   registers (hll_add_all hash vs h) ! i =
     Max (insert (registers h ! i) (ranks_at hash (precision h) i (set vs)))"
proof (induction vs arbitrary: h)
  case Nil
  then show ?case by (simp add: hll_add_all_def)
next
  case (Cons v vs)
  let ?H = "ranks_at hash (precision h) i (set vs)"
  have step: "hll_add_all hash (v # vs) h = hll_add_all hash vs (snd (hll_add hash v h))"
    by (simp add: hll_add_all_def)
  have "registers (hll_add_all hash (v # vs) h) ! i
      = Max (insert (registers (snd (hll_add hash v h)) ! i) ?H)"
    using Cons.IH[of "snd (hll_add hash v h)"] Cons.prems by (simp add: step)
  also have "\<dots> = Max (insert (registers h ! i) (ranks_at hash (precision h) i (set (v # vs))))"
  proof (cases "hll_index (precision h) (hash v) = i")
    case True
    have "Max (insert (max a r) H) = Max (insert a (insert r H))" if "finite H" for a r :: nat and H
      using that by (cases "H = {}") (simp_all add: max.assoc)
    with True Cons.prems show ?thesis by (simp add: hll_add_snd ranks_at_insert)
  next
    case False
    then show ?thesis by (simp add: hll_add_snd ranks_at_insert)
  qed
  finally show ?case .
qed

lemma hll_eqI:
  "precision h = precision k \<Longrightarrow> length (registers h) = length (registers k) \<Longrightarrow>
   (\<And>i. i < length (registers h) \<Longrightarrow> registers h ! i = registers k ! i) \<Longrightarrow> h = k"
  by (cases h; cases k) (auto intro: nth_equalityI)

lemma hll_add_all_set:
  "set vs = set ws \<Longrightarrow> hll_add_all hash vs h = hll_add_all hash ws h"
  by (rule hll_eqI) (simp_all add: nth_hll_add_all)

subsection \<open>Merging\<close>

lemma length_merge_registers[simp]: "length (merge_registers ts ss) = length ts"
  by (induction ts ss rule: merge_registers.induct) simp_all

lemma nth_merge_registers:
  "i < length ts \<Longrightarrow> length ts = length ss \<Longrightarrow> merge_registers ts ss ! i = max (ts ! i) (ss ! i)"
  by (induction ts ss arbitrary: i rule: merge_registers.induct) (auto simp: nth_Cons split: nat.splits)

lemma hll_merge_ok: "is_ok (hll_merge h k) \<longleftrightarrow> precision h = precision k"
  by (simp add: hll_merge_def)

lemma hll_mergeD:
  "hll_merge h k = Inr m \<Longrightarrow> precision h = precision k \<and> m = Sketch (precision h) (merge_registers (registers h) (registers k))"
  by (auto simp: hll_merge_def split: if_splits)

lemma hll_wf_merge: "hll_wf h \<Longrightarrow> hll_wf k \<Longrightarrow> hll_merge h k = Inr m \<Longrightarrow> hll_wf m"
  by (drule hll_mergeD) (auto simp: hll_wf_def all_set_conv_all_nth nth_merge_registers)

lemma hll_merge_lub:
  assumes "hll_wf h" "hll_wf k" and m: "hll_merge h k = Inr m"
  shows "h \<le> m" and "k \<le> m" and "h \<le> u \<Longrightarrow> k \<le> u \<Longrightarrow> m \<le> u"
  using hll_mergeD[OF m] assms(1,2) by (auto simp: hll_le_nth nth_merge_registers hll_wf_def)

lemma hll_merge_union:
  "hll_merge (hll_add_all hash vs (hll_new p)) (hll_add_all hash ws (hll_new p))
     = Inr (hll_add_all hash (vs @ ws) (hll_new p))"
proof -
  let ?h = "hll_new p"
  have "merge_registers (registers (hll_add_all hash vs ?h)) (registers (hll_add_all hash ws ?h)) ! i
      = registers (hll_add_all hash (vs @ ws) ?h) ! i" if i: "i < length (registers ?h)" for i
  proof -
    have "max (Max (insert a V)) (Max (insert a W)) = Max (insert a (V \<union> W))"
      if "finite V" "finite W" for a :: nat and V W
      using Max_Un[of "insert a V" "insert a W"] that by simp
    with i show ?thesis by (simp add: nth_merge_registers nth_hll_add_all ranks_at_Un)
  qed
  then show ?thesis
    by (auto simp: hll_merge_def intro!: hll_eqI)
qed

subsection \<open>Properties\<close>

text \<open>\<open>add\<close> never indexes out of range and never truncates: for a sketch the code can build and
  any hash value, the register index is below the number of registers, the rank is between 1 and
  61, so that \<open>as u8\<close> is exact, and the sketch stays well formed.\<close>

theorem hll_add_in_bounds:
  assumes "hll_wf h"
  shows "hll_index (precision h) w < length (registers h)
     \<and> 1 \<le> hll_rank (precision h) w \<and> hll_rank (precision h) w \<le> 61
     \<and> hll_wf (snd (hll_add hash v h)) \<and> (fst (hll_add hash v h) \<longleftrightarrow> h < snd (hll_add hash v h))"
proof -
  have "fst (hll_add hash v h) \<longleftrightarrow> \<not> snd (hll_add hash v h) \<le> h"
    using hll_index_in_range[OF assms, of "hash v"]
    by (auto simp: hll_add_fst hll_le_nth hll_add_snd nth_list_update)
  moreover have "MIN_PRECISION \<le> precision h" using assms by (simp add: hll_wf_def)
  ultimately show ?thesis
    using hll_add_above[OF assms, of hash v] hll_index_in_range[OF assms, of w] hll_wf_add[OF assms]
      hll_rank_bounds(1)[of "precision h" w] hll_rank_u8[of "precision h" w]
    by (simp add: less_hyperloglog_def del: One_nat_def)
qed

theorem hll_add_in_bounds_witness:
  "\<forall>w. hll_index 4 w < 16 \<and> hll_rank 4 w \<le> 61"
proof -
  have "hll_index 4 w < 16 \<and> hll_rank 4 w \<le> 61" for w :: "u64"
    using hll_add_in_bounds[OF hll_wf_new[of 4], of w]
    by (simp add: hll_new_def Let_def precision_defs)
  then show ?thesis by blast
qed

text \<open>A merge is the sketch of the union: merging the sketches of two streams of values over one
  precision gives the sketch of the concatenated stream, and sketches of different precisions are
  refused.\<close>

theorem hll_merge_is_union:
  "hll_merge (hll_add_all hash vs (hll_new p)) (hll_add_all hash ws (hll_new p))
     = Inr (hll_add_all hash (vs @ ws) (hll_new p))
   \<and> (is_ok (hll_merge h k) \<longleftrightarrow> precision h = precision k)"
  using hll_merge_union hll_merge_ok by blast

end
