(* ===== verification/Kv_Value.thy ===== *)
theory Kv_Value
  imports Kv_Error Store_Config Hyper_Log_Log
begin

section \<open>Values and the store's state (kv_store.rs)\<close>

text \<open>
  \<open>Value\<close>, \<open>ValueWithTTL\<close>, the statistics, keyspace events, queued transaction operations and
  the \<open>KvStore\<close> struct. Two payloads are kept as what the code observes of them: a
  \<open>serde_json::Value\<close> is the text its \<open>Display\<close> prints, and an \<open>f64\<close> is its 64 bits. Counters and
  byte counts (\<open>u64\<close>, \<open>usize\<close>) are naturals: each grows by one, or by the size of a value in
  memory, per operation. Time is a parameter \<open>now\<close>: an operation reads the clock once.
\<close>

datatype kv_value =
    VStr string
  | VInt i64
  | VFloat u64
  | VBool bool
  | VJson string
  | VHyperLogLog hyperloglog
  | VList "string list"
  | VHash "(string, string) hmap"

fun type_name :: "kv_value \<Rightarrow> string" where
  "type_name (VStr _) = ''Str''"
| "type_name (VInt _) = ''Int''"
| "type_name (VFloat _) = ''Float''"
| "type_name (VBool _) = ''Bool''"
| "type_name (VJson _) = ''Json''"
| "type_name (VHyperLogLog _) = ''HyperLogLog''"
| "type_name (VList _) = ''List''"
| "type_name (VHash _) = ''Hash''"

text \<open>
  \<open>Display\<close>: the text of a float and the estimate of a sketch are parameters (float formatting
  and the \<open>f64\<close> estimate); the character before the count is U+2248 in UTF-8.
\<close>

definition approx_sign :: string where
  "approx_sign = [char_of (226 :: nat), char_of (137 :: nat), char_of (136 :: nat)]"

fun show_value :: "(u64 \<Rightarrow> string) \<Rightarrow> (hyperloglog \<Rightarrow> u64) \<Rightarrow> kv_value \<Rightarrow> string" where
  "show_value fl cnt (VStr s) = s"
| "show_value fl cnt (VInt i) = show_i64 i"
| "show_value fl cnt (VFloat x) = fl x"
| "show_value fl cnt (VBool b) = (if b then ''true'' else ''false'')"
| "show_value fl cnt (VJson j) = j"
| "show_value fl cnt (VHyperLogLog h) = ''HyperLogLog(count'' @ approx_sign @ show_u64 (cnt h) @ '')''"
| "show_value fl cnt (VList items) = ''List(len='' @ show_nat (length items) @ '')''"
| "show_value fl cnt (VHash m) = ''Hash(len='' @ show_nat (length m) @ '')''"

fun estimate_value_size :: "kv_value \<Rightarrow> nat" where
  "estimate_value_size (VStr s) = length s"
| "estimate_value_size (VInt _) = 8"
| "estimate_value_size (VFloat _) = 8"
| "estimate_value_size (VBool _) = 1"
| "estimate_value_size (VJson j) = length j"
| "estimate_value_size (VHyperLogLog h) = hll_memory_bytes h"
| "estimate_value_size (VList items) = sum_list (map length items) + 24"
| "estimate_value_size (VHash m) = sum_list (map (\<lambda>(k, v). length k + length v) m) + 48"

record value_with_ttl =
  entry_value :: kv_value
  expires_at :: "u64 option"

record store_stats =
  total_keys :: nat
  expired_keys :: nat
  total_reads :: nat
  total_writes :: nat
  total_deletes :: nat
  hits :: nat
  misses :: nat
  memory_bytes :: nat
  evictions :: nat

definition default_stats :: store_stats where
  "default_stats = \<lparr> total_keys = 0, expired_keys = 0, total_reads = 0, total_writes = 0,
     total_deletes = 0, hits = 0, misses = 0, memory_bytes = 0, evictions = 0 \<rparr>"

datatype transaction_op =
    TSet string kv_value "u64 option"
  | TDelete string
  | TIncr string
  | TDecr string
  | TIncrBy string i64
  | TAppend string string

datatype keyspace_event_kind = EvSet | EvDelete | EvExpired | EvEvicted

fun show_event_kind :: "keyspace_event_kind \<Rightarrow> string" where
  "show_event_kind EvSet = ''set''"
| "show_event_kind EvDelete = ''del''"
| "show_event_kind EvExpired = ''expired''"
| "show_event_kind EvEvicted = ''evicted''"

record keyspace_event =
  event_kind :: keyspace_event_kind
  event_key :: string
  event_timestamp :: u64

record kv_store =
  store :: "(string, value_with_ttl) hmap"
  stats :: store_stats
  config :: store_config
  lru_order :: "string list"
  transaction_queue :: "transaction_op list option"
  pending_keyspace_events :: "keyspace_event list"

definition with_config :: "store_config \<Rightarrow> kv_store" where
  "with_config c = \<lparr> store = [], stats = default_stats, config = c, lru_order = [],
     transaction_queue = None, pending_keyspace_events = [] \<rparr>"

definition kv_new :: kv_store where
  "kv_new = with_config default_config"

subsection \<open>The invariant\<close>

text \<open>
  What every operation keeps: the map has one entry per key and no empty key; the LRU list has
  no duplicates and contains every stored key (so eviction can always reach it); stored and
  queued values are well formed, and a queued operation that can create an entry names a non-empty key.
\<close>

fun value_wf :: "kv_value \<Rightarrow> bool" where
  "value_wf (VHyperLogLog h) = hll_wf h"
| "value_wf (VHash m) = hm_wf m"
| "value_wf _ = True"

fun op_wf :: "transaction_op \<Rightarrow> bool" where
  "op_wf (TSet k v _) = (k \<noteq> [] \<and> value_wf v)"
| "op_wf (TDelete k) = True"
| "op_wf (TIncr k) = (k \<noteq> [])"
| "op_wf (TDecr k) = (k \<noteq> [])"
| "op_wf (TIncrBy k _) = (k \<noteq> [])"
| "op_wf (TAppend k _) = (k \<noteq> [])"

definition parts_inv :: "(string, value_with_ttl) hmap \<Rightarrow> string list \<Rightarrow> transaction_op list option \<Rightarrow> bool" where
  "parts_inv st lru q \<longleftrightarrow>
     hm_wf st \<and> [] \<notin> fst ` set st \<and> distinct lru \<and> fst ` set st \<subseteq> set lru
     \<and> (\<forall>(k, e) \<in> set st. value_wf (entry_value e))
     \<and> (\<forall>ops. q = Some ops \<longrightarrow> list_all op_wf ops)"

definition kv_inv :: "kv_store \<Rightarrow> bool" where
  "kv_inv s \<longleftrightarrow> parts_inv (store s) (lru_order s) (transaction_queue s)"

definition touch :: "string \<Rightarrow> string list \<Rightarrow> string list" where
  "touch key lru = filter (\<lambda>k. k \<noteq> key) lru @ [key]"

lemma set_touch[simp]: "set (touch key lru) = insert key (set lru)"
  by (auto simp: touch_def)

lemma distinct_touch[simp]: "distinct lru \<Longrightarrow> distinct (touch key lru)"
  by (auto simp: touch_def)

lemma parts_inv_put[inv_intros]:
  "parts_inv st lru q \<Longrightarrow> key \<noteq> [] \<Longrightarrow> value_wf (entry_value e) \<Longrightarrow>
   parts_inv (hm_insert key e st) (touch key lru) q"
  using set_hm_insert_subset[of key e st] by (auto simp: parts_inv_def)

lemma parts_inv_put_present:
  "parts_inv st lru q \<Longrightarrow> hm_get st key = Some e0 \<Longrightarrow> value_wf (entry_value e) \<Longrightarrow>
   parts_inv (hm_insert key e st) lru q"
  using set_hm_insert_subset[of key e st]
  by (auto simp: parts_inv_def dest!: map_of_SomeD) (metis fst_conv imageI)+

lemma parts_inv_touch[inv_intros]: "parts_inv st lru q \<Longrightarrow> parts_inv st (touch key lru) q"
  by (auto simp: parts_inv_def)

lemma parts_inv_remove[inv_intros]: "parts_inv st lru q \<Longrightarrow> parts_inv (hm_remove key st) lru q"
  by (auto simp: parts_inv_def set_hm_remove)

lemma parts_inv_evict:
  "parts_inv st (key # lru) q \<Longrightarrow> parts_inv (hm_remove key st) lru q"
  by (auto simp: parts_inv_def set_hm_remove)

lemma parts_inv_queue[inv_intros]:
  "parts_inv st lru (Some ops) \<Longrightarrow> op_wf op \<Longrightarrow> parts_inv st lru (Some (ops @ [op]))"
  by (auto simp: parts_inv_def)

lemma parts_inv_no_queue[inv_intros]: "parts_inv st lru q \<Longrightarrow> parts_inv st lru None"
  by (auto simp: parts_inv_def)

lemma parts_inv_empty_queue[inv_intros]: "parts_inv st lru q \<Longrightarrow> parts_inv st lru (Some [])"
  by (auto simp: parts_inv_def)

lemma parts_inv_key: "parts_inv st lru q \<Longrightarrow> hm_get st key = Some e \<Longrightarrow> key \<noteq> []"
  by (auto simp: parts_inv_def dest!: map_of_SomeD) (metis fst_conv imageI)

lemma parts_inv_value: "parts_inv st lru q \<Longrightarrow> hm_get st key = Some e \<Longrightarrow> value_wf (entry_value e)"
  by (auto simp: parts_inv_def dest!: map_of_SomeD)

lemma parts_inv_lru: "parts_inv st [] q \<Longrightarrow> st = []"
  by (auto simp: parts_inv_def)

lemma kv_inv_new: "kv_inv (with_config c)"
  by (simp add: kv_inv_def with_config_def parts_inv_def)

end
