(* ===== verification/Kv_Core.thy ===== *)
theory Kv_Core
  imports Kv_Value
begin

section \<open>Core operations of the store (kv_store.rs)\<close>

text \<open>
  Validation, keyspace events, LRU order and eviction, \<open>set\<close>, \<open>get\<close>, \<open>delete\<close>, batch
  operations, TTLs and expiry, in the code's order of checks. An operation takes the clock
  reading \<open>now\<close> (seconds) where the code reads the clock, and returns its result with the new
  store; \<open>?\<close> is the \<open>Inl\<close> branch.
\<close>

subsection \<open>Validation and transactions in progress\<close>

definition validate_key :: "kv_store \<Rightarrow> string \<Rightarrow> unit result" where
  "validate_key s key =
     (if key = [] then Inl (InvalidKey ''Key cannot be empty'')
      else if length key > max_key_size (config s)
        then Inl (KeyTooLarge (length key) (max_key_size (config s)))
      else Inr ())"

definition validate_value :: "kv_store \<Rightarrow> kv_value \<Rightarrow> unit result" where
  "validate_value s v =
     (if estimate_value_size v > max_value_size (config s)
      then Inl (ValueTooLarge (estimate_value_size v) (max_value_size (config s)))
      else Inr ())"

definition in_transaction :: "kv_store \<Rightarrow> bool" where
  "in_transaction s = (transaction_queue s \<noteq> None)"

definition queue_operation :: "kv_store \<Rightarrow> transaction_op \<Rightarrow> unit result \<times> kv_store" where
  "queue_operation s op =
     (case transaction_queue s of
        Some queue \<Rightarrow> (Inr (), s\<lparr>transaction_queue := Some (queue @ [op])\<rparr>)
      | None \<Rightarrow> (Inl (OperationFailed ''No transaction in progress''), s))"

subsection \<open>Keyspace events and LRU order\<close>

definition emit_keyspace_event :: "u64 \<Rightarrow> keyspace_event_kind \<Rightarrow> string \<Rightarrow> kv_store \<Rightarrow> kv_store" where
  "emit_keyspace_event now kind key s =
     (if \<not> keyspace_notifications_enabled (config s) then s
      else s\<lparr>pending_keyspace_events := pending_keyspace_events s
               @ [\<lparr>event_kind = kind, event_key = key, event_timestamp = now\<rparr>]\<rparr>)"

definition drain_keyspace_events :: "kv_store \<Rightarrow> keyspace_event list \<times> kv_store" where
  "drain_keyspace_events s = (pending_keyspace_events s, s\<lparr>pending_keyspace_events := []\<rparr>)"

definition set_keyspace_notifications_enabled :: "bool \<Rightarrow> kv_store \<Rightarrow> kv_store" where
  "set_keyspace_notifications_enabled b s =
     s\<lparr>config := (config s)\<lparr>keyspace_notifications_enabled := b\<rparr>\<rparr>"

definition set_config :: "store_config \<Rightarrow> kv_store \<Rightarrow> kv_store" where
  "set_config c s = s\<lparr>config := c\<rparr>"

definition update_lru :: "string \<Rightarrow> kv_store \<Rightarrow> kv_store" where
  "update_lru key s = s\<lparr>lru_order := touch key (lru_order s)\<rparr>"

text \<open>One round of the eviction loop: drop the entry of the least recently used key.\<close>

definition evict_key :: "u64 \<Rightarrow> string \<Rightarrow> kv_store \<Rightarrow> kv_store" where
  "evict_key now key s =
     (case hm_get (store s) key of
        Some e \<Rightarrow>
          emit_keyspace_event now EvEvicted key
            (s\<lparr>store := hm_remove key (store s),
               stats := (stats s)
                 \<lparr>memory_bytes := memory_bytes (stats s) - estimate_value_size (entry_value e),
                  evictions := evictions (stats s) + 1,
                  total_keys := length (hm_remove key (store s))\<rparr>\<rparr>)
      | None \<Rightarrow> s)"

lemma evict_key_lru[simp]: "lru_order (evict_key now key s) = lru_order s"
  by (simp add: evict_key_def emit_keyspace_event_def split: option.splits)

text \<open>The \<open>while\<close> loop: it ends because every round removes the head of the LRU list.\<close>

function evict_loop :: "u64 \<Rightarrow> kv_store \<Rightarrow> kv_store" where
  "evict_loop now s =
     (if memory_bytes (stats s) > max_memory_bytes (config s)
      then (case lru_order s of
              lru_key # rest \<Rightarrow> evict_loop now ((evict_key now lru_key s)\<lparr>lru_order := rest\<rparr>)
            | [] \<Rightarrow> s)
      else s)"
  by pat_completeness auto
termination
  by (relation "measure (\<lambda>(now, s). length (lru_order s))") auto

declare evict_loop.simps [simp del]

definition enforce_memory_limit :: "u64 \<Rightarrow> kv_store \<Rightarrow> kv_store" where
  "enforce_memory_limit now s = (if max_memory_bytes (config s) = 0 then s else evict_loop now s)"

subsection \<open>Writing and reading a key\<close>

text \<open>The tail that \<open>set\<close> and \<open>set_with_ttl\<close> share outside a transaction.\<close>

definition store_entry :: "u64 \<Rightarrow> string \<Rightarrow> kv_value \<Rightarrow> u64 option \<Rightarrow> kv_store \<Rightarrow> kv_store" where
  "store_entry now key v expires s =
     (let value_size = estimate_value_size v;
          s1 = s\<lparr>store := hm_insert key \<lparr>entry_value = v, expires_at = expires\<rparr> (store s)\<rparr>;
          s2 = update_lru key s1;
          s3 = s2\<lparr>stats := (stats s2)
                 \<lparr>total_writes := total_writes (stats s2) + 1,
                  total_keys := length (store s2),
                  memory_bytes := memory_bytes (stats s2) + value_size\<rparr>\<rparr>;
          s4 = (if max_memory_bytes (config s3) > 0 \<and> lru_eviction_enabled (config s3)
                then enforce_memory_limit now s3 else s3)
      in emit_keyspace_event now EvSet key s4)"

definition kv_set_with_ttl :: "u64 \<Rightarrow> kv_store \<Rightarrow> string \<Rightarrow> kv_value \<Rightarrow> u64 \<Rightarrow> unit result \<times> kv_store" where
  "kv_set_with_ttl now s key v ttl =
     (case validate_key s key of Inl e \<Rightarrow> (Inl e, s) | Inr _ \<Rightarrow>
      case validate_value s v of Inl e \<Rightarrow> (Inl e, s) | Inr _ \<Rightarrow>
      let expires = checked_add_u64 now ttl in
      if in_transaction s then queue_operation s (TSet key v expires)
      else (Inr (), store_entry now key v expires s))"

definition kv_set :: "u64 \<Rightarrow> kv_store \<Rightarrow> string \<Rightarrow> kv_value \<Rightarrow> unit result \<times> kv_store" where
  "kv_set now s key v =
     (case validate_key s key of Inl e \<Rightarrow> (Inl e, s) | Inr _ \<Rightarrow>
      case validate_value s v of Inl e \<Rightarrow> (Inl e, s) | Inr _ \<Rightarrow>
      if in_transaction s then queue_operation s (TSet key v None)
      else (Inr (), store_entry now key v None s))"

definition live_value :: "u64 \<Rightarrow> value_with_ttl \<Rightarrow> kv_value option" where
  "live_value now e =
     (case expires_at e of
        Some exp \<Rightarrow> if now > exp then None else Some (entry_value e)
      | None \<Rightarrow> Some (entry_value e))"

definition kv_get :: "u64 \<Rightarrow> kv_store \<Rightarrow> string \<Rightarrow> kv_value option" where
  "kv_get now s key = Option.bind (hm_get (store s) key) (live_value now)"

definition get_string :: "u64 \<Rightarrow> kv_store \<Rightarrow> string \<Rightarrow> string option" where
  "get_string now s key = (case kv_get now s key of Some (VStr t) \<Rightarrow> Some t | _ \<Rightarrow> None)"

definition get_i64 :: "u64 \<Rightarrow> kv_store \<Rightarrow> string \<Rightarrow> i64 option" where
  "get_i64 now s key = (case kv_get now s key of Some (VInt i) \<Rightarrow> Some i | _ \<Rightarrow> None)"

definition get_f64 :: "u64 \<Rightarrow> kv_store \<Rightarrow> string \<Rightarrow> u64 option" where
  "get_f64 now s key = (case kv_get now s key of Some (VFloat x) \<Rightarrow> Some x | _ \<Rightarrow> None)"

definition get_bool :: "u64 \<Rightarrow> kv_store \<Rightarrow> string \<Rightarrow> bool option" where
  "get_bool now s key = (case kv_get now s key of Some (VBool b) \<Rightarrow> Some b | _ \<Rightarrow> None)"

definition kv_delete :: "u64 \<Rightarrow> kv_store \<Rightarrow> string \<Rightarrow> kv_value option \<times> kv_store" where
  "kv_delete now s key =
     (if in_transaction s
      then (map_option entry_value (hm_get (store s) key), snd (queue_operation s (TDelete key)))
      else (case hm_get (store s) key of
              Some e \<Rightarrow>
                (Some (entry_value e),
                 emit_keyspace_event now EvDelete key
                   (s\<lparr>store := hm_remove key (store s),
                      stats := (stats s)\<lparr>total_deletes := total_deletes (stats s) + 1\<rparr>\<rparr>))
            | None \<Rightarrow> (None, s)))"

subsection \<open>Atomic operations\<close>

definition set_value :: "string \<Rightarrow> value_with_ttl \<Rightarrow> kv_value \<Rightarrow> kv_store \<Rightarrow> kv_store" where
  "set_value key e v s = s\<lparr>store := hm_insert key (e\<lparr>entry_value := v\<rparr>) (store s)\<rparr>"

definition count_write :: "kv_store \<Rightarrow> kv_store" where
  "count_write s = s\<lparr>stats := (stats s)\<lparr>total_writes := total_writes (stats s) + 1\<rparr>\<rparr>"

definition kv_incr :: "kv_store \<Rightarrow> string \<Rightarrow> i64 result \<times> kv_store" where
  "kv_incr s key =
     (case hm_get (store s) key of
        Some e \<Rightarrow>
          (case entry_value e of
             VInt val \<Rightarrow>
               (Inr (val + 1), update_lru key (count_write (set_value key e (VInt (val + 1)) s)))
           | other \<Rightarrow> (Inl (type_mismatch key ''Int'' (type_name other)), s))
      | None \<Rightarrow> (Inl (KeyNotFound key), s))"

definition kv_decr :: "kv_store \<Rightarrow> string \<Rightarrow> i64 result \<times> kv_store" where
  "kv_decr s key =
     (case hm_get (store s) key of
        Some e \<Rightarrow>
          (case entry_value e of
             VInt val \<Rightarrow>
               (Inr (val - 1), update_lru key (count_write (set_value key e (VInt (val - 1)) s)))
           | other \<Rightarrow> (Inl (type_mismatch key ''Int'' (type_name other)), s))
      | None \<Rightarrow> (Inl (KeyNotFound key), s))"

definition kv_incrby :: "kv_store \<Rightarrow> string \<Rightarrow> i64 \<Rightarrow> i64 result \<times> kv_store" where
  "kv_incrby s key amount =
     (case hm_get (store s) key of
        Some e \<Rightarrow>
          (case entry_value e of
             VInt val \<Rightarrow>
               (Inr (val + amount),
                update_lru key (count_write (set_value key e (VInt (val + amount)) s)))
           | other \<Rightarrow> (Inl (type_mismatch key ''Int'' (type_name other)), s))
      | None \<Rightarrow> (Inl (KeyNotFound key), s))"

definition kv_append :: "u64 \<Rightarrow> kv_store \<Rightarrow> string \<Rightarrow> string \<Rightarrow> nat result \<times> kv_store" where
  "kv_append now s key v =
     (case hm_get (store s) key of
        Some e \<Rightarrow>
          (case entry_value e of
             VStr t \<Rightarrow>
               (Inr (length (t @ v)),
                update_lru key (count_write (set_value key e (VStr (t @ v)) s)))
           | other \<Rightarrow> (Inl (type_mismatch key ''Str'' (type_name other)), s))
      | None \<Rightarrow>
          (case kv_set now s key (VStr v) of
             (Inl err, s') \<Rightarrow> (Inl err, s')
           | (Inr _, s') \<Rightarrow> (Inr (length v), s')))"

definition kv_getset :: "u64 \<Rightarrow> kv_store \<Rightarrow> string \<Rightarrow> kv_value \<Rightarrow> kv_value option result \<times> kv_store" where
  "kv_getset now s key v =
     (let old_value = map_option entry_value (hm_get (store s) key) in
      case kv_set now s key v of
        (Inl err, s') \<Rightarrow> (Inl err, s')
      | (Inr _, s') \<Rightarrow> (Inr old_value, s'))"

subsection \<open>Batch operations\<close>

definition kv_mget :: "u64 \<Rightarrow> kv_store \<Rightarrow> string list \<Rightarrow> kv_value option list" where
  "kv_mget now s keys = map (kv_get now s) keys"

fun mset_queue :: "kv_store \<Rightarrow> (string \<times> string) list \<Rightarrow> unit result \<times> kv_store" where
  "mset_queue s [] = (Inr (), s)"
| "mset_queue s ((key, v) # pairs) =
     (case validate_key s key of Inl e \<Rightarrow> (Inl e, s) | Inr _ \<Rightarrow>
      case validate_value s (VStr v) of Inl e \<Rightarrow> (Inl e, s) | Inr _ \<Rightarrow>
      case queue_operation s (TSet key (VStr v) None) of
        (Inl e, s') \<Rightarrow> (Inl e, s')
      | (Inr _, s') \<Rightarrow> mset_queue s' pairs)"

fun mset_now :: "u64 \<Rightarrow> kv_store \<Rightarrow> (string \<times> string) list \<Rightarrow> unit result \<times> kv_store" where
  "mset_now now s [] = (Inr (), s)"
| "mset_now now s ((key, v) # pairs) =
     (case kv_set now s key (VStr v) of
        (Inl e, s') \<Rightarrow> (Inl e, s')
      | (Inr _, s') \<Rightarrow> mset_now now s' pairs)"

definition kv_mset :: "u64 \<Rightarrow> kv_store \<Rightarrow> (string \<times> string) list \<Rightarrow> unit result \<times> kv_store" where
  "kv_mset now s pairs = (if in_transaction s then mset_queue s pairs else mset_now now s pairs)"

definition kv_exists :: "u64 \<Rightarrow> kv_store \<Rightarrow> string \<Rightarrow> bool" where
  "kv_exists now s key = (kv_get now s key \<noteq> None)"

definition exists_many :: "u64 \<Rightarrow> kv_store \<Rightarrow> string list \<Rightarrow> nat" where
  "exists_many now s keys = length (filter (kv_exists now s) keys)"

subsection \<open>Expiry\<close>

definition kv_expire :: "u64 \<Rightarrow> kv_store \<Rightarrow> string \<Rightarrow> u64 \<Rightarrow> bool \<times> kv_store" where
  "kv_expire now s key ttl =
     (case hm_get (store s) key of
        None \<Rightarrow> (False, s)
      | Some e \<Rightarrow>
          if (case expires_at e of Some exp \<Rightarrow> now > exp | None \<Rightarrow> False) then (False, s)
          else (True, emit_keyspace_event now EvSet key
                  (s\<lparr>store := hm_insert key (e\<lparr>expires_at := checked_add_u64 now ttl\<rparr>) (store s)\<rparr>)))"

definition kv_persist :: "u64 \<Rightarrow> kv_store \<Rightarrow> string \<Rightarrow> bool \<times> kv_store" where
  "kv_persist now s key =
     (case hm_get (store s) key of
        None \<Rightarrow> (False, s)
      | Some e \<Rightarrow>
          if expires_at e = None then (False, s)
          else (True, emit_keyspace_event now EvSet key
                  (s\<lparr>store := hm_insert key (e\<lparr>expires_at := None\<rparr>) (store s)\<rparr>)))"

definition ttl_seconds :: "u64 \<Rightarrow> kv_store \<Rightarrow> string \<Rightarrow> i64" where
  "ttl_seconds now s key =
     (case hm_get (store s) key of
        None \<Rightarrow> -2
      | Some e \<Rightarrow>
          (case expires_at e of
             None \<Rightarrow> -1
           | Some exp \<Rightarrow> if now > exp then -2 else min (exp - now) (word_of_int i64_MAX)))"

definition pttl_millis :: "u64 \<Rightarrow> kv_store \<Rightarrow> string \<Rightarrow> i64" where
  "pttl_millis now s key =
     (let ttl_secs = ttl_seconds now s key in
      if sint ttl_secs < 0 then ttl_secs else saturating_mul_i64 ttl_secs 1000)"

definition due :: "u64 \<Rightarrow> value_with_ttl \<Rightarrow> bool" where
  "due now e = (case expires_at e of Some exp \<Rightarrow> now \<ge> exp | None \<Rightarrow> False)"

definition expire_key :: "u64 \<Rightarrow> string \<Rightarrow> kv_store \<Rightarrow> kv_store" where
  "expire_key now key s =
     emit_keyspace_event now EvExpired key (s\<lparr>store := hm_remove key (store s)\<rparr>)"

definition cleanup_expired :: "u64 \<Rightarrow> kv_store \<Rightarrow> nat \<times> kv_store" where
  "cleanup_expired now s =
     (let expired = map fst (filter (\<lambda>(k, e). due now e) (store s));
          s' = fold (expire_key now) expired s
      in (length expired,
          s'\<lparr>stats := (stats s')\<lparr>expired_keys := expired_keys (stats s') + length expired\<rparr>\<rparr>))"

subsection \<open>Whole-store reads and statistics\<close>

definition kv_iter :: "u64 \<Rightarrow> kv_store \<Rightarrow> (string \<times> kv_value) list" where
  "kv_iter now s =
     List.map_filter (\<lambda>(k, e). map_option (\<lambda>v. (k, v)) (live_value now e)) (store s)"

definition kv_len :: "kv_store \<Rightarrow> nat" where "kv_len s = length (store s)"
definition kv_is_empty :: "kv_store \<Rightarrow> bool" where "kv_is_empty s = (store s = [])"

definition reset_stats :: "kv_store \<Rightarrow> kv_store" where
  "reset_stats s = s\<lparr>stats := default_stats\<rparr>"

end
