(* ===== verification/Kv_Core_Props.thy ===== *)
theory Kv_Core_Props
  imports Kv_Core
begin

section \<open>Correctness of the core operations\<close>

text \<open>
  Frame lemmas of the helpers, the eviction loop (what it removes, when it stops, the bound it
  establishes), preservation of \<open>kv_inv\<close> by every core operation, and the view of the store as
  a map: \<open>kv_get now s\<close> is the abstraction that \<open>set\<close> and \<open>delete\<close> update pointwise.
\<close>

subsection \<open>Frames\<close>

lemma emit_frame[simp]:
  "store (emit_keyspace_event now kind key s) = store s"
  "stats (emit_keyspace_event now kind key s) = stats s"
  "config (emit_keyspace_event now kind key s) = config s"
  "lru_order (emit_keyspace_event now kind key s) = lru_order s"
  "transaction_queue (emit_keyspace_event now kind key s) = transaction_queue s"
  by (simp_all add: emit_keyspace_event_def)

lemma emit_events:
  "pending_keyspace_events (emit_keyspace_event now kind key s) =
     (if keyspace_notifications_enabled (config s)
      then pending_keyspace_events s @ [\<lparr>event_kind = kind, event_key = key, event_timestamp = now\<rparr>]
      else pending_keyspace_events s)"
  by (simp add: emit_keyspace_event_def)

lemma kv_inv_frame[simp]:
  "kv_inv (s\<lparr>stats := st\<rparr>) = kv_inv s"
  "kv_inv (s\<lparr>config := c\<rparr>) = kv_inv s"
  "kv_inv (s\<lparr>pending_keyspace_events := es\<rparr>) = kv_inv s"
  "kv_inv (emit_keyspace_event now kind key s) = kv_inv s"
  "kv_inv (count_write s) = kv_inv s"
  by (simp_all add: kv_inv_def count_write_def)

lemma update_lru_frame[simp]:
  "store (update_lru key s) = store s" "stats (update_lru key s) = stats s"
  "config (update_lru key s) = config s"
  "lru_order (update_lru key s) = touch key (lru_order s)"
  "transaction_queue (update_lru key s) = transaction_queue s"
  by (simp_all add: update_lru_def)

lemma count_write_frame[simp]:
  "store (count_write s) = store s" "config (count_write s) = config s"
  "lru_order (count_write s) = lru_order s"
  "transaction_queue (count_write s) = transaction_queue s"
  by (simp_all add: count_write_def)

lemma set_value_frame[simp]:
  "store (set_value key e v s) = hm_insert key (e\<lparr>entry_value := v\<rparr>) (store s)"
  "config (set_value key e v s) = config s" "lru_order (set_value key e v s) = lru_order s"
  "transaction_queue (set_value key e v s) = transaction_queue s"
  by (simp_all add: set_value_def)

lemma queue_operation_frame[simp]:
  "store (snd (queue_operation s op)) = store s" "stats (snd (queue_operation s op)) = stats s"
  "config (snd (queue_operation s op)) = config s"
  "lru_order (snd (queue_operation s op)) = lru_order s"
  by (simp_all add: queue_operation_def split: option.splits)

lemma validate_key_ok: "validate_key s key = Inr u \<Longrightarrow> key \<noteq> []"
  by (auto simp: validate_key_def split: if_splits)

lemma validate_key_ok_iff:
  "validate_key s key = Inr () \<longleftrightarrow> key \<noteq> [] \<and> length key \<le> max_key_size (config s)"
  by (auto simp: validate_key_def)

lemma validate_value_ok_iff:
  "validate_value s v = Inr () \<longleftrightarrow> estimate_value_size v \<le> max_value_size (config s)"
  by (auto simp: validate_value_def)

subsection \<open>The eviction loop\<close>

lemma evict_key_frame[simp]:
  "config (evict_key now key s) = config s"
  "transaction_queue (evict_key now key s) = transaction_queue s"
  "store (evict_key now key s) = hm_remove key (store s)"
  by (auto simp: evict_key_def hm_get_None split: option.splits)

lemma evict_loop_frame[simp]:
  "config (evict_loop now s) = config s"
  "transaction_queue (evict_loop now s) = transaction_queue s"
  by (induction now s rule: evict_loop.induct)
     (subst evict_loop.simps, simp split: list.splits)+

text \<open>
  The loop removes the entries of a prefix of the LRU list, in that order, and nothing else; it
  stops under the limit or with nothing left to evict.
\<close>

lemma evict_loop_removes:
  "\<exists>n. lru_order (evict_loop now s) = drop n (lru_order s)
     \<and> store (evict_loop now s) = filter (\<lambda>(k, e). k \<notin> set (take n (lru_order s))) (store s)"
proof (induction now s rule: evict_loop.induct)
  case (1 now s)
  show ?case
  proof (cases "memory_bytes (stats s) > max_memory_bytes (config s) \<and> lru_order s \<noteq> []")
    case False
    then have "evict_loop now s = s"
      by (subst evict_loop.simps) (auto split: list.splits)
    then show ?thesis by (intro exI[of _ 0]) simp
  next
    case True
    then obtain key rest where l: "lru_order s = key # rest" by (cases "lru_order s") auto
    let ?t = "(evict_key now key s)\<lparr>lru_order := rest\<rparr>"
    have step: "evict_loop now s = evict_loop now ?t"
      using True l by (subst evict_loop.simps) simp
    from True l 1 obtain n where
      "lru_order (evict_loop now ?t) = drop n rest"
      "store (evict_loop now ?t) = filter (\<lambda>(k, e). k \<notin> set (take n rest)) (hm_remove key (store s))"
      by auto
    with l show ?thesis
      by (intro exI[of _ "Suc n"])
         (auto simp: step AList.delete_eq intro!: filter_cong)
  qed
qed

lemma evict_loop_stops:
  "memory_bytes (stats (evict_loop now s)) \<le> max_memory_bytes (config s)
     \<or> lru_order (evict_loop now s) = []"
proof (induction now s rule: evict_loop.induct)
  case (1 now s)
  then show ?case
    by (subst (1 2) evict_loop.simps) (auto split: list.splits)
qed

lemma evict_loop_under: "memory_bytes (stats s) \<le> max_memory_bytes (config s) \<Longrightarrow> evict_loop now s = s"
  by (subst evict_loop.simps) simp

lemma evict_loop_inv: "kv_inv s \<Longrightarrow> kv_inv (evict_loop now s)"
proof (induction now s rule: evict_loop.induct)
  case (1 now s)
  have "kv_inv ((evict_key now key s)\<lparr>lru_order := rest\<rparr>)" if "lru_order s = key # rest" for key rest
    using 1(2) that by (auto simp: kv_inv_def intro: parts_inv_evict)
  with 1 show ?case by (subst evict_loop.simps) (auto split: list.splits)
qed

lemma enforce_memory_limit_inv: "kv_inv s \<Longrightarrow> kv_inv (enforce_memory_limit now s)"
  by (simp add: enforce_memory_limit_def evict_loop_inv)

lemma enforce_memory_limit_frame[simp]:
  "config (enforce_memory_limit now s) = config s"
  "transaction_queue (enforce_memory_limit now s) = transaction_queue s"
  by (simp_all add: enforce_memory_limit_def)

subsection \<open>Preservation of the invariant\<close>

lemma queue_operation_inv: "kv_inv s \<Longrightarrow> op_wf op \<Longrightarrow> kv_inv (snd (queue_operation s op))"
  by (auto simp: queue_operation_def kv_inv_def intro: parts_inv_queue split: option.splits)

lemma put_inv:
  "kv_inv s \<Longrightarrow> key \<noteq> [] \<Longrightarrow> value_wf (entry_value e) \<Longrightarrow>
   kv_inv (update_lru key (s\<lparr>store := hm_insert key e (store s)\<rparr>))"
  by (simp add: kv_inv_def update_lru_def parts_inv_put)

lemma store_entry_inv:
  "kv_inv s \<Longrightarrow> key \<noteq> [] \<Longrightarrow> value_wf v \<Longrightarrow> kv_inv (store_entry now key v expires s)"
  using put_inv[of s key "\<lparr>entry_value = v, expires_at = expires\<rparr>"]
  by (simp add: store_entry_def Let_def enforce_memory_limit_inv)

lemma kv_set_inv: "kv_inv s \<Longrightarrow> value_wf v \<Longrightarrow> kv_inv (snd (kv_set now s key v))"
  by (auto simp: kv_set_def intro!: queue_operation_inv store_entry_inv
      dest: validate_key_ok split: sum.splits)

lemma kv_set_with_ttl_inv: "kv_inv s \<Longrightarrow> value_wf v \<Longrightarrow> kv_inv (snd (kv_set_with_ttl now s key v ttl))"
  by (auto simp: kv_set_with_ttl_def Let_def intro!: queue_operation_inv store_entry_inv
      dest: validate_key_ok split: sum.splits)

lemma kv_delete_inv: "kv_inv s \<Longrightarrow> kv_inv (snd (kv_delete now s key))"
  by (auto simp: kv_delete_def intro!: queue_operation_inv split: option.splits)
     (simp add: kv_inv_def parts_inv_remove)

lemma present_inv:
  "kv_inv s \<Longrightarrow> hm_get (store s) key = Some e \<Longrightarrow> value_wf (entry_value e') \<Longrightarrow>
   kv_inv (s\<lparr>store := hm_insert key e' (store s)\<rparr>)"
  by (simp add: kv_inv_def parts_inv_put_present)

lemma update_lru_inv: "kv_inv s \<Longrightarrow> kv_inv (update_lru key s)"
  by (simp add: kv_inv_def update_lru_def parts_inv_touch)

lemma set_value_inv:
  "kv_inv s \<Longrightarrow> hm_get (store s) key = Some e \<Longrightarrow> value_wf v \<Longrightarrow> kv_inv (set_value key e v s)"
  by (simp add: set_value_def present_inv)

text \<open>The shape of every in-place rewrite: new payload, one write counted, key touched.\<close>

lemma rewrite_inv:
  "kv_inv s \<Longrightarrow> hm_get (store s) key = Some e \<Longrightarrow> value_wf v \<Longrightarrow>
   kv_inv (update_lru key (count_write (set_value key e v s)))"
  by (simp add: update_lru_inv set_value_inv)

lemma kv_incr_inv: "kv_inv s \<Longrightarrow> kv_inv (snd (kv_incr s key))"
  by (auto simp: kv_incr_def intro!: rewrite_inv split: option.splits kv_value.splits)

lemma kv_decr_inv: "kv_inv s \<Longrightarrow> kv_inv (snd (kv_decr s key))"
  by (auto simp: kv_decr_def intro!: rewrite_inv split: option.splits kv_value.splits)

lemma kv_incrby_inv: "kv_inv s \<Longrightarrow> kv_inv (snd (kv_incrby s key amount))"
  by (auto simp: kv_incrby_def intro!: rewrite_inv split: option.splits kv_value.splits)

lemma snd_case_result:
  "P (snd r) \<Longrightarrow> P (snd (case r of (Inl e, s') \<Rightarrow> (Inl (f e), s') | (Inr x, s') \<Rightarrow> (g x, s')))"
  by (auto split: prod.splits sum.splits)

lemma kv_append_inv: "kv_inv s \<Longrightarrow> kv_inv (snd (kv_append now s key v))"
  using kv_set_inv[of s "VStr v" now key]
  by (auto simp: kv_append_def intro!: rewrite_inv
      split: option.splits kv_value.splits prod.splits sum.splits)

lemma kv_getset_inv: "kv_inv s \<Longrightarrow> value_wf v \<Longrightarrow> kv_inv (snd (kv_getset now s key v))"
  using kv_set_inv[of s v now key] by (auto simp: kv_getset_def Let_def split: prod.splits sum.splits)

lemma mset_queue_inv: "kv_inv s \<Longrightarrow> kv_inv (snd (mset_queue s pairs))"
proof (induction s pairs rule: mset_queue.induct)
  case (2 s key v pairs)
  have "kv_inv (snd (queue_operation s (TSet key (VStr v) None)))" if "validate_key s key = Inr ()"
    using 2(2) validate_key_ok[OF that] by (intro queue_operation_inv) simp_all
  with 2 show ?case by (auto split: sum.splits prod.splits)
qed simp

lemma mset_now_inv: "kv_inv s \<Longrightarrow> kv_inv (snd (mset_now now s pairs))"
proof (induction now s pairs rule: mset_now.induct)
  case (2 now s key v pairs)
  have "kv_inv (snd (kv_set now s key (VStr v)))" by (rule kv_set_inv[OF 2(2)]) simp
  with 2 show ?case by (auto split: sum.splits prod.splits)
qed simp

lemma kv_mset_inv: "kv_inv s \<Longrightarrow> kv_inv (snd (kv_mset now s pairs))"
  by (simp add: kv_mset_def mset_queue_inv mset_now_inv)

lemma kv_expire_inv: "kv_inv s \<Longrightarrow> kv_inv (snd (kv_expire now s key ttl))"
  by (auto simp: kv_expire_def intro!: present_inv split: option.splits)
     (auto simp: kv_inv_def dest: parts_inv_value)

lemma kv_persist_inv: "kv_inv s \<Longrightarrow> kv_inv (snd (kv_persist now s key))"
  by (auto simp: kv_persist_def intro!: present_inv split: option.splits)
     (auto simp: kv_inv_def dest: parts_inv_value)

lemma expire_key_inv: "kv_inv s \<Longrightarrow> kv_inv (expire_key now key s)"
  by (simp add: expire_key_def kv_inv_def parts_inv_remove)

lemma fold_expire_inv: "kv_inv s \<Longrightarrow> kv_inv (fold (expire_key now) keys s)"
  by (induction keys arbitrary: s) (auto intro: expire_key_inv)

lemma cleanup_expired_inv: "kv_inv s \<Longrightarrow> kv_inv (snd (cleanup_expired now s))"
  by (simp add: cleanup_expired_def Let_def fold_expire_inv)

lemma drain_inv: "kv_inv s \<Longrightarrow> kv_inv (snd (drain_keyspace_events s))"
  by (simp add: drain_keyspace_events_def)

subsection \<open>The store as a map\<close>

text \<open>
  \<open>kv_get now s\<close> is the finite map the store presents at time \<open>now\<close>. When the write stays within
  the memory limit (or no limit applies) \<open>set\<close> and \<open>set_with_ttl\<close> are one-point updates of it.
\<close>

definition fits :: "kv_store \<Rightarrow> kv_value \<Rightarrow> bool" where
  "fits s v \<longleftrightarrow> max_memory_bytes (config s) = 0 \<or> \<not> lru_eviction_enabled (config s)
     \<or> memory_bytes (stats s) + estimate_value_size v \<le> max_memory_bytes (config s)"

definition accepts :: "kv_store \<Rightarrow> string \<Rightarrow> kv_value \<Rightarrow> bool" where
  "accepts s key v \<longleftrightarrow> validate_key s key = Inr () \<and> validate_value s v = Inr () \<and> \<not> in_transaction s"

lemma kv_set_accepts:
  "accepts s key v \<Longrightarrow> kv_set now s key v = (Inr (), store_entry now key v None s)"
  by (simp add: accepts_def kv_set_def)

lemma kv_set_with_ttl_accepts:
  "accepts s key v \<Longrightarrow>
   kv_set_with_ttl now s key v ttl = (Inr (), store_entry now key v (checked_add_u64 now ttl) s)"
  by (simp add: accepts_def kv_set_with_ttl_def Let_def)

lemma store_entry_fits:
  "fits s v \<Longrightarrow> store (store_entry now key v expires s)
     = hm_insert key \<lparr>entry_value = v, expires_at = expires\<rparr> (store s)"
  by (auto simp: fits_def store_entry_def Let_def enforce_memory_limit_def evict_loop_under)

lemma kv_get_put:
  "store t = hm_insert key e (store s) \<Longrightarrow> kv_get now t = (kv_get now s)(key := live_value now e)"
  by (auto simp: kv_get_def)

lemma kv_get_remove:
  "store t = hm_remove key (store s) \<Longrightarrow> kv_get now t = (kv_get now s)(key := None)"
  by (auto simp: kv_get_def)

lemma kv_get_set:
  "accepts s key v \<Longrightarrow> fits s v \<Longrightarrow>
   kv_get now' (snd (kv_set now s key v)) = (kv_get now' s)(key \<mapsto> v)"
  by (simp add: kv_set_accepts kv_get_put[OF store_entry_fits] live_value_def)

lemma kv_get_set_with_ttl:
  "accepts s key v \<Longrightarrow> fits s v \<Longrightarrow>
   kv_get now' (snd (kv_set_with_ttl now s key v ttl)) =
     (kv_get now' s)(key := live_value now' \<lparr>entry_value = v, expires_at = checked_add_u64 now ttl\<rparr>)"
  by (simp add: kv_set_with_ttl_accepts kv_get_put[OF store_entry_fits])

lemma kv_get_delete:
  "\<not> in_transaction s \<Longrightarrow> kv_get now' (snd (kv_delete now s key)) = (kv_get now' s)(key := None)"
proof (cases "hm_get (store s) key")
  case None
  then show ?thesis by (auto simp: kv_delete_def kv_get_def in_transaction_def)
next
  case (Some e)
  moreover assume "\<not> in_transaction s"
  ultimately show ?thesis
    by (intro kv_get_remove) (simp add: kv_delete_def)
qed

lemma live_value_later:
  "live_value t2 e = Some v \<Longrightarrow> t1 \<le> t2 \<Longrightarrow> live_value t1 e = Some v"
  by (auto simp: live_value_def split: option.splits if_splits)

text \<open>A key once invisible stays invisible: time alone never brings a value back.\<close>

lemma kv_get_later: "kv_get t2 s key = Some v \<Longrightarrow> t1 \<le> t2 \<Longrightarrow> kv_get t1 s key = Some v"
  by (auto simp: kv_get_def bind_eq_Some_conv intro: live_value_later)

subsection \<open>The memory bound\<close>

lemma store_entry_config[simp]: "config (store_entry now key v expires s) = config s"
  by (simp add: store_entry_def Let_def)

lemma store_entry_bound:
  assumes "kv_inv s" "key \<noteq> []" "value_wf v"
    and lim: "0 < max_memory_bytes (config s)" "lru_eviction_enabled (config s)"
  shows "memory_bytes (stats (store_entry now key v expires s)) \<le> max_memory_bytes (config s)
     \<or> store (store_entry now key v expires s) = []"
proof -
  let ?s' = "store_entry now key v expires s"
  have inv: "kv_inv ?s'" using assms(1-3) by (rule store_entry_inv)
  let ?t = "update_lru key (s\<lparr>store := hm_insert key \<lparr>entry_value = v, expires_at = expires\<rparr> (store s)\<rparr>)"
  let ?u = "?t\<lparr>stats := (stats ?t)\<lparr>total_writes := total_writes (stats ?t) + 1,
      total_keys := length (store ?t), memory_bytes := memory_bytes (stats ?t) + estimate_value_size v\<rparr>\<rparr>"
  have eq: "?s' = emit_keyspace_event now EvSet key (evict_loop now ?u)"
    using lim by (simp add: store_entry_def Let_def enforce_memory_limit_def)
  have "memory_bytes (stats ?s') \<le> max_memory_bytes (config s) \<or> lru_order ?s' = []"
    unfolding eq using evict_loop_stops[of now ?u] by (simp only: emit_frame) simp
  with inv show ?thesis by (auto simp: kv_inv_def dest: parts_inv_lru)
qed

subsection \<open>Cleanup of expired keys\<close>

lemma fold_expire_key:
  "store (fold (expire_key now) keys s) = fold hm_remove keys (store s)"
  "lru_order (fold (expire_key now) keys s) = lru_order s"
  "config (fold (expire_key now) keys s) = config s"
  "stats (fold (expire_key now) keys s) = stats s"
  "transaction_queue (fold (expire_key now) keys s) = transaction_queue s"
  by (induction keys arbitrary: s) (simp_all add: expire_key_def)

lemma fold_hm_remove: "fold hm_remove keys m = filter (\<lambda>(k, v). k \<notin> set keys) m"
  by (induction keys arbitrary: m) (auto simp: AList.delete_eq intro!: filter_cong)

lemma cleanup_store:
  assumes "hm_wf (store s)"
  shows "store (snd (cleanup_expired now s)) = filter (\<lambda>(k, e). \<not> due now e) (store s)"
proof -
  let ?ks = "map fst (filter (\<lambda>(k, e). due now e) (store s))"
  have "k \<in> set ?ks \<longleftrightarrow> due now e" if "(k, e) \<in> set (store s)" for k e
    using assms that by (force simp: distinct_map inj_on_def)
  then have "filter (\<lambda>(k, v). k \<notin> set ?ks) (store s) = filter (\<lambda>(k, e). \<not> due now e) (store s)"
    by (intro filter_cong) auto
  then show ?thesis by (simp add: cleanup_expired_def Let_def fold_expire_key fold_hm_remove)
qed

end
