(* ===== verification/Kv_Lists.thy ===== *)
theory Kv_Lists
  imports Kv_Core_Props
begin

section \<open>List operations (kv_store.rs)\<close>

text \<open>
  \<open>lpush\<close>, \<open>rpush\<close>, \<open>lpop\<close>, \<open>rpop\<close>, \<open>lrange\<close> and \<open>llen\<close> with their type errors. Writers look the
  key up without its expiry, readers go through \<open>get\<close>, as in the code. The interface of a
  double-ended queue is the locale \<open>deque\<close>, interpreted on the list payload.
\<close>

text \<open>The branch shared by the operations that create a missing key.\<close>

definition create_entry :: "string \<Rightarrow> kv_value \<Rightarrow> kv_store \<Rightarrow> kv_store" where
  "create_entry key v s =
     (let st = hm_insert key \<lparr>entry_value = v, expires_at = None\<rparr> (store s)
      in s\<lparr>store := st,
           stats := (stats s)\<lparr>total_writes := total_writes (stats s) + 1,
              total_keys := length st,
              memory_bytes := memory_bytes (stats s) + estimate_value_size v\<rparr>\<rparr>)"

text \<open>\<open>for v in values { list.insert(0, v); }\<close> and \<open>list.extend(values)\<close>.\<close>

definition push_front_all :: "string list \<Rightarrow> string list \<Rightarrow> string list" where
  "push_front_all values xs = fold (\<lambda>v l. v # l) values xs"

definition push_back_all :: "string list \<Rightarrow> string list \<Rightarrow> string list" where
  "push_back_all values xs = xs @ values"

definition kv_lpush :: "kv_store \<Rightarrow> string \<Rightarrow> string list \<Rightarrow> nat result \<times> kv_store" where
  "kv_lpush s key values =
     (case validate_key s key of Inl e \<Rightarrow> (Inl e, s) | Inr _ \<Rightarrow>
      case hm_get (store s) key of
        Some e \<Rightarrow>
          (case entry_value e of
             VList xs \<Rightarrow>
               (let xs' = push_front_all values xs in
                (Inr (length xs'), update_lru key (count_write (set_value key e (VList xs') s))))
           | other \<Rightarrow> (Inl (type_mismatch key ''List'' (type_name other)), s))
      | None \<Rightarrow>
          (let xs = push_front_all values [] in
           (Inr (length xs), update_lru key (create_entry key (VList xs) s))))"

definition kv_rpush :: "kv_store \<Rightarrow> string \<Rightarrow> string list \<Rightarrow> nat result \<times> kv_store" where
  "kv_rpush s key values =
     (case validate_key s key of Inl e \<Rightarrow> (Inl e, s) | Inr _ \<Rightarrow>
      case hm_get (store s) key of
        Some e \<Rightarrow>
          (case entry_value e of
             VList xs \<Rightarrow>
               (let xs' = push_back_all values xs in
                (Inr (length xs'), update_lru key (count_write (set_value key e (VList xs') s))))
           | other \<Rightarrow> (Inl (type_mismatch key ''List'' (type_name other)), s))
      | None \<Rightarrow> (Inr (length values), update_lru key (create_entry key (VList values) s)))"

definition kv_lpop :: "kv_store \<Rightarrow> string \<Rightarrow> string option result \<times> kv_store" where
  "kv_lpop s key =
     (case hm_get (store s) key of
        Some e \<Rightarrow>
          (case entry_value e of
             VList xs \<Rightarrow>
               (case xs of
                  [] \<Rightarrow> (Inr None, s)
                | x # rest \<Rightarrow>
                    (Inr (Some x), update_lru key (count_write (set_value key e (VList rest) s))))
           | other \<Rightarrow> (Inl (type_mismatch key ''List'' (type_name other)), s))
      | None \<Rightarrow> (Inr None, s))"

definition kv_rpop :: "kv_store \<Rightarrow> string \<Rightarrow> string option result \<times> kv_store" where
  "kv_rpop s key =
     (case hm_get (store s) key of
        Some e \<Rightarrow>
          (case entry_value e of
             VList xs \<Rightarrow>
               (if xs = [] then (Inr None, s)
                else (Inr (Some (last xs)),
                      update_lru key (count_write (set_value key e (VList (butlast xs)) s))))
           | other \<Rightarrow> (Inl (type_mismatch key ''List'' (type_name other)), s))
      | None \<Rightarrow> (Inr None, s))"

text \<open>
  The index arithmetic of \<open>lrange\<close>. A list is shorter than \<open>2^63\<close>, so \<open>list.len() as i64\<close> is exact
  and \<open>len + start\<close> does not overflow for a negative \<open>start\<close>; \<open>as usize\<close> of a negative number
  (only \<open>len - 1 = -1\<close> for the empty list) is \<open>2^64 - 1\<close>. The slice \<open>list[start..=stop]\<close> panics
  out of range: \<open>None\<close>.
\<close>

definition as_usize :: "int \<Rightarrow> nat" where
  "as_usize i = nat (i mod 2 ^ 64)"

definition slice_inclusive :: "'a list \<Rightarrow> nat \<Rightarrow> nat \<Rightarrow> 'a list option" where
  "slice_inclusive xs start stop =
     (if start \<le> stop + 1 \<and> stop < length xs then Some (take (stop + 1 - start) (drop start xs)) else None)"

definition lrange_slice :: "string list \<Rightarrow> i64 \<Rightarrow> i64 \<Rightarrow> string list option" where
  "lrange_slice xs start0 stop0 =
     (let len = int (length xs);
          start = (if sint start0 < 0 then as_usize (max (len + sint start0) 0)
                   else as_usize (min (sint start0) len));
          stop = (if sint stop0 < 0 then as_usize (max (len + sint stop0) 0)
                  else as_usize (min (sint stop0) (len - 1)))
      in if start > stop \<or> start \<ge> length xs then Some []
         else slice_inclusive xs start stop)"

text \<open>\<open>None\<close> is the panic.\<close>

definition kv_lrange :: "u64 \<Rightarrow> kv_store \<Rightarrow> string \<Rightarrow> i64 \<Rightarrow> i64 \<Rightarrow> string list result option" where
  "kv_lrange now s key start stop =
     (case kv_get now s key of
        Some (VList xs) \<Rightarrow> map_option Inr (lrange_slice xs start stop)
      | Some other \<Rightarrow> Some (Inl (type_mismatch key ''List'' (type_name other)))
      | None \<Rightarrow> Some (Inr []))"

definition kv_llen :: "u64 \<Rightarrow> kv_store \<Rightarrow> string \<Rightarrow> nat result" where
  "kv_llen now s key =
     (case kv_get now s key of
        Some (VList xs) \<Rightarrow> Inr (length xs)
      | Some other \<Rightarrow> Inl (type_mismatch key ''List'' (type_name other))
      | None \<Rightarrow> Inr 0)"

subsection \<open>The invariant\<close>

lemma create_entry_frame[simp]:
  "store (create_entry key v s) = hm_insert key \<lparr>entry_value = v, expires_at = None\<rparr> (store s)"
  "config (create_entry key v s) = config s" "lru_order (create_entry key v s) = lru_order s"
  "transaction_queue (create_entry key v s) = transaction_queue s"
  by (simp_all add: create_entry_def Let_def)

lemma create_entry_inv:
  "kv_inv s \<Longrightarrow> key \<noteq> [] \<Longrightarrow> value_wf v \<Longrightarrow> kv_inv (update_lru key (create_entry key v s))"
  by (simp add: kv_inv_def parts_inv_put)

lemma kv_lpush_inv: "kv_inv s \<Longrightarrow> kv_inv (snd (kv_lpush s key values))"
  by (auto simp: kv_lpush_def Let_def intro!: create_entry_inv rewrite_inv
      dest: validate_key_ok split: sum.splits option.splits kv_value.splits)

lemma kv_rpush_inv: "kv_inv s \<Longrightarrow> kv_inv (snd (kv_rpush s key values))"
  by (auto simp: kv_rpush_def Let_def intro!: create_entry_inv rewrite_inv
      dest: validate_key_ok split: sum.splits option.splits kv_value.splits)

lemma kv_lpop_inv: "kv_inv s \<Longrightarrow> kv_inv (snd (kv_lpop s key))"
  by (auto simp: kv_lpop_def intro!: rewrite_inv
      split: option.splits kv_value.splits list.splits)

lemma kv_rpop_inv: "kv_inv s \<Longrightarrow> kv_inv (snd (kv_rpop s key))"
  by (auto simp: kv_rpop_def intro!: rewrite_inv
      split: option.splits kv_value.splits)

subsection \<open>The list as a deque\<close>

lemma push_front_all_eq: "push_front_all vs xs = rev vs @ xs"
  unfolding push_front_all_def by (induction vs arbitrary: xs) simp_all

text \<open>The list a key holds, ignoring expiry as the writers do; a missing key is the empty list.\<close>

definition list_at :: "kv_store \<Rightarrow> string \<Rightarrow> string list option" where
  "list_at s key =
     (case hm_get (store s) key of
        None \<Rightarrow> Some []
      | Some e \<Rightarrow> (case entry_value e of VList xs \<Rightarrow> Some xs | _ \<Rightarrow> None))"

text \<open>
  The contract of a deque over an abstract list: what the four operations return and leave, and
  that they fail together where the key holds something else.
\<close>

locale deque =
  fixes view :: "'s \<Rightarrow> 'x list option"
    and adm :: "'s \<Rightarrow> bool"
    and lpush :: "'s \<Rightarrow> 'x list \<Rightarrow> nat result \<times> 's"
    and rpush :: "'s \<Rightarrow> 'x list \<Rightarrow> nat result \<times> 's"
    and lpop :: "'s \<Rightarrow> 'x option result \<times> 's"
    and rpop :: "'s \<Rightarrow> 'x option result \<times> 's"
  assumes view_lpush: "adm s \<Longrightarrow> view s = Some xs \<Longrightarrow>
      fst (lpush s vs) = Inr (length vs + length xs) \<and> view (snd (lpush s vs)) = Some (rev vs @ xs)"
    and view_rpush: "adm s \<Longrightarrow> view s = Some xs \<Longrightarrow>
      fst (rpush s vs) = Inr (length vs + length xs) \<and> view (snd (rpush s vs)) = Some (xs @ vs)"
    and view_lpop: "view s = Some xs \<Longrightarrow>
      fst (lpop s) = Inr (case xs of [] \<Rightarrow> None | x # _ \<Rightarrow> Some x) \<and> view (snd (lpop s)) = Some (tl xs)"
    and view_rpop: "view s = Some xs \<Longrightarrow>
      fst (rpop s) = Inr (if xs = [] then None else Some (last xs)) \<and> view (snd (rpop s)) = Some (butlast xs)"
    and adm_lpush: "adm s \<Longrightarrow> adm (snd (lpush s vs))"
    and adm_rpush: "adm s \<Longrightarrow> adm (snd (rpush s vs))"
    and adm_lpop: "adm s \<Longrightarrow> adm (snd (lpop s))"
    and adm_rpop: "adm s \<Longrightarrow> adm (snd (rpop s))"
begin

lemma queue_order:
  assumes "adm s" "view s = Some []"
  shows "fst (lpop (snd (rpush s (x # xs)))) = Inr (Some x)"
  using view_lpop[of "snd (rpush s (x # xs))" "x # xs"] view_rpush[OF assms, of "x # xs"] by simp

lemma stack_order:
  assumes "adm s" "view s = Some xs"
  shows "fst (lpop (snd (lpush s (vs @ [v])))) = Inr (Some v)"
    and "view (snd (lpop (snd (lpush s [v])))) = view s"
  using view_lpop[of "snd (lpush s (vs @ [v]))" "v # rev vs @ xs"]
    view_lpop[of "snd (lpush s [v])" "v # xs"]
    view_lpush[OF assms, of "vs @ [v]"] view_lpush[OF assms, of "[v]"] assms(2)
  by simp_all

lemma push_pop_ends:
  assumes "adm s" "view s = Some xs"
  shows "view (snd (rpop (snd (rpush s [v])))) = view s"
    and "fst (rpop (snd (rpush s (vs @ [v])))) = Inr (Some v)"
  using view_rpop[of "snd (rpush s (vs @ [v]))" "xs @ vs @ [v]"]
    view_rpop[of "snd (rpush s [v])" "xs @ [v]"]
    view_rpush[OF assms, of "vs @ [v]"] view_rpush[OF assms, of "[v]"] assms(2)
  by simp_all

text \<open>Draining from the left returns the elements in order.\<close>

fun drain :: "nat \<Rightarrow> 's \<Rightarrow> 'x option result list \<times> 's" where
  "drain 0 s = ([], s)"
| "drain (Suc n) s =
     (let (r, s1) = lpop s; (rs, s2) = drain n s1 in (r # rs, s2))"

lemma drain_view:
  "view s = Some xs \<Longrightarrow> n \<le> length xs \<Longrightarrow>
   fst (drain n s) = map (\<lambda>x. Inr (Some x)) (take n xs) \<and> view (snd (drain n s)) = Some (drop n xs)"
proof (induction n arbitrary: s xs)
  case (Suc n)
  then obtain y ys where xs: "xs = y # ys" by (cases xs) auto
  obtain r s1 where l: "lpop s = (r, s1)" by fastforce
  from view_lpop[OF Suc.prems(1)] l xs have r: "r = Inr (Some y)" "view s1 = Some ys" by simp_all
  obtain rs s2 where d: "drain n s1 = (rs, s2)" by fastforce
  from Suc.IH[OF r(2)] Suc.prems xs d
  have "rs = map (\<lambda>x. Inr (Some x)) (take n ys)" "view s2 = Some (drop n ys)" by simp_all
  with xs r l d show ?case by simp
qed simp

end

lemma list_at_set_value[simp]:
  "list_at (update_lru key (count_write (set_value key e (VList xs) s))) key = Some xs"
  by (simp add: list_at_def)

lemma list_at_create[simp]:
  "list_at (update_lru key (create_entry key (VList xs) s)) key = Some xs"
  by (simp add: list_at_def)

lemma validate_key_cong: "config s = config t \<Longrightarrow> validate_key s key = validate_key t key"
  by (simp add: validate_key_def)

lemma list_config[simp]:
  "config (snd (kv_lpush s key vs)) = config s" "config (snd (kv_rpush s key vs)) = config s"
  "config (snd (kv_lpop s key)) = config s" "config (snd (kv_rpop s key)) = config s"
  by (auto simp: kv_lpush_def kv_rpush_def kv_lpop_def kv_rpop_def Let_def
      split: sum.splits option.splits kv_value.splits list.splits)

interpretation kl: deque "\<lambda>s. list_at s key" "\<lambda>s. validate_key s key = Inr ()"
    "\<lambda>s. kv_lpush s key" "\<lambda>s. kv_rpush s key" "\<lambda>s. kv_lpop s key" "\<lambda>s. kv_rpop s key"
  for key
proof (unfold_locales, goal_cases)
  case (1 s xs vs)
  then show ?case
    by (auto simp: kv_lpush_def list_at_def[of s] Let_def push_front_all_eq
        split: option.splits kv_value.splits)
next
  case (2 s xs vs)
  then show ?case
    by (auto simp: kv_rpush_def list_at_def[of s] Let_def push_back_all_def
        split: option.splits kv_value.splits)
next
  case (3 s xs)
  then show ?case
    by (auto simp: kv_lpop_def list_at_def[of s] split: option.splits kv_value.splits list.splits)
next
  case (4 s xs)
  then show ?case
    by (auto simp: kv_rpop_def list_at_def[of s] split: option.splits kv_value.splits)
qed (simp_all add: validate_key_cong[OF list_config(1)] validate_key_cong[OF list_config(2)]
      validate_key_cong[OF list_config(3)] validate_key_cong[OF list_config(4)])

subsection \<open>Ranges\<close>

text \<open>What the range means: positions from \<open>start\<close> to \<open>stop\<close> after clamping.\<close>

definition range_start :: "int \<Rightarrow> int \<Rightarrow> int" where
  "range_start len i = (if i < 0 then max (len + i) 0 else min i len)"

definition range_stop :: "int \<Rightarrow> int \<Rightarrow> int" where
  "range_stop len i = (if i < 0 then max (len + i) 0 else min i (len - 1))"

lemma as_usize_nonneg: "0 \<le> i \<Longrightarrow> i < 2 ^ 64 \<Longrightarrow> as_usize i = nat i"
  by (simp add: as_usize_def)

lemma lrange_slice_spec:
  assumes len: "length xs < 2 ^ 63"
  shows "lrange_slice xs i j =
    Some (let a = range_start (int (length xs)) (sint i); b = range_stop (int (length xs)) (sint j)
          in take (nat (b + 1 - a)) (drop (nat a) xs))"
proof (cases "xs = []")
  case True
  have "range_start 0 (sint i) = 0" using sint_i64_range[of i]
    by (simp add: range_start_def)
  moreover have "as_usize (max (sint i) 0) = 0" if "sint i < 0" using that by (simp add: as_usize_def)
  moreover have "as_usize (min (sint i) 0) = 0" if "\<not> sint i < 0" using that by (simp add: as_usize_def)
  ultimately show ?thesis using True by (simp add: lrange_slice_def)
next
  case False
  let ?n = "int (length xs)"
  let ?a = "range_start ?n (sint i)" and ?b = "range_stop ?n (sint j)"
  have n: "0 < ?n" "?n < 2 ^ 63" using False len by simp_all
  have ab: "0 \<le> ?a" "?a \<le> ?n" "0 \<le> ?b" "?b \<le> ?n - 1"
    using n by (auto simp: range_start_def range_stop_def)
  then have "as_usize ?a = nat ?a" "as_usize ?b = nat ?b"
    using n by (auto intro!: as_usize_nonneg)
  moreover have "lrange_slice xs i j =
      (if as_usize ?a > as_usize ?b \<or> as_usize ?a \<ge> length xs then Some []
       else slice_inclusive xs (as_usize ?a) (as_usize ?b))"
    by (simp add: lrange_slice_def Let_def range_start_def range_stop_def)
  ultimately show ?thesis using ab n
    by (auto simp: slice_inclusive_def Let_def nat_diff_distrib' nat_add_distrib Suc_diff_le
        intro!: arg_cong2[where f = take])
qed

subsection \<open>Properties\<close>

text \<open>C14: Lists are deques. On a key that holds a list, or nothing, \<open>lpush\<close> puts its values in
  front in reverse, \<open>rpush\<close> appends them in order, both return the new length; \<open>lpop\<close> and \<open>rpop\<close>
  return and remove the first and the last element, and nothing from the empty list.\<close>

theorem list_is_deque:
  assumes "validate_key s key = Inr ()" "list_at s key = Some xs"
  shows "fst (kv_lpush s key vs) = Inr (length vs + length xs)
     \<and> list_at (snd (kv_lpush s key vs)) key = Some (rev vs @ xs)
     \<and> fst (kv_rpush s key vs) = Inr (length vs + length xs)
     \<and> list_at (snd (kv_rpush s key vs)) key = Some (xs @ vs)
     \<and> fst (kv_lpop s key) = Inr (case xs of [] \<Rightarrow> None | x # _ \<Rightarrow> Some x)
     \<and> list_at (snd (kv_lpop s key)) key = Some (tl xs)
     \<and> fst (kv_rpop s key) = Inr (if xs = [] then None else Some (last xs))
     \<and> list_at (snd (kv_rpop s key)) key = Some (butlast xs)"
  using kl.view_lpush[OF assms, of vs] kl.view_rpush[OF assms, of vs]
    kl.view_lpop[OF assms(2)] kl.view_rpop[OF assms(2)] by blast

theorem list_is_deque_witness:
  "list_at (snd (kv_rpush kv_new ''q'' [''x'', ''y''])) ''q'' = Some [''x'', ''y'']"
  using list_is_deque[of kv_new "''q''" "[]" "[''x'', ''y'']"]
  by (simp add: validate_key_def list_at_def kv_new_def with_config_def default_config_def
      default_max_key_size_def)

fun lpop_n :: "nat \<Rightarrow> kv_store \<Rightarrow> string \<Rightarrow> string option result list \<times> kv_store" where
  "lpop_n 0 s key = ([], s)"
| "lpop_n (Suc n) s key =
     (let (r, s1) = kv_lpop s key; (rs, s2) = lpop_n n s1 key in (r # rs, s2))"

lemma lpop_n_drain: "lpop_n n s key = kl.drain key n s"
  by (induction n arbitrary: s) (simp_all add: Let_def split_beta)

text \<open>\<open>rpush\<close> and \<open>lpop\<close> make a queue: after pushing \<open>vs\<close> on an empty list, popping from the left
  \<open>length vs\<close> times returns exactly \<open>vs\<close>, in order, and leaves the list empty.\<close>

theorem list_queue_roundtrip:
  assumes "validate_key s key = Inr ()" "list_at s key = Some []"
  shows "fst (lpop_n (length vs) (snd (kv_rpush s key vs)) key) = map (\<lambda>v. Inr (Some v)) vs
     \<and> list_at (snd (lpop_n (length vs) (snd (kv_rpush s key vs)) key)) key = Some []"
  using kl.view_rpush[OF assms, of vs] kl.drain_view[of "snd (kv_rpush s key vs)" key vs "length vs"]
  by (simp add: lpop_n_drain)

theorem list_queue_roundtrip_witness:
  "fst (lpop_n 2 (snd (kv_rpush kv_new ''q'' [''x'', ''y''])) ''q'') = [Inr (Some ''x''), Inr (Some ''y'')]"
  using list_queue_roundtrip[of kv_new "''q''" "[''x'', ''y'']"]
  by (simp add: validate_key_def list_at_def kv_new_def with_config_def default_config_def
      default_max_key_size_def numeral_2_eq_2)

text \<open>C15: \<open>lrange\<close> never panics on a list shorter than \<open>2^63\<close>, and returns the elements between the
  clamped bounds: a negative index counts from the end, \<open>start\<close> is clamped to \<open>[0, len]\<close>, a
  negative \<open>stop\<close> to 0 and any other to \<open>len - 1\<close>.\<close>

theorem lrange_never_panics:
  assumes "kv_get now s key = Some (VList xs)" "length xs < 2 ^ 63"
  shows "kv_lrange now s key i j =
    Some (Inr (let a = range_start (int (length xs)) (sint i); b = range_stop (int (length xs)) (sint j)
               in take (nat (b + 1 - a)) (drop (nat a) xs)))"
  by (simp add: kv_lrange_def assms(1) lrange_slice_spec[OF assms(2)])

theorem lrange_never_panics_witness:
  "kv_lrange 5 (snd (kv_rpush kv_new ''q'' [''x'', ''y'', ''z''])) ''q'' (-2) (-1) = Some (Inr [''y'', ''z''])"
proof -
  have g: "kv_get 5 (snd (kv_rpush kv_new ''q'' [''x'', ''y'', ''z''])) ''q'' = Some (VList [''x'', ''y'', ''z''])"
    by (simp add: kv_get_def kv_rpush_def validate_key_def kv_new_def with_config_def
        default_config_def default_max_key_size_def push_back_all_def live_value_def)
  have "sint (-2 :: i64) = -2" "sint (-1 :: i64) = -1" by simp_all
  with lrange_never_panics[OF g, of "-2" "-1"] show ?thesis
    by (simp add: range_start_def range_stop_def Let_def)
qed

end
