(* ===== verification/Kv_Txn.thy ===== *)
theory Kv_Txn
  imports Kv_Lists
begin

section \<open>Transactions (kv_store.rs)\<close>

text \<open>
  \<open>multi\<close>, \<open>exec\<close>, \<open>discard\<close>. \<open>exec\<close> takes the queue out of the store and runs its operations in
  order on the raw map: no validation, no expiry check, no memory accounting and no keyspace
  event, as in the code. A string literal of the code is the same literal here.
\<close>

definition kv_multi :: "kv_store \<Rightarrow> unit result \<times> kv_store" where
  "kv_multi s =
     (if transaction_queue s \<noteq> None
      then (Inl (OperationFailed ''Transaction already in progress''), s)
      else (Inr (), s\<lparr>transaction_queue := Some []\<rparr>))"

text \<open>The three arithmetic arms share their shape: update an integer or create the key.\<close>

definition exec_arith :: "string \<Rightarrow> i64 \<Rightarrow> (i64 \<Rightarrow> i64) \<Rightarrow> kv_store \<Rightarrow> string \<times> kv_store" where
  "exec_arith key initial f s =
     (let (r, s1) =
        (case hm_get (store s) key of
           Some e \<Rightarrow>
             (case entry_value e of
                VInt i \<Rightarrow> (show_i64 (f i), set_value key e (VInt (f i)) s)
              | _ \<Rightarrow> (''ERR: Type mismatch'', s))
         | None \<Rightarrow>
             (show_i64 initial,
              s\<lparr>store := hm_insert key \<lparr>entry_value = VInt initial, expires_at = None\<rparr> (store s)\<rparr>))
      in (r, update_lru key (count_write s1)))"

fun exec_op :: "kv_store \<Rightarrow> transaction_op \<Rightarrow> string \<times> kv_store" where
  "exec_op s (TSet key v expires) =
     (''OK'', update_lru key (count_write
        (s\<lparr>store := hm_insert key \<lparr>entry_value = v, expires_at = expires\<rparr> (store s)\<rparr>)))"
| "exec_op s (TDelete key) =
     (''OK'', s\<lparr>store := hm_remove key (store s),
               stats := (stats s)\<lparr>total_deletes := total_deletes (stats s) + 1\<rparr>\<rparr>)"
| "exec_op s (TIncr key) = exec_arith key 1 (\<lambda>i. i + 1) s"
| "exec_op s (TDecr key) = exec_arith key (-1) (\<lambda>i. i - 1) s"
| "exec_op s (TIncrBy key amount) = exec_arith key amount (\<lambda>i. i + amount) s"
| "exec_op s (TAppend key t) =
     (let (r, s1) =
        (case hm_get (store s) key of
           Some e \<Rightarrow>
             (case entry_value e of
                VStr u \<Rightarrow> (''OK'', set_value key e (VStr (u @ t)) s)
              | _ \<Rightarrow> (''ERR: Type mismatch'', s))
         | None \<Rightarrow>
             (''OK'', s\<lparr>store := hm_insert key \<lparr>entry_value = VStr t, expires_at = None\<rparr> (store s)\<rparr>))
      in (r, update_lru key (count_write s1)))"

fun exec_ops :: "kv_store \<Rightarrow> transaction_op list \<Rightarrow> string list \<times> kv_store" where
  "exec_ops s [] = ([], s)"
| "exec_ops s (op # ops) =
     (let (r, s1) = exec_op s op; (rs, s2) = exec_ops s1 ops in (r # rs, s2))"

definition kv_exec :: "kv_store \<Rightarrow> string list result \<times> kv_store" where
  "kv_exec s =
     (case transaction_queue s of
        Some queue \<Rightarrow>
          (let (results, s') = exec_ops (s\<lparr>transaction_queue := None\<rparr>) queue in (Inr results, s'))
      | None \<Rightarrow> (Inl (OperationFailed ''No transaction in progress''), s))"

definition kv_discard :: "kv_store \<Rightarrow> unit result \<times> kv_store" where
  "kv_discard s =
     (if transaction_queue s = None
      then (Inl (OperationFailed ''No transaction in progress''), s)
      else (Inr (), s\<lparr>transaction_queue := None\<rparr>))"

subsection \<open>The invariant\<close>

lemma put_touch_inv:
  "kv_inv s \<Longrightarrow> key \<noteq> [] \<Longrightarrow> value_wf v \<Longrightarrow>
   kv_inv (update_lru key (count_write
     (s\<lparr>store := hm_insert key \<lparr>entry_value = v, expires_at = x\<rparr> (store s)\<rparr>)))"
  by (simp add: kv_inv_def parts_inv_put)

lemma exec_arith_inv: "kv_inv s \<Longrightarrow> key \<noteq> [] \<Longrightarrow> kv_inv (snd (exec_arith key i0 f s))"
  by (auto simp: exec_arith_def intro!: put_touch_inv rewrite_inv
      split: option.splits kv_value.splits) (simp_all add: update_lru_inv)

lemma exec_delete_inv:
  "kv_inv s \<Longrightarrow> kv_inv (s\<lparr>store := hm_remove key (store s), stats := st\<rparr>)"
  by (simp add: kv_inv_def parts_inv_remove)

lemma exec_op_inv: "kv_inv s \<Longrightarrow> op_wf op \<Longrightarrow> kv_inv (snd (exec_op s op))"
proof (cases op)
  case (TAppend key t)
  moreover assume "kv_inv s" "op_wf op"
  ultimately show ?thesis
    by (auto intro!: put_touch_inv rewrite_inv split: option.splits kv_value.splits)
       (simp_all add: update_lru_inv)
qed (simp_all add: exec_arith_inv put_touch_inv exec_delete_inv del: kv_inv_frame)

lemma exec_op_queue[simp]:
  "transaction_queue (snd (exec_op s op)) = transaction_queue s" "config (snd (exec_op s op)) = config s"
  by (cases op; auto simp: exec_arith_def split: option.splits kv_value.splits)+

interpretation exec_machine: machine "\<lambda>s op. snd (exec_op s op)" op_wf kv_inv
  by unfold_locales (rule exec_op_inv)

lemma exec_ops_snd: "snd (exec_ops s ops) = foldl (\<lambda>s op. snd (exec_op s op)) s ops"
  by (induction ops arbitrary: s) (simp_all add: Let_def split_beta)

lemma exec_ops_fst: "length (fst (exec_ops s ops)) = length ops"
  by (induction ops arbitrary: s) (simp_all add: Let_def split_beta)

lemma kv_exec_inv: "kv_inv s \<Longrightarrow> kv_inv (snd (kv_exec s))"
proof (cases "transaction_queue s")
  case (Some ops)
  assume inv: "kv_inv s"
  with Some have "list_all op_wf ops" "kv_inv (s\<lparr>transaction_queue := None\<rparr>)"
    by (auto simp: kv_inv_def parts_inv_def)
  then show ?thesis
    using Some exec_machine.run_inv[of "s\<lparr>transaction_queue := None\<rparr>" ops]
    by (simp add: kv_exec_def split_beta exec_ops_snd)
qed (simp add: kv_exec_def)

lemma kv_multi_inv: "kv_inv s \<Longrightarrow> kv_inv (snd (kv_multi s))"
  by (auto simp: kv_multi_def kv_inv_def parts_inv_def)

lemma kv_discard_inv: "kv_inv s \<Longrightarrow> kv_inv (snd (kv_discard s))"
  by (auto simp: kv_discard_def kv_inv_def parts_inv_def)

subsection \<open>The transaction as a state machine\<close>

lemma exec_ops_queue[simp]: "transaction_queue (snd (exec_ops s ops)) = transaction_queue s"
  by (induction ops arbitrary: s) (auto simp: Let_def split_beta)

lemma kv_exec_ends: "transaction_queue (snd (kv_exec s)) = None"
  by (cases "transaction_queue s") (simp_all add: kv_exec_def split_beta)

text \<open>Queued writes leave the data alone until \<open>exec\<close>, and \<open>discard\<close> restores the store.\<close>

lemma queued_set:
  "transaction_queue s = Some q \<Longrightarrow>
   snd (kv_set now s key v) = s \<or> snd (kv_set now s key v) = s\<lparr>transaction_queue := Some (q @ [TSet key v None])\<rparr>"
  by (auto simp: kv_set_def in_transaction_def queue_operation_def split: sum.splits)

subsection \<open>Queued writes against immediate writes\<close>

text \<open>The commands that queue inside a transaction, as a client issues them.\<close>

datatype write_cmd = WSet string kv_value | WSetTtl string kv_value u64 | WDelete string

fun issue :: "u64 \<Rightarrow> kv_store \<Rightarrow> write_cmd \<Rightarrow> kv_store" where
  "issue now s (WSet key v) = snd (kv_set now s key v)"
| "issue now s (WSetTtl key v ttl) = snd (kv_set_with_ttl now s key v ttl)"
| "issue now s (WDelete key) = snd (kv_delete now s key)"

definition unlimited :: "kv_store \<Rightarrow> bool" where
  "unlimited s \<longleftrightarrow> max_memory_bytes (config s) = 0 \<or> \<not> lru_eviction_enabled (config s)"

text \<open>What an accepted write does to the raw map, and the operation it queues.\<close>

fun accepted_op :: "u64 \<Rightarrow> kv_store \<Rightarrow> write_cmd \<Rightarrow> transaction_op list" where
  "accepted_op now s (WSet key v) =
     (if validate_key s key = Inr () \<and> validate_value s v = Inr () then [TSet key v None] else [])"
| "accepted_op now s (WSetTtl key v ttl) =
     (if validate_key s key = Inr () \<and> validate_value s v = Inr ()
      then [TSet key v (checked_add_u64 now ttl)] else [])"
| "accepted_op now s (WDelete key) = [TDelete key]"

lemma accepted_op_cong: "config s = config t \<Longrightarrow> accepted_op now s c = accepted_op now t c"
  by (cases c) (simp_all add: validate_key_def validate_value_def)

lemma issue_queued:
  "transaction_queue s = Some q \<Longrightarrow>
   issue now s c = s\<lparr>transaction_queue := Some (q @ accepted_op now s c)\<rparr>"
  by (cases c)
     (auto simp: kv_set_def kv_set_with_ttl_def kv_delete_def Let_def in_transaction_def
       queue_operation_def split: sum.splits)

lemma issue_run_queued:
  "transaction_queue s = Some q \<Longrightarrow>
   foldl (issue now) s cs = s\<lparr>transaction_queue := Some (q @ concat (map (accepted_op now s) cs))\<rparr>"
proof (induction cs arbitrary: s q)
  case (Cons c cs)
  let ?t = "s\<lparr>transaction_queue := Some (q @ accepted_op now s c)\<rparr>"
  have "accepted_op now ?t = accepted_op now s" by (intro ext accepted_op_cong) simp
  with Cons.IH[of ?t "q @ accepted_op now s c"] Cons.prems show ?case
    by (simp add: issue_queued[OF Cons.prems])
qed simp

lemma issue_direct:
  assumes "transaction_queue s = None" "unlimited s" "store t = store s"
  shows "store (issue now s c) = store (foldl (\<lambda>s op. snd (exec_op s op)) t (accepted_op now s c))"
    and "transaction_queue (issue now s c) = None" "config (issue now s c) = config s"
proof -
  have se: "store (store_entry now key v x s) = hm_insert key \<lparr>entry_value = v, expires_at = x\<rparr> (store s)"
    "transaction_queue (store_entry now key v x s) = None" for key v x
    using assms(1,2) by (auto simp: store_entry_def Let_def unlimited_def)
  show "store (issue now s c) = store (foldl (\<lambda>s op. snd (exec_op s op)) t (accepted_op now s c))"
    "transaction_queue (issue now s c) = None" "config (issue now s c) = config s"
    using assms
    by (cases c; auto simp: se kv_set_def kv_set_with_ttl_def kv_delete_def Let_def in_transaction_def
        hm_get_None split: sum.splits option.splits)+
qed

lemma issue_run_direct:
  "transaction_queue s = None \<Longrightarrow> unlimited s \<Longrightarrow> store t = store s \<Longrightarrow>
   store (foldl (issue now) s cs) =
     store (foldl (\<lambda>s op. snd (exec_op s op)) t (concat (map (accepted_op now s) cs)))"
proof (induction cs arbitrary: s t)
  case (Cons c cs)
  note d = issue_direct[OF Cons.prems]
  let ?s' = "issue now s c" and ?t' = "foldl (\<lambda>s op. snd (exec_op s op)) t (accepted_op now s c)"
  have "unlimited ?s'" using Cons.prems(2) d(3) by (simp add: unlimited_def)
  from Cons.IH[OF d(2) this d(1)[symmetric]]
  have "store (foldl (issue now) ?s' cs) =
      store (foldl (\<lambda>s op. snd (exec_op s op)) ?t' (concat (map (accepted_op now ?s') cs)))" .
  moreover have "accepted_op now ?s' = accepted_op now s" by (intro ext accepted_op_cong) (rule d(3))
  ultimately show ?case by simp
qed simp

lemma issue_after_multi:
  assumes "transaction_queue s = None"
  shows "foldl (issue now) (snd (kv_multi s)) cs
    = s\<lparr>transaction_queue := Some (concat (map (accepted_op now s) cs))\<rparr>"
proof -
  let ?m = "s\<lparr>transaction_queue := Some []\<rparr>"
  have "accepted_op now ?m = accepted_op now s" by (intro ext accepted_op_cong) simp
  then show ?thesis
    using assms issue_run_queued[of ?m "[]" now cs] by (simp add: kv_multi_def)
qed

lemma transaction_store:
  assumes "transaction_queue s = None" "unlimited s"
  shows "store (snd (kv_exec (foldl (issue now) (snd (kv_multi s)) cs))) = store (foldl (issue now) s cs)"
proof -
  note issue_after_multi[OF assms(1), of now cs]
  then have "store (snd (kv_exec (foldl (issue now) (snd (kv_multi s)) cs)))
      = store (foldl (\<lambda>s op. snd (exec_op s op)) (s\<lparr>transaction_queue := None\<rparr>)
               (concat (map (accepted_op now s) cs)))"
    by (simp add: kv_exec_def split_beta exec_ops_snd)
  also have "\<dots> = store (foldl (issue now) s cs)"
    by (rule issue_run_direct[OF assms, symmetric]) simp
  finally show ?thesis .
qed

subsection \<open>Properties\<close>



text \<open>\<open>discard\<close> undoes a transaction completely: after \<open>multi\<close> and any sequence of \<open>set\<close>,
  \<open>set_with_ttl\<close> and \<open>delete\<close>, it succeeds and returns the store \<open>multi\<close> started from, in every
  field.\<close>

theorem discard_restores:
  assumes "transaction_queue s = None"
  shows "fst (kv_multi s) = Inr ()
     \<and> kv_discard (foldl (issue now) (snd (kv_multi s)) cs) = (Inr (), s)"
  using assms by (simp add: issue_after_multi kv_discard_def) (simp add: kv_multi_def)

theorem discard_restores_witness:
  "kv_discard (foldl (issue 7) (snd (kv_multi kv_new)) [WSet ''a'' (VInt 1), WDelete ''a'']) = (Inr (), kv_new)"
  using discard_restores[of kv_new 7 "[WSet ''a'' (VInt 1), WDelete ''a'']"]
  by (simp add: kv_new_def with_config_def)

end
