(* ===== verification/Kv_Hashes.thy ===== *)
theory Kv_Hashes
  imports Kv_Lists
begin

section \<open>Hash operations (kv_store.rs)\<close>

text \<open>
  \<open>hset\<close> to \<open>hincrbyfloat\<close>. A request's \<open>HashMap\<close> of fields is an association list with distinct
  keys in its (unspecified) iteration order. The float increment takes the \<open>f64\<close> operations as a
  parameter, as \<open>hll_count\<close> does. The laws of the \<open>hash_map\<close> interface carry the proofs.
\<close>

fun insert_fields :: "(string, string) hmap \<Rightarrow> (string, string) hmap \<Rightarrow> nat \<times> (string, string) hmap" where
  "insert_fields [] m = (0, m)"
| "insert_fields ((f, v) # fs) m =
     (let is_new = (hm_get m f = None);
          (n, m') = insert_fields fs (hm_insert f v m)
      in (if is_new then n + 1 else n, m'))"

definition kv_hset :: "kv_store \<Rightarrow> string \<Rightarrow> (string, string) hmap \<Rightarrow> nat result \<times> kv_store" where
  "kv_hset s key fds =
     (case validate_key s key of Inl e \<Rightarrow> (Inl e, s) | Inr _ \<Rightarrow>
      case hm_get (store s) key of
        Some e \<Rightarrow>
          (case entry_value e of
             VHash m \<Rightarrow>
               (let (n, m') = insert_fields fds m in
                (Inr n, update_lru key (count_write (set_value key e (VHash m') s))))
           | other \<Rightarrow> (Inl (type_mismatch key ''Hash'' (type_name other)), s))
      | None \<Rightarrow> (Inr (length fds), update_lru key (create_entry key (VHash fds) s)))"

definition kv_hget :: "u64 \<Rightarrow> kv_store \<Rightarrow> string \<Rightarrow> string \<Rightarrow> string option result" where
  "kv_hget now s key field =
     (case kv_get now s key of
        Some (VHash m) \<Rightarrow> Inr (hm_get m field)
      | Some other \<Rightarrow> Inl (type_mismatch key ''Hash'' (type_name other))
      | None \<Rightarrow> Inr None)"

definition kv_hmget :: "u64 \<Rightarrow> kv_store \<Rightarrow> string \<Rightarrow> string list \<Rightarrow> string option list result" where
  "kv_hmget now s key fds =
     (case kv_get now s key of
        Some (VHash m) \<Rightarrow> Inr (map (hm_get m) fds)
      | Some other \<Rightarrow> Inl (type_mismatch key ''Hash'' (type_name other))
      | None \<Rightarrow> Inr (map (\<lambda>_. None) fds))"

text \<open>\<open>fields.iter().filter(|f| map.remove(*f).is_some()).count()\<close>.\<close>

fun remove_fields :: "string list \<Rightarrow> (string, string) hmap \<Rightarrow> nat \<times> (string, string) hmap" where
  "remove_fields [] m = (0, m)"
| "remove_fields (f # fs) m =
     (let was = (hm_get m f \<noteq> None);
          (n, m') = remove_fields fs (hm_remove f m)
      in (if was then n + 1 else n, m'))"

definition kv_hdel :: "kv_store \<Rightarrow> string \<Rightarrow> string list \<Rightarrow> nat result \<times> kv_store" where
  "kv_hdel s key fds =
     (case hm_get (store s) key of
        Some e \<Rightarrow>
          (case entry_value e of
             VHash m \<Rightarrow>
               (let (removed, m') = remove_fields fds m;
                    s1 = set_value key e (VHash m') s;
                    s2 = (if removed > 0 then count_write s1 else s1)
                in (Inr removed, update_lru key s2))
           | other \<Rightarrow> (Inl (type_mismatch key ''Hash'' (type_name other)), s))
      | None \<Rightarrow> (Inr 0, s))"

definition kv_hgetall :: "u64 \<Rightarrow> kv_store \<Rightarrow> string \<Rightarrow> (string, string) hmap result" where
  "kv_hgetall now s key =
     (case kv_get now s key of
        Some (VHash m) \<Rightarrow> Inr m
      | Some other \<Rightarrow> Inl (type_mismatch key ''Hash'' (type_name other))
      | None \<Rightarrow> Inr [])"

definition kv_hkeys :: "u64 \<Rightarrow> kv_store \<Rightarrow> string \<Rightarrow> string list result" where
  "kv_hkeys now s key =
     (case kv_get now s key of
        Some (VHash m) \<Rightarrow> Inr (hm_keys m)
      | Some other \<Rightarrow> Inl (type_mismatch key ''Hash'' (type_name other))
      | None \<Rightarrow> Inr [])"

definition kv_hvals :: "u64 \<Rightarrow> kv_store \<Rightarrow> string \<Rightarrow> string list result" where
  "kv_hvals now s key =
     (case kv_get now s key of
        Some (VHash m) \<Rightarrow> Inr (map snd m)
      | Some other \<Rightarrow> Inl (type_mismatch key ''Hash'' (type_name other))
      | None \<Rightarrow> Inr [])"

definition kv_hlen :: "u64 \<Rightarrow> kv_store \<Rightarrow> string \<Rightarrow> nat result" where
  "kv_hlen now s key =
     (case kv_get now s key of
        Some (VHash m) \<Rightarrow> Inr (length m)
      | Some other \<Rightarrow> Inl (type_mismatch key ''Hash'' (type_name other))
      | None \<Rightarrow> Inr 0)"

definition kv_hexists :: "u64 \<Rightarrow> kv_store \<Rightarrow> string \<Rightarrow> string \<Rightarrow> bool result" where
  "kv_hexists now s key field =
     (case kv_get now s key of
        Some (VHash m) \<Rightarrow> Inr (hm_get m field \<noteq> None)
      | Some other \<Rightarrow> Inl (type_mismatch key ''Hash'' (type_name other))
      | None \<Rightarrow> Inr False)"

definition field_i64 :: "(string, string) hmap \<Rightarrow> string \<Rightarrow> i64" where
  "field_i64 m field =
     (case map_option (\<lambda>v. case parse_i64 v of Some i \<Rightarrow> i | None \<Rightarrow> 0) (hm_get m field) of
        Some i \<Rightarrow> i | None \<Rightarrow> 0)"

definition kv_hincrby :: "kv_store \<Rightarrow> string \<Rightarrow> string \<Rightarrow> i64 \<Rightarrow> i64 result \<times> kv_store" where
  "kv_hincrby s key field amount =
     (case validate_key s key of Inl e \<Rightarrow> (Inl e, s) | Inr _ \<Rightarrow>
      case hm_get (store s) key of
        Some e \<Rightarrow>
          (case entry_value e of
             VHash m \<Rightarrow>
               (let next = field_i64 m field + amount;
                    m' = hm_insert field (show_i64 next) m
                in (Inr next, update_lru key (count_write (set_value key e (VHash m') s))))
           | other \<Rightarrow> (Inl (type_mismatch key ''Hash'' (type_name other)), s))
      | None \<Rightarrow>
          (let m = hm_insert field (show_i64 amount) [] in
           (Inr amount, update_lru key (create_entry key (VHash m) s))))"

definition field_f64 :: "'f f64_arith \<Rightarrow> (string, string) hmap \<Rightarrow> string \<Rightarrow> 'f" where
  "field_f64 F m field =
     (case map_option (\<lambda>v. case f_parse F v of Some x \<Rightarrow> x | None \<Rightarrow> f_lit F ''0.0'') (hm_get m field) of
        Some x \<Rightarrow> x | None \<Rightarrow> f_lit F ''0.0'')"

definition kv_hincrbyfloat ::
  "'f f64_arith \<Rightarrow> kv_store \<Rightarrow> string \<Rightarrow> string \<Rightarrow> 'f \<Rightarrow> 'f result \<times> kv_store" where
  "kv_hincrbyfloat F s key field amount =
     (case validate_key s key of Inl e \<Rightarrow> (Inl e, s) | Inr _ \<Rightarrow>
      case hm_get (store s) key of
        Some e \<Rightarrow>
          (case entry_value e of
             VHash m \<Rightarrow>
               (let next = f_add F (field_f64 F m field) amount;
                    m' = hm_insert field (f_show F next) m
                in (Inr next, update_lru key (count_write (set_value key e (VHash m') s))))
           | other \<Rightarrow> (Inl (type_mismatch key ''Hash'' (type_name other)), s))
      | None \<Rightarrow>
          (let m = hm_insert field (f_show F amount) [] in
           (Inr amount, update_lru key (create_entry key (VHash m) s))))"

subsection \<open>Field loops through the map interface\<close>

lemma insert_fields_snd: "snd (insert_fields fs m) = fold (\<lambda>(k, v). hm_insert k v) fs m"
  by (induction fs m rule: insert_fields.induct) (auto simp: Let_def split: prod.splits)

lemma remove_fields_snd: "snd (remove_fields fs m) = fold hm_remove fs m"
  by (induction fs m rule: remove_fields.induct) (auto simp: Let_def split: prod.splits)

lemma insert_fields_wf: "hm_wf m \<Longrightarrow> hm_wf (snd (insert_fields fs m))"
  unfolding insert_fields_snd by (rule hm.wf_fold_ins)

lemma remove_fields_wf: "hm_wf m \<Longrightarrow> hm_wf (snd (remove_fields fs m))"
  unfolding remove_fields_snd by (rule hm.wf_fold_rem)

lemma insert_fields_get:
  "hm_wf fs \<Longrightarrow> hm_get (snd (insert_fields fs m)) j = (case hm_get fs j of Some v \<Rightarrow> Some v | None \<Rightarrow> hm_get m j)"
  unfolding insert_fields_snd by (rule hm.get_fold_ins)

lemma remove_fields_get:
  "hm_get (snd (remove_fields fs m)) j = (if j \<in> set fs then None else hm_get m j)"
  unfolding remove_fields_snd by (rule hm.get_fold_rem)

text \<open>The returned counts: new fields, and fields that were there.\<close>

lemma insert_fields_count:
  "hm_wf m \<Longrightarrow> fst (insert_fields fs m) + length m = length (snd (insert_fields fs m))"
proof (induction fs m rule: insert_fields.induct)
  case (2 f v fs m)
  obtain n m' where r: "insert_fields fs (hm_insert f v m) = (n, m')" by fastforce
  with 2 have "n + length (hm_insert f v m) = length m'" by simp
  then show ?case
    by (cases "f \<in> fst ` set m") (simp_all add: r Let_def length_hm_insert hm_get_None del: not_None_eq)
qed simp

lemma length_hm_remove:
  "hm_wf m \<Longrightarrow> length (hm_remove k m) = (if k \<in> fst ` set m then length m - 1 else length m)"
  by (induction m) (auto simp: Suc_diff_1 length_greater_0_conv neq_Nil_conv dest: length_pos_if_in_set)

lemma remove_fields_count:
  "hm_wf m \<Longrightarrow> fst (remove_fields fs m) + length (snd (remove_fields fs m)) = length m"
proof (induction fs m rule: remove_fields.induct)
  case (2 f fs m)
  obtain n m' where r: "remove_fields fs (hm_remove f m) = (n, m')" by fastforce
  with 2 have "n + length m' = length (hm_remove f m)" by simp
  moreover have "f \<in> fst ` set m \<Longrightarrow> 0 < length m" by auto
  ultimately show ?case
    using length_hm_remove[OF 2(2), of f] r
    by (cases "f \<in> fst ` set m") (simp_all add: Let_def hm_get_None del: not_None_eq)
qed simp

subsection \<open>The invariant\<close>

lemma hash_value_wf:
  "kv_inv s \<Longrightarrow> hm_get (store s) key = Some e \<Longrightarrow> entry_value e = VHash m \<Longrightarrow> hm_wf m"
  unfolding kv_inv_def using parts_inv_value by fastforce

lemma kv_hset_inv:
  assumes "kv_inv s" "hm_wf fds"
  shows "kv_inv (snd (kv_hset s key fds))"
proof -
  have "value_wf (VHash m')"
    if "hm_get (store s) key = Some e" "entry_value e = VHash m" "insert_fields fds m = (n, m')"
    for e m n m'
    using insert_fields_wf[OF hash_value_wf[OF assms(1) that(1,2)], of fds] that(3) by simp
  with assms show ?thesis
    by (auto simp: kv_hset_def Let_def intro!: create_entry_inv rewrite_inv dest: validate_key_ok
        split: sum.splits option.splits kv_value.splits prod.splits)
qed

lemma kv_hdel_inv:
  assumes "kv_inv s"
  shows "kv_inv (snd (kv_hdel s key fds))"
proof -
  have "value_wf (VHash m')"
    if "hm_get (store s) key = Some e" "entry_value e = VHash m" "remove_fields fds m = (n, m')"
    for e m n m'
    using remove_fields_wf[OF hash_value_wf[OF assms that(1,2)], of fds] that(3) by simp
  with assms show ?thesis
    by (auto simp: kv_hdel_def Let_def intro!: update_lru_inv set_value_inv
        split: option.splits kv_value.splits prod.splits)
qed

lemma kv_hincrby_inv: "kv_inv s \<Longrightarrow> kv_inv (snd (kv_hincrby s key field amount))"
  by (auto simp: kv_hincrby_def Let_def intro!: create_entry_inv rewrite_inv
      dest: validate_key_ok hash_value_wf split: sum.splits option.splits kv_value.splits)

lemma kv_hincrbyfloat_inv: "kv_inv s \<Longrightarrow> kv_inv (snd (kv_hincrbyfloat F s key field amount))"
  by (auto simp: kv_hincrbyfloat_def Let_def intro!: create_entry_inv rewrite_inv
      dest: validate_key_ok hash_value_wf split: sum.splits option.splits kv_value.splits)

subsection \<open>Reading back what was written\<close>

definition hash_at :: "kv_store \<Rightarrow> string \<Rightarrow> (string, string) hmap option" where
  "hash_at s key =
     (case hm_get (store s) key of
        None \<Rightarrow> Some []
      | Some e \<Rightarrow> (case entry_value e of VHash m \<Rightarrow> Some m | _ \<Rightarrow> None))"

lemma hash_at_cases:
  assumes "hash_at s key = Some m"
  obtains "hm_get (store s) key = None" "m = []"
  | e where "hm_get (store s) key = Some e" "entry_value e = VHash m"
  using assms by (auto simp: hash_at_def split: option.splits kv_value.splits)

text \<open>A live hash, or no entry: then the readers see \<open>hash_at\<close>.\<close>

definition visible :: "u64 \<Rightarrow> kv_store \<Rightarrow> string \<Rightarrow> bool" where
  "visible now s key \<longleftrightarrow> (\<forall>e. hm_get (store s) key = Some e \<longrightarrow> live_value now e \<noteq> None)"

lemma live_value_Some: "live_value now e = Some y \<Longrightarrow> y = entry_value e"
  by (auto simp: live_value_def split: option.splits if_splits)

lemma kv_get_visible:
  "visible now s key \<Longrightarrow> kv_get now s key = map_option entry_value (hm_get (store s) key)"
  by (cases "hm_get (store s) key") (auto simp: kv_get_def visible_def dest: live_value_Some)

lemma live_value_update: "live_value now (e\<lparr>entry_value := v\<rparr>) = map_option (\<lambda>_. v) (live_value now e)"
  by (auto simp: live_value_def split: option.splits)

lemma kv_hget_hash_at:
  "visible now s key \<Longrightarrow> hash_at s key = Some m \<Longrightarrow> kv_hget now s key f = Inr (hm_get m f)"
  by (elim hash_at_cases) (auto simp: kv_hget_def kv_get_visible)

lemma kv_hlen_hash_at:
  "visible now s key \<Longrightarrow> hash_at s key = Some m \<Longrightarrow> kv_hlen now s key = Inr (length m)"
  by (elim hash_at_cases) (auto simp: kv_hlen_def kv_get_visible)

lemma visible_rewrite:
  "visible now s key \<Longrightarrow> hm_get (store s) key = Some e \<Longrightarrow>
   visible now (update_lru key (count_write (set_value key e v s))) key"
  by (auto simp: visible_def live_value_update)

lemma visible_create: "visible now (update_lru key (create_entry key v s)) key"
  by (simp add: visible_def live_value_def)

lemma hash_at_rewrite[simp]:
  "hash_at (update_lru key (count_write (set_value key e (VHash m) s))) key = Some m"
  by (simp add: hash_at_def)

lemma hash_at_create[simp]: "hash_at (update_lru key (create_entry key (VHash m) s)) key = Some m"
  by (simp add: hash_at_def)

lemma kv_hset_spec:
  assumes "validate_key s key = Inr ()" "hash_at s key = Some m" "visible now s key"
    "hm_wf m" "hm_wf fds"
  obtains m' where
    "kv_hset s key fds = (Inr (card (fst ` set fds - fst ` set m)), snd (kv_hset s key fds))"
    "hash_at (snd (kv_hset s key fds)) key = Some m'" "visible now (snd (kv_hset s key fds)) key"
    "\<And>f. hm_get m' f = (case hm_get fds f of Some v \<Rightarrow> Some v | None \<Rightarrow> hm_get m f)"
proof (cases rule: hash_at_cases[OF assms(2)])
  case 1
  have "length fds = card (fst ` set fds)"
    using assms(5) by (metis distinct_card length_map set_map)
  with 1 show ?thesis
    using that[of fds] assms visible_create[of now key "VHash fds" s]
    by (simp add: kv_hset_def split: option.splits)
next
  case (2 e)
  let ?m' = "snd (insert_fields fds m)"
  have wf': "hm_wf ?m'" using assms(4) by (rule insert_fields_wf)
  have k: "fst ` set ?m' = fst ` set m \<union> fst ` set fds"
  proof -
    have "j \<in> fst ` set ?m' \<longleftrightarrow> j \<in> fst ` set m \<or> j \<in> fst ` set fds" for j
      using insert_fields_get[OF assms(5), of m j] hm_get_None[of ?m' j] hm_get_None[of m j]
        hm_get_None[of fds j] by (auto split: option.splits)
    then show ?thesis by blast
  qed
  have "length ?m' = card (fst ` set m \<union> fst ` set fds)"
    using wf' k by (metis distinct_card length_map set_map)
  also have "\<dots> = card (fst ` set fds - fst ` set m) + card (fst ` set m)"
    using card_Un_disjoint[of "fst ` set fds - fst ` set m" "fst ` set m"]
    by (simp add: Int_commute Un_commute Un_Diff_cancel)
  also have "card (fst ` set m) = length m"
    using assms(4) by (metis distinct_card length_map set_map)
  finally have n: "fst (insert_fields fds m) = card (fst ` set fds - fst ` set m)"
    using insert_fields_count[OF assms(4), of fds] by simp
  show ?thesis
    using that[of ?m'] 2 n assms insert_fields_get[OF assms(5), of m] visible_rewrite[OF assms(3) 2(1)]
    by (auto simp: kv_hset_def Let_def split_beta)
qed

lemma kv_hincrby_spec:
  assumes "validate_key s key = Inr ()" "hash_at s key = Some m" "visible now s key"
  shows "fst (kv_hincrby s key f amount) = Inr (field_i64 m f + amount)"
    and "kv_hget now (snd (kv_hincrby s key f amount)) key j =
           (if j = f then Inr (Some (show_i64 (field_i64 m f + amount))) else Inr (hm_get m j))"
proof -
  show "fst (kv_hincrby s key f amount) = Inr (field_i64 m f + amount)"
    using assms(1) by (cases rule: hash_at_cases[OF assms(2)])
      (auto simp: kv_hincrby_def Let_def field_i64_def)
  show "kv_hget now (snd (kv_hincrby s key f amount)) key j =
      (if j = f then Inr (Some (show_i64 (field_i64 m f + amount))) else Inr (hm_get m j))"
  proof (cases rule: hash_at_cases[OF assms(2)])
    case 1
    with assms(1) show ?thesis
      by (subst kv_hget_hash_at[where m = "hm_insert f (show_i64 amount) []"])
         (auto simp: kv_hincrby_def Let_def field_i64_def visible_create)
  next
    case (2 e)
    with assms(1) show ?thesis
      by (subst kv_hget_hash_at[where m = "hm_insert f (show_i64 (field_i64 m f + amount)) m"])
         (auto simp: kv_hincrby_def Let_def visible_rewrite[OF assms(3) 2(1)])
  qed
qed

lemma field_i64_show[simp]: "field_i64 (hm_insert f (show_i64 i) m) f = i"
  by (simp add: field_i64_def)

lemma kv_hincrby_next:
  assumes "validate_key s key = Inr ()" "hash_at s key = Some m"
  shows "hash_at (snd (kv_hincrby s key f a)) key = Some (hm_insert f (show_i64 (field_i64 m f + a)) m)"
    and "config (snd (kv_hincrby s key f a)) = config s"
  using assms(1) by (cases rule: hash_at_cases[OF assms(2)];
      auto simp: kv_hincrby_def Let_def field_i64_def)+

lemma kv_hincrby_fst:
  assumes "validate_key s key = Inr ()" "hash_at s key = Some m"
  shows "fst (kv_hincrby s key f amount) = Inr (field_i64 m f + amount)"
  using assms(1) by (cases rule: hash_at_cases[OF assms(2)])
      (auto simp: kv_hincrby_def Let_def field_i64_def)

lemma kv_hdel_result:
  assumes "hash_at s key = Some m"
  shows "fst (kv_hdel s key fs) = Inr (fst (remove_fields fs m))"
    and "hash_at (snd (kv_hdel s key fs)) key = Some (snd (remove_fields fs m))"
proof -
  have z: "remove_fields fs [] = (0, [])" by (induction fs) (simp_all add: Let_def)
  show "fst (kv_hdel s key fs) = Inr (fst (remove_fields fs m))"
    "hash_at (snd (kv_hdel s key fs)) key = Some (snd (remove_fields fs m))"
    by (cases rule: hash_at_cases[OF assms];
        simp add: kv_hdel_def Let_def split_beta z hash_at_def)+
qed

subsection \<open>Properties\<close>

text \<open>C16: Writing fields and reading them back. On a live hash, or no key, \<open>hset\<close> returns the number
  of fields that were new, and every later \<open>hget\<close> sees the written fields over the old ones.\<close>

theorem hset_readback:
  assumes "kv_inv s" "validate_key s key = Inr ()" "hash_at s key = Some m" "visible now s key" "hm_wf fds"
  shows "fst (kv_hset s key fds) = Inr (card (fst ` set fds - fst ` set m))
     \<and> (\<forall>f. kv_hget now (snd (kv_hset s key fds)) key f =
              Inr (case hm_get fds f of Some v \<Rightarrow> Some v | None \<Rightarrow> hm_get m f))"
proof -
  have "hm_wf m"
    using hash_at_cases[OF assms(3)] hash_value_wf[OF assms(1)] by (metis distinct.simps(1) list.simps(8))
  from kv_hset_spec[OF assms(2-4) this assms(5)] obtain m' where m':
    "kv_hset s key fds = (Inr (card (fst ` set fds - fst ` set m)), snd (kv_hset s key fds))"
    "hash_at (snd (kv_hset s key fds)) key = Some m'" "visible now (snd (kv_hset s key fds)) key"
    "\<And>f. hm_get m' f = (case hm_get fds f of Some v \<Rightarrow> Some v | None \<Rightarrow> hm_get m f)" by blast
  then have "fst (kv_hset s key fds) = Inr (card (fst ` set fds - fst ` set m))" by (metis fst_conv)
  with m' show ?thesis by (simp add: kv_hget_hash_at[OF m'(3,2)])
qed

definition sample_hash_store :: kv_store where
  "sample_hash_store = (with_config default_config)
     \<lparr>store := [(''h'', \<lparr>entry_value = VHash [(''a'', ''1''), (''b'', ''x'')], expires_at = None\<rparr>)],
      lru_order := [''h'']\<rparr>"

lemma sample_hash_facts:
  "kv_inv sample_hash_store" "validate_key sample_hash_store ''h'' = Inr ()"
  "hash_at sample_hash_store ''h'' = Some [(''a'', ''1''), (''b'', ''x'')]"
  "visible now sample_hash_store ''h''"
  by (simp_all add: sample_hash_store_def kv_inv_def parts_inv_def with_config_def validate_key_def
      hash_at_def visible_def live_value_def default_config_def default_max_key_size_def)

theorem hset_readback_witness:
  "fst (kv_hset sample_hash_store ''h'' [(''a'', ''5''), (''c'', ''7'')]) = Inr 1
   \<and> kv_hget 9 (snd (kv_hset sample_hash_store ''h'' [(''a'', ''5''), (''c'', ''7'')])) ''h'' ''a'' = Inr (Some ''5'')"
  using hset_readback[OF sample_hash_facts, of "[(''a'', ''5''), (''c'', ''7'')]" 9]
  by (simp add: insert_Diff_if)

text \<open>\<open>hdel\<close> returns the number of distinct requested fields that were present, removes
  exactly the requested fields, and never removes the key itself.\<close>

theorem hdel_exact:
  assumes "kv_inv s" "hash_at s key = Some m"
  shows "fst (kv_hdel s key fs) = Inr (card (set fs \<inter> fst ` set m))
     \<and> (\<exists>m'. hash_at (snd (kv_hdel s key fs)) key = Some m'
            \<and> (\<forall>f. hm_get m' f = (if f \<in> set fs then None else hm_get m f)))"
proof -
  have wf: "hm_wf m"
    using hash_at_cases[OF assms(2)] hash_value_wf[OF assms(1)] by (metis distinct.simps(1) list.simps(8))
  let ?m' = "snd (remove_fields fs m)"
  have "j \<in> fst ` set ?m' \<longleftrightarrow> j \<in> fst ` set m - set fs" for j
    using remove_fields_get[of fs m j] hm_get_None[of ?m' j] hm_get_None[of m j] by (auto split: if_splits)
  then have keys: "fst ` set ?m' = fst ` set m - set fs" by blast
  have len: "length xs = card (fst ` set xs)" if "hm_wf xs" for xs :: "(string, string) hmap"
    using that by (metis distinct_card length_map set_map)
  have "fst (remove_fields fs m) + card (fst ` set m - set fs) = card (fst ` set m)"
    using remove_fields_count[OF wf, of fs] len[OF wf] len[OF remove_fields_wf[OF wf, of fs]] keys by simp
  moreover have "card (fst ` set m) = card (set fs \<inter> fst ` set m) + card (fst ` set m - set fs)"
    by (subst Int_commute) (rule card_Int_Diff, simp)
  ultimately have "fst (remove_fields fs m) = card (set fs \<inter> fst ` set m)" by simp
  then show ?thesis
    using kv_hdel_result[OF assms(2), of fs] remove_fields_get[of fs m] by (intro conjI exI[of _ ?m']) simp_all
qed

theorem hdel_exact_witness:
  "fst (kv_hdel sample_hash_store ''h'' [''a'', ''zz'', ''a'']) = Inr 1"
  using hdel_exact[OF sample_hash_facts(1,3), of "[''a'', ''zz'', ''a'']"] by simp

text \<open>\<open>hincrby\<close> keeps a decimal counter in a field: it returns the field's value plus the
  amount (wrapping at 64 bits), the field then reads as that number's text, the other fields are
  untouched, and increments accumulate exactly: the text parses back to the number written.\<close>

theorem hincrby_accumulates:
  assumes "validate_key s key = Inr ()" "hash_at s key = Some m" "visible now s key"
  shows "fst (kv_hincrby s key f a) = Inr (field_i64 m f + a)
     \<and> kv_hget now (snd (kv_hincrby s key f a)) key j =
         (if j = f then Inr (Some (show_i64 (field_i64 m f + a))) else Inr (hm_get m j))
     \<and> fst (kv_hincrby (snd (kv_hincrby s key f a)) key f b) = Inr (field_i64 m f + a + b)"
proof -
  note after = kv_hincrby_next[OF assms(1,2), of f a]
  have "validate_key (snd (kv_hincrby s key f a)) key = Inr ()"
    using assms(1) validate_key_cong[OF after(2)] by simp
  from kv_hincrby_fst[OF this after(1)] show ?thesis
    using kv_hincrby_fst[OF assms(1,2), of f a] kv_hincrby_spec(2)[OF assms, of f a j] by simp
qed

theorem hincrby_accumulates_witness:
  "fst (kv_hincrby sample_hash_store ''h'' ''a'' 41) = Inr 42"
  using hincrby_accumulates[OF sample_hash_facts(2-4), where f = "''a''" and a = 41 and j = "''a''" and b = 0]
  by (simp add: field_i64_def parse_i64_def parse_nat_def digit_val_def i64_MIN_def i64_MAX_def)

end
