(* ===== verification/Kv_Sketches.thy ===== *)
theory Kv_Sketches
  imports Kv_Lists
begin

section \<open>HyperLogLog commands (kv_store.rs)\<close>

text \<open>
  \<open>pfreserve\<close>, \<open>pfadd\<close>, \<open>pfcount\<close>, \<open>hll_info\<close> and \<open>pfmerge\<close> over the sketches of
  \<open>Hyper_Log_Log\<close>. The estimate \<open>count\<close> takes the \<open>f64\<close> arithmetic \<open>F\<close>, and \<open>add\<close> the hash
  function, as parameters.
\<close>

record hll_info_record =
  info_precision :: nat
  info_registers :: nat
  info_memory_bytes :: nat
  info_estimated_count :: u64

definition quoted :: "string \<Rightarrow> string" where
  "quoted k = [CHR 0x27] @ k @ [CHR 0x27]"

definition add_memory :: "nat \<Rightarrow> kv_store \<Rightarrow> kv_store" where
  "add_memory n s = s\<lparr>stats := (stats s)\<lparr>memory_bytes := memory_bytes (stats s) + n\<rparr>\<rparr>"

definition count_keys :: "kv_store \<Rightarrow> kv_store" where
  "count_keys s = s\<lparr>stats := (stats s)\<lparr>total_keys := length (store s)\<rparr>\<rparr>"

definition put_entry :: "string \<Rightarrow> kv_value \<Rightarrow> kv_store \<Rightarrow> kv_store" where
  "put_entry key v s = s\<lparr>store := hm_insert key \<lparr>entry_value = v, expires_at = None\<rparr> (store s)\<rparr>"

definition kv_pfreserve :: "kv_store \<Rightarrow> string \<Rightarrow> nat \<Rightarrow> unit result \<times> kv_store" where
  "kv_pfreserve s key prec =
     (case validate_key s key of Inl e \<Rightarrow> (Inl e, s) | Inr _ \<Rightarrow>
      if hm_get (store s) key \<noteq> None
      then (Inl (OperationFailed (''Key '' @ quoted key @ '' already exists'')), s)
      else
        let hll = hll_new prec;
            s1 = add_memory (estimate_value_size (VHyperLogLog hll)) s;
            s2 = count_write (count_keys (put_entry key (VHyperLogLog hll) s1))
        in (Inr (), update_lru key s2))"

definition kv_pfadd ::
  "'f f64_arith \<Rightarrow> (string \<Rightarrow> u64) \<Rightarrow> kv_store \<Rightarrow> string \<Rightarrow> string list \<Rightarrow> u64 result \<times> kv_store" where
  "kv_pfadd F hash s key vs =
     (case validate_key s key of Inl e \<Rightarrow> (Inl e, s) | Inr _ \<Rightarrow>
      if vs = [] then (Inl (InvalidValue ''PFADD requires at least one value''), s)
      else case hm_get (store s) key of
        Some e \<Rightarrow>
          (case entry_value e of
             VHyperLogLog hll \<Rightarrow>
               (let hll' = hll_add_all hash vs hll in
                (Inr (hll_count F hll'),
                 update_lru key (count_write (set_value key e (VHyperLogLog hll') s))))
           | other \<Rightarrow> (Inl (type_mismatch key ''HyperLogLog'' (type_name other)), s))
      | None \<Rightarrow>
          (let hll = hll_add_all hash vs hll_default;
               s1 = put_entry key (VHyperLogLog hll) s;
               s2 = count_keys (add_memory (estimate_value_size (VHyperLogLog hll_default)) s1)
           in (Inr (hll_count F hll), update_lru key (count_write s2))))"

definition kv_pfcount :: "'f f64_arith \<Rightarrow> u64 \<Rightarrow> kv_store \<Rightarrow> string \<Rightarrow> u64 result" where
  "kv_pfcount F now s key =
     (case kv_get now s key of
        Some (VHyperLogLog hll) \<Rightarrow> Inr (hll_count F hll)
      | Some other \<Rightarrow> Inl (type_mismatch key ''HyperLogLog'' (type_name other))
      | None \<Rightarrow> Inl (KeyNotFound key))"

definition kv_hll_info :: "'f f64_arith \<Rightarrow> u64 \<Rightarrow> kv_store \<Rightarrow> string \<Rightarrow> hll_info_record result" where
  "kv_hll_info F now s key =
     (case kv_get now s key of
        Some (VHyperLogLog hll) \<Rightarrow>
          Inr \<lparr>info_precision = precision hll, info_registers = register_count hll,
               info_memory_bytes = hll_memory_bytes hll, info_estimated_count = hll_count F hll\<rparr>
      | Some other \<Rightarrow> Inl (type_mismatch key ''HyperLogLog'' (type_name other))
      | None \<Rightarrow> Inl (KeyNotFound key))"

text \<open>The loop over the source keys: the destination and missing keys are skipped.\<close>

fun merge_sources ::
  "(string, value_with_ttl) hmap \<Rightarrow> string \<Rightarrow> string list \<Rightarrow> hyperloglog \<Rightarrow> hyperloglog result" where
  "merge_sources st dest [] merged = Inr merged"
| "merge_sources st dest (src # srcs) merged =
     (if src = dest then merge_sources st dest srcs merged
      else case hm_get st src of
        None \<Rightarrow> merge_sources st dest srcs merged
      | Some e \<Rightarrow>
          (case entry_value e of
             VHyperLogLog hll \<Rightarrow>
               (case hll_merge merged hll of
                  Inl err \<Rightarrow> Inl err
                | Inr merged' \<Rightarrow> merge_sources st dest srcs merged')
           | other \<Rightarrow> Inl (type_mismatch src ''HyperLogLog'' (type_name other))))"

definition merge_base :: "kv_store \<Rightarrow> string \<Rightarrow> hyperloglog result" where
  "merge_base s dest =
     (case hm_get (store s) dest of
        Some e \<Rightarrow> (case entry_value e of
                     VHyperLogLog hll \<Rightarrow> Inr hll
                   | other \<Rightarrow> Inl (type_mismatch dest ''HyperLogLog'' (type_name other)))
      | None \<Rightarrow> Inr hll_default)"

definition kv_pfmerge ::
  "'f f64_arith \<Rightarrow> kv_store \<Rightarrow> string \<Rightarrow> string list \<Rightarrow> u64 result \<times> kv_store" where
  "kv_pfmerge F s dest srcs =
     (case validate_key s dest of Inl e \<Rightarrow> (Inl e, s) | Inr _ \<Rightarrow>
      if srcs = [] then (Inl (InvalidValue ''PFMERGE requires at least one source key''), s)
      else case merge_base s dest of Inl e \<Rightarrow> (Inl e, s) | Inr base \<Rightarrow>
      case merge_sources (store s) dest srcs base of Inl e \<Rightarrow> (Inl e, s) | Inr merged \<Rightarrow>
      let created = (hm_get (store s) dest = None);
          s1 = put_entry dest (VHyperLogLog merged) s;
          s2 = (if created
                then count_keys (add_memory (estimate_value_size (VHyperLogLog merged)) s1) else s1)
      in (Inr (hll_count F merged), update_lru dest (count_write s2)))"

subsection \<open>The invariant\<close>

lemma sketch_frame[simp]:
  "store (add_memory n s) = store s" "lru_order (add_memory n s) = lru_order s"
  "transaction_queue (add_memory n s) = transaction_queue s" "config (add_memory n s) = config s"
  "store (count_keys s) = store s" "lru_order (count_keys s) = lru_order s"
  "transaction_queue (count_keys s) = transaction_queue s" "config (count_keys s) = config s"
  "store (put_entry key v s) = hm_insert key \<lparr>entry_value = v, expires_at = None\<rparr> (store s)"
  "lru_order (put_entry key v s) = lru_order s"
  "transaction_queue (put_entry key v s) = transaction_queue s" "config (put_entry key v s) = config s"
  by (simp_all add: add_memory_def count_keys_def put_entry_def)

lemma put_shape_inv:
  "kv_inv s \<Longrightarrow> key \<noteq> [] \<Longrightarrow> value_wf v \<Longrightarrow>
   store t = hm_insert key \<lparr>entry_value = v, expires_at = None\<rparr> (store s) \<Longrightarrow>
   lru_order t = lru_order s \<Longrightarrow> transaction_queue t = transaction_queue s \<Longrightarrow>
   kv_inv (update_lru key t)"
  by (simp add: kv_inv_def parts_inv_put)

lemma sketch_value_wf:
  "kv_inv s \<Longrightarrow> hm_get (store s) key = Some e \<Longrightarrow> entry_value e = VHyperLogLog h \<Longrightarrow> hll_wf h"
  unfolding kv_inv_def using parts_inv_value by fastforce

lemma kv_pfreserve_inv: "kv_inv s \<Longrightarrow> kv_inv (snd (kv_pfreserve s key prec))"
  by (auto simp: kv_pfreserve_def Let_def dest: validate_key_ok split: sum.splits
      intro!: put_shape_inv[of s])

lemma kv_pfadd_inv: "kv_inv s \<Longrightarrow> kv_inv (snd (kv_pfadd F hash s key vs))"
  by (auto simp: kv_pfadd_def Let_def hll_wf_add_all intro!: rewrite_inv
      dest: validate_key_ok sketch_value_wf split: sum.splits option.splits kv_value.splits)
     (auto intro!: put_shape_inv[of s] simp: hll_wf_add_all dest: validate_key_ok)

lemma merge_sources_wf:
  "(\<And>k e h. hm_get st k = Some e \<Longrightarrow> entry_value e = VHyperLogLog h \<Longrightarrow> hll_wf h) \<Longrightarrow>
   hll_wf m \<Longrightarrow> merge_sources st dest srcs m = Inr m' \<Longrightarrow> hll_wf m'"
proof (induction st dest srcs m rule: merge_sources.induct)
  case (2 st dest src srcs merged)
  show ?case
  proof (cases "src = dest \<or> hm_get st src = None")
    case True
    with 2 show ?thesis by (auto split: if_splits)
  next
    case False
    then obtain e where e: "src \<noteq> dest" "hm_get st src = Some e" by auto
    with 2(6) obtain h m1 where h: "entry_value e = VHyperLogLog h" "hll_merge merged h = Inr m1"
      "merge_sources st dest srcs m1 = Inr m'"
      by (auto split: kv_value.splits sum.splits)
    have "hll_wf h" using 2(4)[OF e(2) h(1)] .
    have "hll_wf m1" using hll_wf_merge[OF 2(5) \<open>hll_wf h\<close> h(2)] .
    with 2(3)[OF e h(1,2)] 2(4) h(3) show ?thesis by blast
  qed
qed simp

lemma merge_base_wf: "kv_inv s \<Longrightarrow> merge_base s dest = Inr h \<Longrightarrow> hll_wf h"
  by (auto simp: merge_base_def dest: sketch_value_wf split: option.splits kv_value.splits)

lemma kv_pfmerge_inv:
  assumes "kv_inv s"
  shows "kv_inv (snd (kv_pfmerge F s dest srcs))"
proof -
  have "hll_wf m" if "merge_base s dest = Inr b" "merge_sources (store s) dest srcs b = Inr m" for b m
    using merge_sources_wf[OF sketch_value_wf[OF assms] merge_base_wf[OF assms that(1)] that(2)] .
  with assms show ?thesis
    by (auto simp: kv_pfmerge_def Let_def dest: validate_key_ok split: sum.splits
        intro!: put_shape_inv[of s])
qed

subsection \<open>Functional behaviour\<close>

text \<open>The sketch a key holds; a missing key counts as the empty default sketch.\<close>

definition sketch_at :: "kv_store \<Rightarrow> string \<Rightarrow> hyperloglog option" where
  "sketch_at s key = (case merge_base s key of Inl _ \<Rightarrow> None | Inr h \<Rightarrow> Some h)"

lemma sketch_at_cases:
  assumes "sketch_at s key = Some h"
  obtains "hm_get (store s) key = None" "h = hll_default"
  | e where "hm_get (store s) key = Some e" "entry_value e = VHyperLogLog h"
  using assms by (auto simp: sketch_at_def merge_base_def split: option.splits kv_value.splits)

lemma sketch_at_put:
  "hm_get (store t) key = Some e \<Longrightarrow> entry_value e = VHyperLogLog h \<Longrightarrow> sketch_at t key = Some h"
  by (simp add: sketch_at_def merge_base_def)

lemma kv_pfadd_sketch:
  assumes "validate_key s key = Inr ()" "vs \<noteq> []" "sketch_at s key = Some h"
  shows "sketch_at (snd (kv_pfadd F hash s key vs)) key = Some (hll_add_all hash vs h)"
    and "fst (kv_pfadd F hash s key vs) = Inr (hll_count F (hll_add_all hash vs h))"
  by (cases rule: sketch_at_cases[OF assms(3)];
      use assms in \<open>auto simp: kv_pfadd_def Let_def intro!: sketch_at_put\<close>)+

text \<open>
  A merge of keys of one precision that all hold sketches succeeds and stores an upper bound of
  the destination and of every source, the least one.
\<close>

definition mergeable :: "kv_store \<Rightarrow> string \<Rightarrow> hyperloglog \<Rightarrow> bool" where
  "mergeable s src h \<longleftrightarrow>
     (\<forall>e. hm_get (store s) src = Some e \<longrightarrow>
        (\<exists>k. entry_value e = VHyperLogLog k \<and> precision k = precision h \<and> hll_wf k))"

text \<open>The sketches a merge reads: those of the sources other than the destination.\<close>

definition source_sketches :: "kv_store \<Rightarrow> string \<Rightarrow> string list \<Rightarrow> hyperloglog set" where
  "source_sketches s dest srcs =
     {k. \<exists>src e. src \<in> set srcs \<and> src \<noteq> dest \<and> hm_get (store s) src = Some e \<and> entry_value e = VHyperLogLog k}"

lemma source_sketches_skip:
  "src = dest \<or> hm_get (store s) src = None \<Longrightarrow>
   source_sketches s dest (src # srcs) = source_sketches s dest srcs"
  by (auto simp: source_sketches_def)

lemma source_sketches_Cons:
  "src \<noteq> dest \<Longrightarrow> hm_get (store s) src = Some e \<Longrightarrow> entry_value e = VHyperLogLog k \<Longrightarrow>
   source_sketches s dest (src # srcs) = insert k (source_sketches s dest srcs)"
  by (auto simp: source_sketches_def)

lemma merge_sources_bounds:
  assumes "hll_wf m" "\<forall>src \<in> set srcs. src \<noteq> dest \<longrightarrow> mergeable s src m"
  shows "\<exists>m'. merge_sources (store s) dest srcs m = Inr m' \<and> m \<le> m'
     \<and> (\<forall>k \<in> source_sketches s dest srcs. k \<le> m')
     \<and> (\<forall>u. m \<le> u \<and> (\<forall>k \<in> source_sketches s dest srcs. k \<le> u) \<longrightarrow> m' \<le> u)"
  using assms
proof (induction srcs arbitrary: m)
  case Nil
  then show ?case by (simp add: source_sketches_def)
next
  case (Cons src srcs)
  show ?case
  proof (cases "src = dest \<or> hm_get (store s) src = None")
    case True
    then have "merge_sources (store s) dest (src # srcs) m = merge_sources (store s) dest srcs m"
      by auto
    with Cons.IH[OF Cons.prems(1)] Cons.prems(2) show ?thesis
      by (simp add: source_sketches_skip[OF True])
  next
    case False
    then obtain e where e: "src \<noteq> dest" "hm_get (store s) src = Some e" by auto
    with Cons.prems(2) obtain k where k: "entry_value e = VHyperLogLog k" "precision k = precision m" "hll_wf k"
      by (auto simp: mergeable_def)
    then obtain m1 where m1: "hll_merge m k = Inr m1" by (auto simp: hll_merge_def)
    note lub = hll_merge_lub[OF Cons.prems(1) k(3) m1]
    have wf1: "hll_wf m1" and p1: "precision m1 = precision m"
      using hll_wf_merge[OF Cons.prems(1) k(3) m1] hll_mergeD[OF m1] by auto
    have "\<forall>src' \<in> set srcs. src' \<noteq> dest \<longrightarrow> mergeable s src' m1"
      using Cons.prems(2) p1 by (auto simp: mergeable_def)
    from Cons.IH[OF wf1 this] obtain m' where m': "merge_sources (store s) dest srcs m1 = Inr m'"
      "m1 \<le> m'" "\<forall>k \<in> source_sketches s dest srcs. k \<le> m'"
      "\<And>u. m1 \<le> u \<Longrightarrow> \<forall>k \<in> source_sketches s dest srcs. k \<le> u \<Longrightarrow> m' \<le> u"
      by blast
    have "merge_sources (store s) dest (src # srcs) m = Inr m'" using e k m1 m'(1) by simp
    moreover have "m \<le> m'" "k \<le> m'" using lub(1,2) m'(2) by (blast intro: order.trans)+
    ultimately show ?thesis
      using m'(3,4) lub(3) by (intro exI[of _ m']) (simp add: source_sketches_Cons[OF e k(1)])
  qed
qed

lemma kv_pfadd_config[simp]: "config (snd (kv_pfadd F hash s key vs)) = config s"
  by (auto simp: kv_pfadd_def Let_def split: sum.splits option.splits kv_value.splits)

lemma validate_key_pfadd: "validate_key (snd (kv_pfadd F hash s key vs)) k = validate_key s k"
  by (simp add: validate_key_def)

lemma hll_add_all_append: "hll_add_all hash ws (hll_add_all hash vs h) = hll_add_all hash (vs @ ws) h"
  by (simp add: hll_add_all_def)

subsection \<open>Properties\<close>

text \<open>\<open>PFADD\<close> counts a set: the sketch it leaves and the count it returns depend only on which
  values were added, not on their order or multiplicity, and adding values a second time changes
  neither.\<close>

theorem pfadd_counts_a_set:
  assumes "validate_key s key = Inr ()" "sketch_at s key = Some h" "vs \<noteq> []" "set ws = set vs"
  shows "fst (kv_pfadd F hash s key ws) = fst (kv_pfadd F hash s key vs)
     \<and> sketch_at (snd (kv_pfadd F hash s key ws)) key = sketch_at (snd (kv_pfadd F hash s key vs)) key
     \<and> fst (kv_pfadd F hash (snd (kv_pfadd F hash s key vs)) key ws) = fst (kv_pfadd F hash s key vs)
     \<and> sketch_at (snd (kv_pfadd F hash (snd (kv_pfadd F hash s key vs)) key ws)) key
         = sketch_at (snd (kv_pfadd F hash s key vs)) key"
proof -
  have ws: "ws \<noteq> []" using assms(3,4) by auto
  note a = kv_pfadd_sketch[OF assms(1,3,2), of F hash] and b = kv_pfadd_sketch[OF assms(1) ws assms(2), of F hash]
  have "validate_key (snd (kv_pfadd F hash s key vs)) key = Inr ()"
    using assms(1) by (simp add: validate_key_pfadd)
  note c = kv_pfadd_sketch[OF this ws a(1), of F hash]
  have 1: "hll_add_all hash ws h = hll_add_all hash vs h" by (rule hll_add_all_set[OF assms(4)])
  have 2: "hll_add_all hash (vs @ ws) h = hll_add_all hash vs h"
    by (rule hll_add_all_set) (simp add: assms(4))
  show ?thesis unfolding a b c hll_add_all_append 1 2 by simp
qed

theorem pfadd_counts_a_set_witness:
  "\<forall>F hash. fst (kv_pfadd F hash kv_new ''k'' [''y'', ''x'', ''y'']) = fst (kv_pfadd F hash kv_new ''k'' [''x'', ''y''])"
proof -
  have "fst (kv_pfadd F hash kv_new ''k'' [''y'', ''x'', ''y'']) = fst (kv_pfadd F hash kv_new ''k'' [''x'', ''y''])" for F hash
  proof -
    have "validate_key kv_new ''k'' = Inr ()" "sketch_at kv_new ''k'' = Some hll_default"
      by (simp_all add: kv_new_def with_config_def validate_key_def default_config_def
          default_max_key_size_def sketch_at_def merge_base_def)
    moreover have "set [''y'', ''x'', ''y''] = set [''x'', ''y'']" by auto
    ultimately show ?thesis
      using pfadd_counts_a_set[of kv_new "''k''" hll_default "[''x'', ''y'']" "[''y'', ''x'', ''y'']" F hash]
      by blast
  qed
  then show ?thesis by blast
qed

text \<open>C17: \<open>PFMERGE\<close> stores the least upper bound. Where the destination and every present source
  hold sketches of one precision, the merge succeeds, returns the count of what it stored, and
  what it stored is above the destination and every source and below every other such sketch.\<close>

theorem pfmerge_least_upper_bound:
  assumes "kv_inv s" "validate_key s dest = Inr ()" "srcs \<noteq> []" "sketch_at s dest = Some base"
    "\<forall>src \<in> set srcs. src \<noteq> dest \<longrightarrow> mergeable s src base"
  shows "\<exists>m. fst (kv_pfmerge F s dest srcs) = Inr (hll_count F m)
     \<and> sketch_at (snd (kv_pfmerge F s dest srcs)) dest = Some m
     \<and> base \<le> m \<and> (\<forall>k \<in> source_sketches s dest srcs. k \<le> m)
     \<and> (\<forall>u. base \<le> u \<and> (\<forall>k \<in> source_sketches s dest srcs. k \<le> u) \<longrightarrow> m \<le> u)"
proof -
  from assms(4) have b: "merge_base s dest = Inr base"
    by (auto simp: sketch_at_def split: sum.splits)
  from merge_sources_bounds[OF merge_base_wf[OF assms(1) b] assms(5)] obtain m where m:
    "merge_sources (store s) dest srcs base = Inr m" "base \<le> m"
    "\<forall>k \<in> source_sketches s dest srcs. k \<le> m"
    "\<forall>u. base \<le> u \<and> (\<forall>k \<in> source_sketches s dest srcs. k \<le> u) \<longrightarrow> m \<le> u" by blast
  have "sketch_at (snd (kv_pfmerge F s dest srcs)) dest = Some m"
    using assms(2,3) b m(1)
    by (intro sketch_at_put[where e = "\<lparr>entry_value = VHyperLogLog m, expires_at = None\<rparr>"])
       (simp_all add: kv_pfmerge_def Let_def)
  moreover have "fst (kv_pfmerge F s dest srcs) = Inr (hll_count F m)"
    using assms(2,3) b m(1) by (simp add: kv_pfmerge_def Let_def)
  ultimately show ?thesis using m(2-4) by blast
qed

theorem pfmerge_least_upper_bound_witness:
  "\<forall>F. \<exists>m. sketch_at (snd (kv_pfmerge F kv_new ''d'' [''x''])) ''d'' = Some m \<and> hll_default \<le> m"
proof -
  have "\<exists>m. sketch_at (snd (kv_pfmerge F kv_new ''d'' [''x''])) ''d'' = Some m \<and> hll_default \<le> m" for F
  proof -
    have "kv_inv kv_new" "validate_key kv_new ''d'' = Inr ()" "sketch_at kv_new ''d'' = Some hll_default"
      "mergeable kv_new ''x'' hll_default"
      by (simp_all add: kv_new_def kv_inv_new) (simp_all add: with_config_def validate_key_def
          default_config_def default_max_key_size_def sketch_at_def merge_base_def mergeable_def)
    with pfmerge_least_upper_bound[of kv_new "''d''" "[''x'']" hll_default F] show ?thesis by auto
  qed
  then show ?thesis by blast
qed

end
