(* ===== verification/Kv_Glob.thy ===== *)
theory Kv_Glob
  imports Kv_Core_Props
begin

section \<open>Glob patterns and \<open>keys\<close> (kv_store.rs)\<close>

text \<open>
  \<open>matches_glob\<close> collects the characters of both texts into vectors and walks them with two
  indices; a star tries every position from the current one to the end. The reference meaning is
  \<open>globs\<close>: the text splits into one segment per pattern character, any segment for a star, one
  character for a question mark, and the character itself otherwise.
\<close>

definition star :: string where "star = ''*''"
definition question :: string where "question = ''?''"

text \<open>
  The recursion starts at (0, 0) and moves \<open>pi\<close> by one at most, so \<open>pi\<close> never passes the
  length: \<open>\<ge>\<close> in the first test is the code's equality.
\<close>

function match_recursive :: "string list \<Rightarrow> string list \<Rightarrow> nat \<Rightarrow> nat \<Rightarrow> bool" where
  "match_recursive tcs pat ti pi =
     (if pi \<ge> length pat then ti = length tcs
      else if pat ! pi = star then
        list_ex (\<lambda>i. match_recursive tcs pat i (pi + 1)) [ti..<length tcs + 1]
      else if ti < length tcs \<and> (pat ! pi = question \<or> pat ! pi = tcs ! ti) then
        match_recursive tcs pat (ti + 1) (pi + 1)
      else False)"
  by pat_completeness auto
termination
  by (relation "measure (\<lambda>(tcs, pat, ti, pi). length pat - pi)") auto

declare match_recursive.simps [simp del]

definition matches_glob :: "string \<Rightarrow> string \<Rightarrow> bool" where
  "matches_glob tcs pat = match_recursive (chars tcs) (chars pat) 0 0"

definition kv_keys :: "u64 \<Rightarrow> kv_store \<Rightarrow> string \<Rightarrow> string list" where
  "kv_keys now s pat =
     filter (\<lambda>key.
       if (case hm_get (store s) key of
             Some e \<Rightarrow> (case expires_at e of Some exp \<Rightarrow> now > exp | None \<Rightarrow> False)
           | None \<Rightarrow> False)
       then False
       else matches_glob key pat) (hm_keys (store s))"

subsection \<open>The reference meaning\<close>

definition segment_ok :: "string \<Rightarrow> string list \<Rightarrow> bool" where
  "segment_ok p seg \<longleftrightarrow> (p = star \<or> (if p = question then length seg = 1 else seg = [p]))"

definition globs :: "string list \<Rightarrow> string list \<Rightarrow> bool" where
  "globs pat tcs \<longleftrightarrow> (\<exists>segs. list_all2 segment_ok pat segs \<and> concat segs = tcs)"

lemma globs_Nil[simp]: "globs [] tcs \<longleftrightarrow> tcs = []"
  by (auto simp: globs_def)

lemma globs_Cons: "globs (p # pat) tcs \<longleftrightarrow> (\<exists>a b. tcs = a @ b \<and> segment_ok p a \<and> globs pat b)"
proof
  assume "globs (p # pat) tcs"
  then show "\<exists>a b. tcs = a @ b \<and> segment_ok p a \<and> globs pat b"
    unfolding globs_def by (force simp: list_all2_Cons1)
next
  assume "\<exists>a b. tcs = a @ b \<and> segment_ok p a \<and> globs pat b"
  then obtain a segs where "tcs = concat (a # segs)" "list_all2 segment_ok (p # pat) (a # segs)"
    unfolding globs_def by auto
  then show "globs (p # pat) tcs" unfolding globs_def by blast
qed

lemma globs_star: "globs (star # pat) tcs \<longleftrightarrow> (\<exists>i \<le> length tcs. globs pat (drop i tcs))"
proof
  assume "globs (star # pat) tcs"
  then obtain a b where "tcs = a @ b" "globs pat b" by (auto simp: globs_Cons)
  then show "\<exists>i \<le> length tcs. globs pat (drop i tcs)" by (intro exI[of _ "length a"]) simp
next
  assume "\<exists>i \<le> length tcs. globs pat (drop i tcs)"
  then obtain i where "globs pat (drop i tcs)" by auto
  then show "globs (star # pat) tcs"
    unfolding globs_Cons
    by (intro exI[of _ "take i tcs"] exI[of _ "drop i tcs"]) (simp add: segment_ok_def)
qed

lemma globs_one:
  assumes "p \<noteq> star"
  shows "globs (p # pat) tcs \<longleftrightarrow>
     (case tcs of [] \<Rightarrow> False | c # cs \<Rightarrow> (p = question \<or> p = c) \<and> globs pat cs)"
proof -
  have seg: "segment_ok p a \<longleftrightarrow> (\<exists>c. a = [c] \<and> (p = question \<or> p = c))" for a
    using assms by (auto simp: segment_ok_def length_Suc_conv)
  have "globs (p # pat) tcs \<longleftrightarrow> (\<exists>c b. tcs = c # b \<and> (p = question \<or> p = c) \<and> globs pat b)"
    unfolding globs_Cons seg by (metis append_Cons append_Nil)
  then show ?thesis by (cases tcs) simp_all
qed

lemma match_end: "pi \<ge> length pat \<Longrightarrow> match_recursive tcs pat ti pi = (ti = length tcs)"
  by (subst match_recursive.simps) simp

lemma match_star:
  "pi < length pat \<Longrightarrow> pat ! pi = star \<Longrightarrow>
   match_recursive tcs pat ti pi = (\<exists>i. ti \<le> i \<and> i \<le> length tcs \<and> match_recursive tcs pat i (pi + 1))"
  by (subst match_recursive.simps) (auto simp: list_ex_iff)

lemma match_one:
  "pi < length pat \<Longrightarrow> pat ! pi \<noteq> star \<Longrightarrow>
   match_recursive tcs pat ti pi =
     (ti < length tcs \<and> (pat ! pi = question \<or> pat ! pi = tcs ! ti)
      \<and> match_recursive tcs pat (ti + 1) (pi + 1))"
  by (subst match_recursive.simps) simp

lemma match_recursive_globs:
  "ti \<le> length tcs \<Longrightarrow> pi \<le> length pat \<Longrightarrow>
   match_recursive tcs pat ti pi \<longleftrightarrow> globs (drop pi pat) (drop ti tcs)"
proof (induction "length pat - pi" arbitrary: pi ti)
  case 0
  then show ?case by (auto simp: match_end)
next
  case (Suc n)
  then have pi: "pi < length pat" "n = length pat - (pi + 1)" by simp_all
  have d: "drop pi pat = pat ! pi # drop (pi + 1) pat"
    using pi by (simp add: Cons_nth_drop_Suc)
  note IH = Suc.hyps(1)[OF pi(2)]
  show ?case
  proof (cases "pat ! pi = star")
    case True
    have "match_recursive tcs pat ti pi \<longleftrightarrow>
        (\<exists>i. ti \<le> i \<and> i \<le> length tcs \<and> globs (drop (pi + 1) pat) (drop i tcs))"
      using pi True IH by (auto simp: match_star)
    also have "\<dots> \<longleftrightarrow> (\<exists>j \<le> length tcs - ti. globs (drop (pi + 1) pat) (drop (j + ti) tcs))"
      using Suc.prems(1) by (metis le_add_diff_inverse2 le_diff_conv add_le_mono1 le_add2)
    finally show ?thesis using True d by (simp add: globs_star)
  next
    case False
    show ?thesis
    proof (cases "ti < length tcs")
      case True
      then have "drop ti tcs = tcs ! ti # drop (ti + 1) tcs" by (simp add: Cons_nth_drop_Suc)
      with True False pi d IH[of "ti + 1"] show ?thesis by (simp add: match_one globs_one)
    next
      case nt: False
      with False pi d show ?thesis by (simp add: match_one globs_one)
    qed
  qed
qed

lemma matches_glob_globs: "matches_glob tcs pat \<longleftrightarrow> globs (chars pat) (chars tcs)"
  by (simp add: matches_glob_def match_recursive_globs)

lemma chars_inject: "chars a = chars b \<Longrightarrow> a = b"
  by (metis concat_chars)

lemma globs_literal: "star \<notin> set pat \<Longrightarrow> question \<notin> set pat \<Longrightarrow> globs pat tcs \<longleftrightarrow> tcs = pat"
proof (induction pat arbitrary: tcs)
  case (Cons p pat)
  then have "p \<noteq> star" "p \<noteq> question" by auto
  with Cons show ?case by (cases tcs) (auto simp: globs_one)
qed simp

lemma kv_keys_eq: "set (kv_keys now s pat) = {k. kv_get now s k \<noteq> None \<and> matches_glob k pat}"
proof (rule set_eqI)
  fix k
  show "k \<in> set (kv_keys now s pat) \<longleftrightarrow> k \<in> {k. kv_get now s k \<noteq> None \<and> matches_glob k pat}"
  proof (cases "hm_get (store s) k")
    case None
    then show ?thesis using hm_get_None[of "store s" k] by (auto simp: kv_keys_def kv_get_def)
  next
    case (Some e)
    then have "k \<in> fst ` set (store s)" using hm_get_None[of "store s" k] by force
    with Some show ?thesis
      by (cases "expires_at e") (auto simp: kv_keys_def kv_get_def live_value_def)
  qed
qed

lemma kv_keys_distinct: "kv_inv s \<Longrightarrow> distinct (kv_keys now s pat)"
  by (simp add: kv_keys_def kv_inv_def parts_inv_def)

subsection \<open>Properties\<close>

text \<open>C18: Glob matching is correct and complete: the text matches exactly when it can be cut into one
  segment per pattern character, a star taking any segment, a question mark one character and any
  other character itself. A pattern without wildcards therefore matches itself only.\<close>

theorem glob_matches_segments:
  "(matches_glob t p \<longleftrightarrow> (\<exists>segs. list_all2 segment_ok (chars p) segs \<and> concat segs = chars t))
   \<and> (star \<notin> set (chars p) \<and> question \<notin> set (chars p) \<longrightarrow> (matches_glob t p \<longleftrightarrow> t = p))"
  using globs_literal[of "chars p" "chars t"] chars_inject[of t p]
  by (auto simp: matches_glob_globs globs_def[symmetric])

theorem glob_matches_segments_witness:
  "matches_glob ''user:1'' ''user:1'' \<and> \<not> matches_glob ''user:2'' ''user:1''"
proof -
  have "star \<notin> set (chars ''user:1'')" "question \<notin> set (chars ''user:1'')"
    by (simp_all add: star_def question_def is_continuation_def)
  with glob_matches_segments[of "''user:1''" "''user:1''"] glob_matches_segments[of "''user:2''" "''user:1''"]
  show ?thesis by blast
qed

text \<open>\<open>keys\<close> lists exactly the readable keys that match, each once.\<close>

theorem keys_lists_matches:
  assumes "kv_inv s"
  shows "set (kv_keys now s p) = {k. kv_get now s k \<noteq> None \<and> globs (chars p) (chars k)}
     \<and> distinct (kv_keys now s p)"
  using kv_keys_distinct[OF assms] by (simp only: kv_keys_eq matches_glob_globs)

theorem keys_lists_matches_witness:
  "set (kv_keys 7 kv_new ''*'') = {}"
  using keys_lists_matches[OF kv_inv_new[of default_config], of 7 "''*''"]
  by (simp add: kv_new_def kv_get_def with_config_def)

end
