(* ===== verification/Kv_Persist.thy ===== *)
theory Kv_Persist
  imports Kv_Core_Props
begin

section \<open>Persistence and the memory profile (kv_store.rs)\<close>

text \<open>
  \<open>compression_for_path\<close>, \<open>save_to_file\<close>, \<open>load_from_file\<close>, \<open>save_with_version\<close> and
  \<open>memory_profile\<close>. A disk is the list of regular files of one directory, each with its bytes and
  modification time; the path of a store is a file name in it. The serialisers (\<open>serde_json\<close>,
  \<open>flate2\<close>, \<open>zstd\<close>) are a parameter \<open>codec\<close>; whether a file operation fails is a parameter \<open>io\<close>,
  so that every error return is a branch.
\<close>

subsection \<open>Paths\<close>

datatype file_compression = NoCompression | Gzip | Zstd

text \<open>
  \<open>Path::extension\<close>: what follows the last dot of the file name, unless that dot is its first
  character (or the name is two dots).
\<close>

definition dot :: char where "dot = CHR 0x2E"

definition path_extension :: "string \<Rightarrow> string option" where
  "path_extension name =
     (if name = [dot, dot] \<or> dot \<notin> set name then None
      else let ext = rev (takeWhile (\<lambda>c. c \<noteq> dot) (rev name));
               stem = take (length name - length ext - 1) name
           in if stem = [] then None else Some ext)"

definition file_stem :: "string \<Rightarrow> string" where
  "file_stem name =
     (case path_extension name of
        None \<Rightarrow> name
      | Some ext \<Rightarrow> take (length name - length ext - 1) name)"

text \<open>\<open>Path::with_extension\<close> of a non-empty extension.\<close>

definition with_extension :: "string \<Rightarrow> string \<Rightarrow> string" where
  "with_extension name ext = file_stem name @ dot # ext"

definition compression_for_path :: "string \<Rightarrow> file_compression" where
  "compression_for_path name =
     (case path_extension name of
        Some ext \<Rightarrow> if ext = ''gz'' then Gzip else if ext = ''zst'' then Zstd else NoCompression
      | None \<Rightarrow> NoCompression)"

definition tmp_path :: "string \<Rightarrow> string" where
  "tmp_path name =
     (case path_extension name of
        Some ext \<Rightarrow> with_extension name (ext @ ''.tmp'')
      | None \<Rightarrow> with_extension name ''tmp'')"

subsection \<open>Files\<close>

record disk_file =
  file_bytes :: string
  modified :: nat

type_synonym disk = "(string, disk_file) hmap"

text \<open>
  The serialised part of the store: \<open>store\<close> and \<open>stats\<close>; the other fields are \<open>serde(skip)\<close>.
\<close>

type_synonym image = "(string, value_with_ttl) hmap \<times> store_stats"

record codec =
  encode :: "file_compression \<Rightarrow> image \<Rightarrow> string"
  decode :: "file_compression \<Rightarrow> string \<Rightarrow> image option"

text \<open>
  Outcomes of the file operations: whether each succeeds, and the bytes a failed write leaves.
\<close>

record io =
  copy_ok :: bool
  read_dir_ok :: bool
  remove_ok :: "string \<Rightarrow> bool"
  create_ok :: bool
  write_fails :: "string option"
  rename_ok :: bool

definition image_of :: "kv_store \<Rightarrow> image" where
  "image_of s = (store s, stats s)"

definition write_file :: "nat \<Rightarrow> string \<Rightarrow> string \<Rightarrow> disk \<Rightarrow> disk" where
  "write_file t name bytes d = hm_insert name \<lparr>file_bytes = bytes, modified = t\<rparr> d"

definition save_to_file :: "codec \<Rightarrow> io \<Rightarrow> nat \<Rightarrow> string \<Rightarrow> kv_store \<Rightarrow> disk \<Rightarrow> bool \<times> disk" where
  "save_to_file C io t name s d =
     (if \<not> create_ok io then (False, d)
      else case write_fails io of
        Some partial \<Rightarrow> (False, write_file t name partial d)
      | None \<Rightarrow> (True, write_file t name (encode C (compression_for_path name) (image_of s)) d))"

text \<open>\<open>load_from_file\<close>: the skipped fields take their defaults, the LRU list the keys.\<close>

definition restore :: "image \<Rightarrow> kv_store" where
  "restore img = \<lparr> store = fst img, stats = snd img, config = default_config,
     lru_order = hm_keys (fst img), transaction_queue = None, pending_keyspace_events = [] \<rparr>"

definition load_from_file :: "codec \<Rightarrow> string \<Rightarrow> disk \<Rightarrow> kv_store option" where
  "load_from_file C name d =
     (case hm_get d name of
        None \<Rightarrow> None
      | Some f \<Rightarrow> map_option restore (decode C (compression_for_path name) (file_bytes f)))"

subsection \<open>Versioned save\<close>

definition backup_prefix :: "string \<Rightarrow> string" where
  "backup_prefix name = name @ ''.bak.''"

definition backups_of :: "string \<Rightarrow> disk \<Rightarrow> string list" where
  "backups_of name d =
     map fst (sort_key (\<lambda>(k, f). modified f)
       (filter (\<lambda>(k, f). take (length (backup_prefix name)) k = backup_prefix name) d))"

text \<open>The pruning loop: the oldest backup goes first; a failed removal is ignored.\<close>

fun prune_backups :: "io \<Rightarrow> nat \<Rightarrow> string list \<Rightarrow> disk \<Rightarrow> disk" where
  "prune_backups io max_versions [] d = d"
| "prune_backups io max_versions (oldest # newer) d =
     (if length (oldest # newer) > max_versions
      then prune_backups io max_versions newer (if remove_ok io oldest then hm_remove oldest d else d)
      else d)"

definition backup_existing ::
  "io \<Rightarrow> nat \<Rightarrow> u64 \<Rightarrow> string \<Rightarrow> nat \<Rightarrow> disk \<Rightarrow> bool \<times> disk" where
  "backup_existing io t epoch name max_versions d =
     (case hm_get d name of
        None \<Rightarrow> (True, d)
      | Some old \<Rightarrow>
          if \<not> copy_ok io then (False, d)
          else let d1 = write_file t (backup_prefix name @ show_u64 epoch) (file_bytes old) d
               in if \<not> read_dir_ok io then (False, d1)
                  else (True, prune_backups io max_versions (backups_of name d1) d1))"

definition write_temp :: "codec \<Rightarrow> io \<Rightarrow> nat \<Rightarrow> string \<Rightarrow> kv_store \<Rightarrow> disk \<Rightarrow> bool \<times> disk" where
  "write_temp C io t name s d =
     (if \<not> create_ok io then (False, d)
      else case write_fails io of
        Some partial \<Rightarrow> (False, write_file t (tmp_path name) partial d)
      | None \<Rightarrow> (True, write_file t (tmp_path name) (encode C (compression_for_path name) (image_of s)) d))"

definition rename_file :: "string \<Rightarrow> string \<Rightarrow> disk \<Rightarrow> disk" where
  "rename_file src dst d =
     (case hm_get d src of Some f \<Rightarrow> hm_insert dst f (hm_remove src d) | None \<Rightarrow> d)"

definition save_with_version ::
  "codec \<Rightarrow> io \<Rightarrow> nat \<Rightarrow> u64 \<Rightarrow> string \<Rightarrow> nat \<Rightarrow> kv_store \<Rightarrow> disk \<Rightarrow> bool \<times> disk" where
  "save_with_version C io t epoch name max_versions s d =
     (let (ok1, d1) = backup_existing io t epoch name max_versions d in
      if \<not> ok1 then (False, d1)
      else let (ok2, d2) = write_temp C io t name s d1 in
      if \<not> ok2 then (False, d2)
      else if \<not> rename_ok io then (False, d2)
      else (True, rename_file (tmp_path name) name d2))"

subsection \<open>Memory profile\<close>

record 'f memory_profile =
  total_bytes :: nat
  key_bytes :: nat
  value_bytes :: nat
  string_values :: nat
  int_values :: nat
  float_values :: nat
  bool_values :: nat
  json_values :: nat
  hyperloglog_values :: nat
  list_values :: nat
  ttl_entries :: nat
  heap_fragmentation_ratio :: 'f

definition empty_profile :: "'f f64_arith \<Rightarrow> 'f memory_profile" where
  "empty_profile F = \<lparr> total_bytes = 0, key_bytes = 0, value_bytes = 0, string_values = 0,
     int_values = 0, float_values = 0, bool_values = 0, json_values = 0, hyperloglog_values = 0,
     list_values = 0, ttl_entries = 0, heap_fragmentation_ratio = f_lit F ''0.0'' \<rparr>"

fun profile_value :: "kv_value \<Rightarrow> 'f memory_profile \<Rightarrow> 'f memory_profile" where
  "profile_value (VStr t) p =
     p\<lparr>value_bytes := value_bytes p + length t, string_values := string_values p + 1\<rparr>"
| "profile_value (VInt _) p = p\<lparr>value_bytes := value_bytes p + 8, int_values := int_values p + 1\<rparr>"
| "profile_value (VFloat _) p = p\<lparr>value_bytes := value_bytes p + 8, float_values := float_values p + 1\<rparr>"
| "profile_value (VBool _) p = p\<lparr>value_bytes := value_bytes p + 1, bool_values := bool_values p + 1\<rparr>"
| "profile_value (VJson j) p =
     p\<lparr>value_bytes := value_bytes p + length j, json_values := json_values p + 1\<rparr>"
| "profile_value (VHyperLogLog h) p =
     p\<lparr>value_bytes := value_bytes p + hll_memory_bytes h, hyperloglog_values := hyperloglog_values p + 1\<rparr>"
| "profile_value (VList items) p =
     p\<lparr>value_bytes := value_bytes p + (sum_list (map length items) + 24), list_values := list_values p + 1\<rparr>"
| "profile_value (VHash m) p =
     p\<lparr>value_bytes := value_bytes p + (sum_list (map (\<lambda>(k, v). length k + length v) m) + 48)\<rparr>"

definition profile_entry :: "string \<times> value_with_ttl \<Rightarrow> 'f memory_profile \<Rightarrow> 'f memory_profile" where
  "profile_entry ke p =
     (let p1 = p\<lparr>key_bytes := key_bytes p + length (fst ke)\<rparr>;
          p2 = profile_value (entry_value (snd ke)) p1
      in if expires_at (snd ke) \<noteq> None then p2\<lparr>ttl_entries := ttl_entries p2 + 8\<rparr> else p2)"

text \<open>\<open>capacity\<close> is the hash table's, at least its length.\<close>

definition kv_memory_profile :: "'f f64_arith \<Rightarrow> nat \<Rightarrow> kv_store \<Rightarrow> 'f memory_profile" where
  "kv_memory_profile F capacity s =
     (let p = fold profile_entry (store s) (empty_profile F);
          p1 = p\<lparr>total_bytes := key_bytes p + value_bytes p + ttl_entries p\<rparr>;
          p2 = (if capacity > 0
                then p1\<lparr>heap_fragmentation_ratio :=
                       f_div F (f_of_nat F (capacity - length (store s))) (f_of_nat F capacity)\<rparr>
                else p1)
      in p2\<lparr>total_bytes := memory_bytes (stats s)\<rparr>)"

subsection \<open>The temporary file\<close>

lemma tmp_path_eq: "tmp_path name = name @ ''.tmp''"
proof (cases "path_extension name")
  case None
  then show ?thesis by (simp add: tmp_path_def with_extension_def file_stem_def dot_def)
next
  case (Some ext)
  then have n: "dot \<in> set name" and ext: "ext = rev (takeWhile (\<lambda>c. c \<noteq> dot) (rev name))"
    by (auto simp: path_extension_def Let_def split: if_splits)
  have "\<exists>rest. dropWhile (\<lambda>c. c \<noteq> dot) (rev name) = dot # rest"
    using n by (metis (mono_tags, lifting) dropWhile_eq_Nil_conv hd_dropWhile list.collapse set_rev)
  then obtain rest where "rev name = takeWhile (\<lambda>c. c \<noteq> dot) (rev name) @ dot # rest"
    by (metis takeWhile_dropWhile_id)
  then have "name = rev rest @ dot # ext"
    unfolding ext by (metis append.assoc append_Cons append_Nil rev.simps(2) rev_append rev_rev_ident)
  then have "name = take (length name - length ext - 1) name @ dot # ext" by simp
  with Some show ?thesis
    by (simp add: tmp_path_def with_extension_def file_stem_def dot_def)
qed

lemma tmp_path_distinct[simp]: "tmp_path name \<noteq> name" "name \<noteq> tmp_path name"
  by (simp_all add: tmp_path_eq)

lemma backup_distinct[simp]: "backup_prefix name @ x \<noteq> name" "name \<noteq> backup_prefix name @ x"
  by (simp_all add: backup_prefix_def)

subsection \<open>Atomicity of the versioned save\<close>

lemma prune_backups_get:
  "hm_get (prune_backups io n bs d) k = hm_get d k
     \<or> (k \<in> set (take (length bs - n) bs) \<and> remove_ok io k \<and> hm_get (prune_backups io n bs d) k = None)"
proof (induction bs arbitrary: d)
  case (Cons b bs)
  show ?case
  proof (cases "length (b # bs) > n")
    case True
    then have "take (length (b # bs) - n) (b # bs) = b # take (length bs - n) bs"
      by (simp add: Suc_diff_le)
    with True Cons.IH[of "if remove_ok io b then hm_remove b d else d"] show ?thesis
      by (auto split: if_splits)
  qed simp
qed simp

lemma backups_of_prefix: "k \<in> set (backups_of name d) \<Longrightarrow> \<exists>x. k = backup_prefix name @ x"
  unfolding backups_of_def by (auto intro: exI[of _ "drop (length (backup_prefix name)) k" for k])
     (metis append_take_drop_id)

lemma backup_existing_keeps:
  "hm_get (snd (backup_existing io t epoch name n d)) name = hm_get d name"
proof -
  have "hm_get (prune_backups io n (backups_of name d1) d1) name = hm_get d1 name" for d1
  proof -
    have "name \<notin> set (backups_of name d1)"
    proof
      assume "name \<in> set (backups_of name d1)"
      then obtain x where "name = backup_prefix name @ x" using backups_of_prefix by blast
      then show False by simp
    qed
    then show ?thesis
      using prune_backups_get[of io n "backups_of name d1" d1 name] by (blast dest: in_set_takeD)
  qed
  then show ?thesis
    by (auto simp: backup_existing_def Let_def write_file_def split: option.splits)
qed

lemma save_with_version_target:
  "hm_get (snd (save_with_version C io t epoch name n s d)) name =
     (if fst (save_with_version C io t epoch name n s d)
      then Some \<lparr>file_bytes = encode C (compression_for_path name) (image_of s), modified = t\<rparr>
      else hm_get d name)"
proof -
  obtain ok1 d1 where b: "backup_existing io t epoch name n d = (ok1, d1)" by fastforce
  with backup_existing_keeps[of io t epoch name n d] have k: "hm_get d1 name = hm_get d name" by simp
  show ?thesis
    by (auto simp: save_with_version_def b k write_temp_def write_file_def rename_file_def
        split: option.splits)
qed

subsection \<open>Backups\<close>

lemma prune_backups_count:
  "(\<And>k. remove_ok io k) \<Longrightarrow> distinct bs \<Longrightarrow>
   {k \<in> set bs. hm_get (prune_backups io n bs d) k \<noteq> None} \<subseteq> set (drop (length bs - n) bs)"
proof (induction bs arbitrary: d)
  case (Cons b bs)
  show ?case
  proof (cases "length (b # bs) > n")
    case True
    let ?d = "hm_remove b d"
    have "hm_get (prune_backups io n bs ?d) b = None"
      using prune_backups_get[of io n bs ?d b] by auto
    with True Cons.IH[of ?d] Cons.prems show ?thesis by (auto simp: Suc_diff_le)
  qed auto
qed simp

lemma prune_backups_newest:
  "distinct bs \<Longrightarrow> k \<in> set (drop (length bs - n) bs) \<Longrightarrow> hm_get (prune_backups io n bs d) k = hm_get d k"
  using prune_backups_get[of io n bs d k] set_take_disj_set_drop_if_distinct[of bs "length bs - n" "length bs - n"]
  by auto

lemma backups_distinct: "hm_wf d \<Longrightarrow> distinct (backups_of name d)"
  using distinct_map_filter[of fst d]
  by (simp add: backups_of_def distinct_map)

subsection \<open>Loading\<close>

lemma restore_inv:
  assumes "hm_wf m" "[] \<notin> fst ` set m" "\<forall>(k, e) \<in> set m. value_wf (entry_value e)"
  shows "kv_inv (restore (m, st))"
  using assms by (simp add: kv_inv_def parts_inv_def restore_def)

lemma kv_get_restore: "map_of m = map_of (store s) \<Longrightarrow> kv_get now (restore (m, st)) = kv_get now s"
  by (simp add: kv_get_def restore_def fun_eq_iff)

subsection \<open>What the profile counts\<close>

definition profile_count :: "'f memory_profile \<Rightarrow> nat" where
  "profile_count p = string_values p + int_values p + float_values p + bool_values p
     + json_values p + hyperloglog_values p + list_values p"

fun is_hash :: "kv_value \<Rightarrow> bool" where
  "is_hash (VHash _) = True"
| "is_hash _ = False"

lemma profile_value_sums:
  "value_bytes (profile_value v p) = value_bytes p + estimate_value_size v"
  "key_bytes (profile_value v p) = key_bytes p" "ttl_entries (profile_value v p) = ttl_entries p"
  "profile_count (profile_value v p) = profile_count p + (if is_hash v then 0 else 1)"
  by (cases v; simp add: profile_count_def)+

lemma profile_entry_sums:
  "value_bytes (profile_entry ke p) = value_bytes p + estimate_value_size (entry_value (snd ke))"
  "key_bytes (profile_entry ke p) = key_bytes p + length (fst ke)"
  "ttl_entries (profile_entry ke p) = ttl_entries p + (if expires_at (snd ke) = None then 0 else 8)"
  "profile_count (profile_entry ke p) = profile_count p + (if is_hash (entry_value (snd ke)) then 0 else 1)"
  by (simp_all add: profile_entry_def Let_def profile_value_sums)
     (simp_all add: profile_count_def profile_value_sums(4)[unfolded profile_count_def])

lemma fold_profile_sums:
  "value_bytes (fold profile_entry m p) = value_bytes p + (\<Sum>ke\<leftarrow>m. estimate_value_size (entry_value (snd ke)))"
  "key_bytes (fold profile_entry m p) = key_bytes p + (\<Sum>ke\<leftarrow>m. length (fst ke))"
  "ttl_entries (fold profile_entry m p) = ttl_entries p + 8 * length (filter (\<lambda>ke. expires_at (snd ke) \<noteq> None) m)"
  "profile_count (fold profile_entry m p) = profile_count p + length (filter (\<lambda>ke. \<not> is_hash (entry_value (snd ke))) m)"
  by (induction m arbitrary: p; simp add: profile_entry_sums del: not_None_eq)+

subsection \<open>Properties\<close>


text \<open>Pruning keeps the newest backups: when removals succeed, at most \<open>max_versions\<close> backups of
  the file remain, they are the newest by modification time, and their contents are untouched.\<close>

theorem pruning_keeps_newest:
  fixes io :: io and d :: disk and name :: string
  assumes "hm_wf d" "\<And>k. remove_ok io k"
  defines "bs \<equiv> backups_of name d"
  shows "{k \<in> set bs. hm_get (prune_backups io n bs d) k \<noteq> None} = set (drop (length bs - n) bs)
     \<and> card (set (drop (length bs - n) bs)) \<le> n
     \<and> (\<forall>k \<in> set (drop (length bs - n) bs). hm_get (prune_backups io n bs d) k = hm_get d k)"
proof -
  have dist: "distinct bs" unfolding bs_def by (rule backups_distinct[OF assms(1)])
  have keep: "hm_get (prune_backups io n bs d) k = hm_get d k" if "k \<in> set (drop (length bs - n) bs)" for k
    by (rule prune_backups_newest[OF dist that])
  have "hm_get d k \<noteq> None" if "k \<in> set bs" for k
    using that hm_get_None[of d k] unfolding bs_def backups_of_def by force
  with keep have "set (drop (length bs - n) bs) \<subseteq> {k \<in> set bs. hm_get (prune_backups io n bs d) k \<noteq> None}"
    by (metis (mono_tags, lifting) in_set_dropD mem_Collect_eq subsetI)
  moreover have "card (set (drop (length bs - n) bs)) \<le> n"
    using card_length[of "drop (length bs - n) bs"] by simp
  ultimately show ?thesis
    using prune_backups_count[OF assms(2) dist, of n d] keep by blast
qed

theorem pruning_keeps_newest_witness:
  "card (set (drop 1 [''s.bak.1'', ''s.bak.2''])) \<le> 1"
proof -
  let ?d = "[(''s.bak.2'', \<lparr>file_bytes = ''b'', modified = 2\<rparr>), (''s.bak.1'', \<lparr>file_bytes = ''a'', modified = 1\<rparr>)]"
  let ?io = "\<lparr>copy_ok = True, read_dir_ok = True, remove_ok = (\<lambda>_. True), create_ok = True,
               write_fails = None, rename_ok = True\<rparr>"
  have "backups_of ''s'' ?d = [''s.bak.1'', ''s.bak.2'']"
    by (simp add: backups_of_def backup_prefix_def)
  with pruning_keeps_newest[of ?d ?io "''s''" 1] show ?thesis by simp
qed



text \<open>The memory profile adds up: value bytes are the estimated sizes of all values, key bytes the
  key lengths, eight bytes are booked per key with a TTL, and the per-type counters count every
  entry except the hashes; \<open>total_bytes\<close> is the tracked figure and not the sum of these.\<close>

theorem profile_adds_up:
  "value_bytes (kv_memory_profile F cap s) = (\<Sum>ke\<leftarrow>store s. estimate_value_size (entry_value (snd ke)))
   \<and> key_bytes (kv_memory_profile F cap s) = (\<Sum>ke\<leftarrow>store s. length (fst ke))
   \<and> ttl_entries (kv_memory_profile F cap s) = 8 * length (filter (\<lambda>ke. expires_at (snd ke) \<noteq> None) (store s))
   \<and> profile_count (kv_memory_profile F cap s) = length (filter (\<lambda>ke. \<not> is_hash (entry_value (snd ke))) (store s))
   \<and> total_bytes (kv_memory_profile F cap s) = memory_bytes (stats s)"
  using fold_profile_sums[of "store s" "empty_profile F"]
  by (simp add: kv_memory_profile_def Let_def profile_count_def empty_profile_def del: not_None_eq)

end
