(* ===== verification/Kv_Machine.thy ===== *)
theory Kv_Machine
  imports Kv_Txn Kv_Hashes Kv_Sketches Kv_Glob Kv_Persist
begin

section \<open>The store as a state machine (kv_store.rs)\<close>

text \<open>
  Every mutating method of \<open>KvStore\<close> is one rule of the step relation; the read-only methods
  leave the store as it is. A rule's premise is what the Rust types guarantee of an argument: a
  \<open>Value\<close> holds a well-formed sketch or hash, a field map has distinct keys. Starting points are
  a fresh store and a store read back from a file.
\<close>

inductive kv_step :: "'f f64_arith \<Rightarrow> (string \<Rightarrow> u64) \<Rightarrow> kv_store \<Rightarrow> kv_store \<Rightarrow> bool"
  for F :: "'f f64_arith" and hash :: "string \<Rightarrow> u64" where
  step_set: "value_wf v \<Longrightarrow> kv_step F hash s (snd (kv_set now s key v))"
| step_set_with_ttl: "value_wf v \<Longrightarrow> kv_step F hash s (snd (kv_set_with_ttl now s key v ttl))"
| step_delete: "kv_step F hash s (snd (kv_delete now s key))"
| step_incr: "kv_step F hash s (snd (kv_incr s key))"
| step_decr: "kv_step F hash s (snd (kv_decr s key))"
| step_incrby: "kv_step F hash s (snd (kv_incrby s key amount))"
| step_append: "kv_step F hash s (snd (kv_append now s key t))"
| step_getset: "value_wf v \<Longrightarrow> kv_step F hash s (snd (kv_getset now s key v))"
| step_mset: "kv_step F hash s (snd (kv_mset now s pairs))"
| step_expire: "kv_step F hash s (snd (kv_expire now s key ttl))"
| step_persist: "kv_step F hash s (snd (kv_persist now s key))"
| step_cleanup: "kv_step F hash s (snd (cleanup_expired now s))"
| step_drain: "kv_step F hash s (snd (drain_keyspace_events s))"
| step_multi: "kv_step F hash s (snd (kv_multi s))"
| step_exec: "kv_step F hash s (snd (kv_exec s))"
| step_discard: "kv_step F hash s (snd (kv_discard s))"
| step_queue: "op_wf op \<Longrightarrow> kv_step F hash s (snd (queue_operation s op))"
| step_lpush: "kv_step F hash s (snd (kv_lpush s key vs))"
| step_rpush: "kv_step F hash s (snd (kv_rpush s key vs))"
| step_lpop: "kv_step F hash s (snd (kv_lpop s key))"
| step_rpop: "kv_step F hash s (snd (kv_rpop s key))"
| step_hset: "hm_wf fds \<Longrightarrow> kv_step F hash s (snd (kv_hset s key fds))"
| step_hdel: "kv_step F hash s (snd (kv_hdel s key fs))"
| step_hincrby: "kv_step F hash s (snd (kv_hincrby s key field amount))"
| step_hincrbyfloat: "kv_step F hash s (snd (kv_hincrbyfloat F s key field x))"
| step_pfreserve: "kv_step F hash s (snd (kv_pfreserve s key prec))"
| step_pfadd: "kv_step F hash s (snd (kv_pfadd F hash s key vs))"
| step_pfmerge: "kv_step F hash s (snd (kv_pfmerge F s key srcs))"
| step_reset_stats: "kv_step F hash s (reset_stats s)"
| step_set_config: "kv_step F hash s (set_config c s)"
| step_notifications: "kv_step F hash s (set_keyspace_notifications_enabled b s)"

text \<open>A decoded image is acceptable when serde could have produced it from the Rust types.\<close>

definition image_ok :: "image \<Rightarrow> bool" where
  "image_ok img \<longleftrightarrow> hm_wf (fst img) \<and> [] \<notin> fst ` set (fst img)
     \<and> (\<forall>(k, e) \<in> set (fst img). value_wf (entry_value e))"

inductive kv_reachable :: "'f f64_arith \<Rightarrow> (string \<Rightarrow> u64) \<Rightarrow> kv_store \<Rightarrow> bool"
  for F :: "'f f64_arith" and hash :: "string \<Rightarrow> u64" where
  reach_new: "kv_reachable F hash (with_config c)"
| reach_load: "image_ok img \<Longrightarrow> kv_reachable F hash (restore img)"
| reach_step: "kv_reachable F hash s \<Longrightarrow> kv_step F hash s t \<Longrightarrow> kv_reachable F hash t"

lemmas operation_invs = kv_set_inv kv_set_with_ttl_inv kv_delete_inv kv_incr_inv kv_decr_inv kv_incrby_inv
  kv_append_inv kv_getset_inv kv_mset_inv kv_expire_inv kv_persist_inv cleanup_expired_inv drain_inv
  kv_multi_inv kv_exec_inv kv_discard_inv queue_operation_inv kv_lpush_inv kv_rpush_inv kv_lpop_inv
  kv_rpop_inv kv_hset_inv kv_hdel_inv kv_hincrby_inv kv_hincrbyfloat_inv kv_pfreserve_inv
  kv_pfadd_inv kv_pfmerge_inv

lemma config_steps_inv:
  "kv_inv s \<Longrightarrow> kv_inv (reset_stats s)" "kv_inv s \<Longrightarrow> kv_inv (set_config c s)"
  "kv_inv s \<Longrightarrow> kv_inv (set_keyspace_notifications_enabled b s)"
  by (simp_all add: reset_stats_def set_config_def set_keyspace_notifications_enabled_def)

lemma kv_step_inv: "kv_step F hash s t \<Longrightarrow> kv_inv s \<Longrightarrow> kv_inv t"
  by (induction rule: kv_step.induct) (simp_all add: operation_invs config_steps_inv)

lemma restore_image_inv: "image_ok img \<Longrightarrow> kv_inv (restore img)"
  using restore_inv[of "fst img" "snd img"] by (simp add: image_ok_def)

lemma reachable_inv: "kv_reachable F hash s \<Longrightarrow> kv_inv s"
  by (induction rule: kv_reachable.induct) (auto intro: kv_inv_new restore_image_inv kv_step_inv)

lemma kv_inv_image: "kv_inv s \<Longrightarrow> image_ok (image_of s)"
  by (simp add: kv_inv_def parts_inv_def image_ok_def image_of_def)

subsection \<open>Properties\<close>

text \<open>C10: The store invariant holds in every reachable state: starting from a fresh store or a loaded
  image, any sequence of the mutating methods keeps one entry per key, no empty key, an LRU list
  without duplicates that covers every stored key, well-formed sketches and hashes, and
  well-formed queued operations.\<close>

theorem reachable_stores_are_well_formed:
  assumes "kv_reachable F hash s"
  shows "kv_inv s \<and> distinct (map fst (store s)) \<and> distinct (lru_order s)
     \<and> fst ` set (store s) \<subseteq> set (lru_order s) \<and> kv_len s = card (dom (hm_get (store s)))
     \<and> image_ok (image_of s)"
proof -
  from assms have inv: "kv_inv s" by (rule reachable_inv)
  then have d: "distinct (map fst (store s))" by (simp add: kv_inv_def parts_inv_def)
  then have "length (store s) = card (dom (hm_get (store s)))"
    by (metis distinct_card dom_map_of_conv_image_fst length_map set_map)
  with inv d kv_inv_image[OF inv] show ?thesis by (simp add: kv_inv_def parts_inv_def kv_len_def)
qed

theorem reachable_stores_are_well_formed_witness:
  "kv_inv (snd (kv_exec (snd (kv_delete 9 (snd (kv_multi (snd (kv_set 5 (with_config default_config) ''a'' (VInt 1))))) ''a''))))"
proof -
  have "kv_reachable F hash (snd (kv_exec (snd (kv_delete 9 (snd (kv_multi
      (snd (kv_set 5 (with_config default_config) ''a'' (VInt 1))))) ''a''))))"
    for F :: "nat f64_arith" and hash
    by (intro reach_step[OF _ step_exec] reach_step[OF _ step_delete] reach_step[OF _ step_multi]
        reach_step[OF _ step_set] reach_new) simp
  from reachable_stores_are_well_formed[OF this] show ?thesis by blast
qed

end
