(* ===== verification/Kv_Core_Spec.thy ===== *)
theory Kv_Core_Spec
  imports Kv_Core_Props
begin

section \<open>Contracts of the core operations\<close>

text \<open>
  What a client of the core operations may rely on: the map it sees, the life of a key with a
  TTL, what cleanup and eviction remove, the memory limit, counters, and batch writes.
\<close>

subsection \<open>Lemmas\<close>

definition evict_round :: "u64 \<Rightarrow> string \<Rightarrow> kv_store \<Rightarrow> kv_store" where
  "evict_round now key s = (evict_key now key s)\<lparr>lru_order := tl (lru_order s)\<rparr>"

lemma evict_round_frame[simp]:
  "config (evict_round now key s) = config s" "lru_order (evict_round now key s) = tl (lru_order s)"
  "store (evict_round now key s) = hm_remove key (store s)"
  by (simp_all add: evict_round_def)

lemma evict_loop_rounds:
  "\<exists>n \<le> length (lru_order s).
     evict_loop now s = fold (evict_round now) (take n (lru_order s)) s
     \<and> (\<forall>m < n. memory_bytes (stats (fold (evict_round now) (take m (lru_order s)) s)) > max_memory_bytes (config s))
     \<and> (memory_bytes (stats (evict_loop now s)) \<le> max_memory_bytes (config s) \<or> n = length (lru_order s))"
proof (induction now s rule: evict_loop.induct)
  case (1 now s)
  show ?case
  proof (cases "memory_bytes (stats s) > max_memory_bytes (config s) \<and> lru_order s \<noteq> []")
    case False
    then have "evict_loop now s = s"
      by (subst evict_loop.simps) (auto split: list.splits)
    with False show ?thesis by (intro exI[of _ 0]) auto
  next
    case True
    then obtain key rest where l: "lru_order s = key # rest" by (cases "lru_order s") auto
    let ?t = "evict_round now key s"
    have t: "?t = (evict_key now key s)\<lparr>lru_order := rest\<rparr>" using l by (simp add: evict_round_def)
    have step: "evict_loop now s = evict_loop now ?t"
      using True l by (subst evict_loop.simps) (simp add: t)
    from 1[of key rest] True l obtain n where n: "n \<le> length rest"
      "evict_loop now ?t = fold (evict_round now) (take n rest) ?t"
      "\<And>m. m < n \<Longrightarrow> memory_bytes (stats (fold (evict_round now) (take m rest) ?t)) > max_memory_bytes (config s)"
      "memory_bytes (stats (evict_loop now ?t)) \<le> max_memory_bytes (config s) \<or> n = length rest"
      by (auto simp: t[symmetric])
    have "memory_bytes (stats (fold (evict_round now) (take m (lru_order s)) s)) > max_memory_bytes (config s)"
      if "m < Suc n" for m
      using that n(3) True l by (cases m) auto
    with n(1,2,4) step l show ?thesis by (intro exI[of _ "Suc n"]) auto
  qed
qed

lemma store_fold_evict: "store (fold (evict_round now) ks s) = filter (\<lambda>(k, e). k \<notin> set ks) (store s)"
  by (induction ks arbitrary: s) (auto simp: AList.delete_eq intro!: filter_cong)

lemma lru_fold_evict: "lru_order (fold (evict_round now) ks s) = drop (length ks) (lru_order s)"
  by (induction ks arbitrary: s) (simp_all add: drop_Suc)

lemma live_value_deadline:
  "live_value t \<lparr>entry_value = v, expires_at = checked_add_u64 now ttl\<rparr> =
     (if unat now + unat ttl < 2 ^ 64 \<and> unat now + unat ttl < unat t then None else Some v)"
  by (auto simp: live_value_def checked_add_u64_def word_less_nat_alt unat_word_ariths)

lemma kv_incrby_error: "fst (kv_incrby s key a) = Inl err \<Longrightarrow> snd (kv_incrby s key a) = s"
  by (auto simp: kv_incrby_def split: option.splits kv_value.splits)

lemma kv_incr_incrby: "kv_incr s key = kv_incrby s key 1" "kv_decr s key = kv_incrby s key (-1)"
  by (auto simp: kv_incr_def kv_decr_def kv_incrby_def split: option.splits kv_value.splits)

lemma kv_get_Some: "kv_get now s key = Some v \<longleftrightarrow>
   (\<exists>e. hm_get (store s) key = Some e \<and> live_value now e = Some v)"
  by (simp add: kv_get_def bind_eq_Some_conv)

lemma live_value_SomeD: "live_value now e = Some v \<Longrightarrow> entry_value e = v"
  by (auto simp: live_value_def split: option.splits if_splits)

lemma live_value_payload:
  "live_value now e = Some v \<Longrightarrow> live_value t (e\<lparr>entry_value := w\<rparr>) = map_option (\<lambda>_. w) (live_value t e)"
  by (auto simp: live_value_def split: option.splits)

lemma kv_incrby_int:
  assumes "hm_get (store s) key = Some e" "entry_value e = VInt i"
  shows "kv_incrby s key a = (Inr (i + a), update_lru key (count_write (set_value key e (VInt (i + a)) s)))"
  using assms by (simp add: kv_incrby_def)

lemma kv_expire_hit:
  "fst (kv_expire now s key ttl) \<Longrightarrow> \<exists>e. hm_get (store s) key = Some e \<and> live_value now e \<noteq> None
     \<and> store (snd (kv_expire now s key ttl)) = hm_insert key (e\<lparr>expires_at := checked_add_u64 now ttl\<rparr>) (store s)"
  by (auto simp: kv_expire_def live_value_def split: option.splits if_splits)

lemma kv_persist_hit:
  "hm_get (store s) key = Some e \<Longrightarrow> expires_at e = Some x \<Longrightarrow>
   fst (kv_persist now s key) \<and>
   store (snd (kv_persist now s key)) = hm_insert key (e\<lparr>expires_at := None\<rparr>) (store s)"
  by (simp add: kv_persist_def)

lemma ttl_seconds_deadline:
  assumes "hm_get (store s) key = Some e" "expires_at e = Some (now + d)"
    "unat now + unat d < 2 ^ 64" "unat d < 2 ^ 63"
  shows "ttl_seconds now s key = d"
proof -
  have u: "unat (now + d) = unat now + unat d" using assms(3) by (simp add: unat_word_ariths)
  then have "\<not> now + d < now" by (simp add: word_less_nat_alt)
  moreover have "d \<le> word_of_int i64_MAX"
    using assms(4) by (simp add: word_le_nat_alt i64_MAX_def)
  ultimately show ?thesis using assms(1,2) by (simp add: ttl_seconds_def min_def)
qed

lemma mset_now_prefix:
  "\<exists>n \<le> length pairs. snd (mset_now now s pairs) =
       foldl (\<lambda>s (k, v). snd (kv_set now s k (VStr v))) s (take n pairs)
     \<and> (fst (mset_now now s pairs) = Inr () \<longrightarrow> n = length pairs)"
proof (induction now s pairs rule: mset_now.induct)
  case (2 now s key v pairs)
  obtain r s' where r: "kv_set now s key (VStr v) = (r, s')" by fastforce
  show ?case
  proof (cases r)
    case (Inl e)
    with r show ?thesis by (intro exI[of _ 1]) simp
  next
    case (Inr u)
    from 2[OF r[symmetric] Inr] obtain n where "n \<le> length pairs"
      "snd (mset_now now s' pairs) = foldl (\<lambda>s (k, v). snd (kv_set now s k (VStr v))) s' (take n pairs)"
      "fst (mset_now now s' pairs) = Inr () \<longrightarrow> n = length pairs" by blast
    with r Inr show ?thesis by (intro exI[of _ "Suc n"]) simp
  qed
qed simp

subsection \<open>Properties\<close>

text \<open>A store with one string and one counter, for the concrete instances below.\<close>

definition sample_store :: kv_store where
  "sample_store = (with_config (default_config\<lparr>max_memory_bytes := 24\<rparr>))
     \<lparr>store := [(''a'', \<lparr>entry_value = VStr ''hello'', expires_at = None\<rparr>),
                (''n'', \<lparr>entry_value = VInt 41, expires_at = Some 500\<rparr>)],
      lru_order := [''a'', ''n''],
      stats := default_stats\<lparr>memory_bytes := 13, total_keys := 2\<rparr>\<rparr>"

lemma sample_inv: "kv_inv sample_store"
  by (simp add: sample_store_def kv_inv_def parts_inv_def with_config_def)

lemma sample_config:
  "max_memory_bytes (config sample_store) = 24" "lru_eviction_enabled (config sample_store)"
  by (simp_all add: sample_store_def with_config_def default_config_def config_default_defs)

lemmas sample_defs = sample_store_def with_config_def default_config_def config_default_defs
  default_stats_def

text \<open>C7: \<open>set\<close> and \<open>delete\<close> refine one-point updates of the map that \<open>get\<close> reads. For a write
  that validates, is outside a transaction and fits the memory limit, \<open>set\<close> succeeds and changes
  what \<open>get\<close> returns at the written key only, at every later or earlier time; \<open>delete\<close> removes
  the key and nothing else.\<close>

theorem store_refines_map:
  assumes "accepts s key v" "fits s v"
  shows "fst (kv_set now s key v) = Inr ()
     \<and> kv_get t (snd (kv_set now s key v)) = (kv_get t s)(key \<mapsto> v)
     \<and> kv_get t (snd (kv_delete now s key)) = (kv_get t s)(key := None)"
  using assms kv_get_set[OF assms, of t now] kv_get_delete[of s t now key]
  by (simp add: kv_set_accepts) (simp add: accepts_def)

theorem store_refines_map_witness:
  "accepts sample_store ''b'' (VInt 7) \<and> kv_get 9 (snd (kv_set 3 sample_store ''b'' (VInt 7))) ''b'' = Some (VInt 7)"
proof -
  have *: "accepts sample_store ''b'' (VInt 7)" "fits sample_store (VInt 7)"
    by (simp_all add: accepts_def fits_def validate_key_def validate_value_def in_transaction_def sample_defs)
  from store_refines_map[OF *, of 3 9] * show ?thesis by simp
qed

text \<open>The life of a key written with a TTL: it is readable exactly up to and including the
  second \<open>now + ttl\<close>, and for ever where that sum does not fit 64 bits.\<close>

theorem ttl_life:
  assumes "accepts s key v" "fits s v"
  shows "kv_get t (snd (kv_set_with_ttl now s key v ttl)) =
     (kv_get t s)(key := (if unat now + unat ttl < 2 ^ 64 \<and> unat now + unat ttl < unat t
                          then None else Some v))"
  by (simp add: kv_get_set_with_ttl[OF assms] live_value_deadline)

theorem ttl_life_witness:
  "kv_get 110 (snd (kv_set_with_ttl 100 sample_store ''b'' (VBool True) 10)) ''b'' = Some (VBool True)
   \<and> kv_get 111 (snd (kv_set_with_ttl 100 sample_store ''b'' (VBool True) 10)) ''b'' = None"
proof -
  have *: "accepts sample_store ''b'' (VBool True)" "fits sample_store (VBool True)"
    by (simp_all add: accepts_def fits_def validate_key_def validate_value_def in_transaction_def sample_defs)
  show ?thesis
    using ttl_life[OF *, of 110 100 10] ttl_life[OF *, of 111 100 10] by simp
qed

text \<open>\<open>EXPIRE\<close>, \<open>TTL\<close>, \<open>PTTL\<close> and \<open>PERSIST\<close> agree: after a successful \<open>expire\<close> with a
  TTL in range, \<open>ttl_seconds\<close> returns the TTL and \<open>pttl_millis\<close> a thousand times it (saturating);
  a \<open>persist\<close> then succeeds and makes \<open>ttl_seconds\<close> return \<open>-1\<close>; no value changes.\<close>

theorem expire_ttl_persist:
  fixes now ttl :: u64 and s :: kv_store and key :: string
  assumes "fst (kv_expire now s key ttl)" "unat now + unat ttl < 2 ^ 64" "unat ttl < 2 ^ 63"
  defines "s1 \<equiv> snd (kv_expire now s key ttl)"
  shows "ttl_seconds now s1 key = ttl
     \<and> pttl_millis now s1 key = saturating_mul_i64 ttl 1000
     \<and> fst (kv_persist now s1 key)
     \<and> ttl_seconds now (snd (kv_persist now s1 key)) key = -1
     \<and> kv_get now s1 = kv_get now s"
proof -
  from kv_expire_hit[OF assms(1)] obtain e where e: "hm_get (store s) key = Some e"
    "live_value now e \<noteq> None" "store s1 = hm_insert key (e\<lparr>expires_at := Some (now + ttl)\<rparr>) (store s)"
    using assms(2) by (auto simp: s1_def checked_add_u64_def)
  let ?e = "e\<lparr>expires_at := Some (now + ttl)\<rparr>"
  have g: "hm_get (store s1) key = Some ?e" using e(3) by simp
  have ttl: "ttl_seconds now s1 key = ttl"
    by (rule ttl_seconds_deadline[OF g]) (use assms in simp_all)
  have "sint ttl = int (unat ttl)" using assms(3) by (rule sint_small_i64)
  then have "\<not> sint ttl < 0" by simp
  moreover have "live_value now ?e = live_value now e"
    using e(2) assms(2) by (auto simp: live_value_def word_less_nat_alt unat_word_ariths split: option.splits if_splits)
  moreover from this have "kv_get now s1 = kv_get now s"
    using e(1) kv_get_put[OF e(3), of now] by (auto simp: kv_get_def fun_eq_iff)
  moreover from kv_persist_hit[OF g, of "now + ttl" now] have
    "fst (kv_persist now s1 key)" "ttl_seconds now (snd (kv_persist now s1 key)) key = -1"
    by (simp_all add: ttl_seconds_def)
  ultimately show ?thesis by (simp add: ttl pttl_millis_def)
qed

theorem expire_ttl_persist_witness:
  "ttl_seconds 100 (snd (kv_expire 100 sample_store ''a'' 60)) ''a'' = 60"
  using expire_ttl_persist[of 100 sample_store "''a''" 60]
  by (simp add: kv_expire_def sample_defs)

text \<open>Eviction is least-recently-used and minimal. The loop removes the first \<open>n\<close> keys of the
  LRU list and no others, every shorter run is still over the limit, and it ends under the limit
  unless the list is exhausted; a stored key that is not among those \<open>n\<close> keeps its entry.\<close>

theorem eviction_is_lru_prefix:
  "\<exists>n \<le> length (lru_order s).
     lru_order (evict_loop now s) = drop n (lru_order s)
     \<and> store (evict_loop now s) = filter (\<lambda>(k, e). k \<notin> set (take n (lru_order s))) (store s)
     \<and> (\<forall>m < n. memory_bytes (stats (fold (evict_round now) (take m (lru_order s)) s)) > max_memory_bytes (config s))
     \<and> (memory_bytes (stats (evict_loop now s)) \<le> max_memory_bytes (config s) \<or> n = length (lru_order s))"
proof -
  from evict_loop_rounds[of s now] obtain n where n: "n \<le> length (lru_order s)"
    "evict_loop now s = fold (evict_round now) (take n (lru_order s)) s"
    "\<forall>m < n. memory_bytes (stats (fold (evict_round now) (take m (lru_order s)) s)) > max_memory_bytes (config s)"
    "memory_bytes (stats (evict_loop now s)) \<le> max_memory_bytes (config s) \<or> n = length (lru_order s)"
    by blast
  then show ?thesis
    by (intro exI[of _ n]) (simp add: store_fold_evict lru_fold_evict)
qed

theorem eviction_is_lru_prefix_witness:
  "\<exists>n \<le> 2. lru_order (evict_loop 9 (sample_store\<lparr>stats := default_stats\<lparr>memory_bytes := 30\<rparr>\<rparr>)) = drop n [''a'', ''n'']"
proof -
  let ?s = "sample_store\<lparr>stats := default_stats\<lparr>memory_bytes := 30\<rparr>\<rparr>"
  have l: "lru_order ?s = [''a'', ''n'']" by (simp add: sample_store_def)
  from eviction_is_lru_prefix[of ?s 9] obtain n where
    "n \<le> length (lru_order ?s)" "lru_order (evict_loop 9 ?s) = drop n (lru_order ?s)" by blast
  then show ?thesis unfolding l by (intro exI[of _ n]) simp
qed

text \<open>C6: The memory limit. After a write outside a transaction that \<open>set\<close> or \<open>set_with_ttl\<close>
  accepts, with a limit configured and eviction on, the tracked memory is within the limit or
  nothing is left to evict; the invariant still holds.\<close>

theorem write_respects_memory_limit:
  assumes "kv_inv s" "accepts s key v" "value_wf v"
    "0 < max_memory_bytes (config s)" "lru_eviction_enabled (config s)"
    "t = snd (kv_set now s key v) \<or> t = snd (kv_set_with_ttl now s key v ttl)"
  shows "kv_inv t \<and> (memory_bytes (stats t) \<le> max_memory_bytes (config t) \<or> store t = [])"
proof -
  from assms(2) have k: "key \<noteq> []" by (simp add: accepts_def validate_key_ok_iff)
  from assms(6) obtain x where "t = store_entry now key v x s"
    using kv_set_accepts[OF assms(2)] kv_set_with_ttl_accepts[OF assms(2)] by auto
  with store_entry_bound[OF assms(1) k assms(3-5)] store_entry_inv[OF assms(1) k assms(3)]
  show ?thesis by simp
qed

theorem write_respects_memory_limit_witness:
  "memory_bytes (stats (snd (kv_set 5 sample_store ''big'' (VStr ''0123456789abcdef'')))) \<le> 24
   \<or> store (snd (kv_set 5 sample_store ''big'' (VStr ''0123456789abcdef''))) = []"
proof -
  have acc: "accepts sample_store ''big'' (VStr ''0123456789abcdef'')"
    by (simp add: accepts_def validate_key_def validate_value_def in_transaction_def sample_defs)
  have cfg: "config (snd (kv_set 5 sample_store ''big'' (VStr ''0123456789abcdef''))) = config sample_store"
    by (simp add: kv_set_accepts[OF acc])
  show ?thesis
    using write_respects_memory_limit[OF sample_inv acc, of "snd (kv_set 5 sample_store ''big'' (VStr ''0123456789abcdef''))" 5 0]
    by (simp add: cfg sample_config)
qed

lemma fold_expire_events:
  "pending_keyspace_events (fold (expire_key now) ks s) = pending_keyspace_events s @
     (if keyspace_notifications_enabled (config s)
      then map (\<lambda>k. \<lparr>event_kind = EvExpired, event_key = k, event_timestamp = now\<rparr>) ks else [])"
  by (induction ks arbitrary: s) (simp_all add: expire_key_def emit_events)

lemma kv_get_filter_due:
  assumes "hm_wf m" "now < t"
  shows "Option.bind (map_of (filter (\<lambda>(k, e). \<not> due now e) m) k) (live_value t)
    = Option.bind (map_of m k) (live_value t)"
  using assms
proof (induction m)
  case (Cons p m)
  obtain j e where p: "p = (j, e)" by (cases p)
  have dead: "due now e \<Longrightarrow> live_value t e = None"
    using assms(2) by (auto simp: due_def live_value_def split: option.splits)
  have "map_of (filter (\<lambda>(k, e). \<not> due now e) m) j = None"
    using Cons.prems(1) p by (auto simp: map_of_eq_None_iff)
  with Cons p dead show ?case by (cases "k = j") auto
qed simp

text \<open>C8: Cleanup removes exactly the keys whose deadline has been reached, returns and counts
  their number, records an expiry event for each when notifications are on, and is invisible to
  every later read.\<close>

theorem cleanup_exact:
  fixes now :: u64 and s :: kv_store
  assumes "kv_inv s"
  defines "s' \<equiv> snd (cleanup_expired now s)" and "dead \<equiv> filter (\<lambda>(k, e). due now e) (store s)"
  shows "store s' = filter (\<lambda>(k, e). \<not> due now e) (store s)
     \<and> fst (cleanup_expired now s) = length dead
     \<and> expired_keys (stats s') = expired_keys (stats s) + length dead
     \<and> pending_keyspace_events s' = pending_keyspace_events s @
         (if keyspace_notifications_enabled (config s)
          then map (\<lambda>(k, e). \<lparr>event_kind = EvExpired, event_key = k, event_timestamp = now\<rparr>) dead else [])
     \<and> (\<forall>t > now. kv_get t s' = kv_get t s)"
proof -
  have wf: "hm_wf (store s)" using assms(1) by (simp add: kv_inv_def parts_inv_def)
  have "kv_get t s' = kv_get t s" if "now < t" for t
    using kv_get_filter_due[OF wf that] cleanup_store[OF wf, of now]
    by (simp add: kv_get_def s'_def fun_eq_iff)
  then show ?thesis
    using cleanup_store[OF wf, of now]
    by (simp add: s'_def dead_def cleanup_expired_def Let_def fold_expire_key fold_expire_events split_def)
qed

theorem cleanup_exact_witness:
  "map fst (store (snd (cleanup_expired 500 sample_store))) = [''a'']"
  using cleanup_exact[OF sample_inv, of 500] by (simp add: due_def) (simp add: sample_store_def)

text \<open>C9: Counters. On a readable integer \<open>incrby\<close> returns and stores the sum, with the wrap-around
  of 64 bits, keeps the deadline, and touches no other key; without overflow it is the integer
  sum. \<open>incr\<close> and \<open>decr\<close> are its instances at 1 and -1.\<close>

theorem counter_semantics:
  assumes "kv_get now s key = Some (VInt i)"
  shows "fst (kv_incrby s key a) = Inr (i + a)
     \<and> kv_get now (snd (kv_incrby s key a)) = (kv_get now s)(key \<mapsto> VInt (i + a))
     \<and> map_option expires_at (hm_get (store (snd (kv_incrby s key a))) key) = map_option expires_at (hm_get (store s) key)
     \<and> (i64_MIN \<le> sint i + sint a \<and> sint i + sint a \<le> i64_MAX \<longrightarrow> sint (i + a) = sint i + sint a)
     \<and> kv_incr s key = kv_incrby s key 1 \<and> kv_decr s key = kv_incrby s key (-1)"
proof -
  from assms obtain e where e: "hm_get (store s) key = Some e" "live_value now e = Some (VInt i)"
    by (auto simp: kv_get_Some)
  note r = kv_incrby_int[OF e(1) live_value_SomeD[OF e(2)], of a]
  have st: "store (snd (kv_incrby s key a)) = hm_insert key (e\<lparr>entry_value := VInt (i + a)\<rparr>) (store s)"
    by (simp add: r)
  have "kv_get now (snd (kv_incrby s key a)) = (kv_get now s)(key \<mapsto> VInt (i + a))"
    using kv_get_put[OF st, of now] live_value_payload[OF e(2), of now] e(2) by simp
  then show ?thesis using e st by (simp add: r kv_incr_incrby sint_plus_i64)
qed

theorem counter_semantics_witness:
  "kv_get 100 (snd (kv_incr sample_store ''n'')) ''n'' = Some (VInt 42)"
  using counter_semantics[of 100 sample_store "''n''" 41 1]
  by (simp add: kv_get_def live_value_def sample_store_def)

text \<open>A failed command changes nothing: when \<open>set\<close>, \<open>set_with_ttl\<close>, \<open>incr\<close>, \<open>decr\<close>,
  \<open>incrby\<close>, \<open>append\<close> or \<open>getset\<close> returns an error, the store it leaves is the store it got.\<close>

theorem errors_change_nothing:
  "(fst (kv_set now s key v) = Inl err \<longrightarrow> snd (kv_set now s key v) = s)
   \<and> (fst (kv_set_with_ttl now s key v ttl) = Inl err \<longrightarrow> snd (kv_set_with_ttl now s key v ttl) = s)
   \<and> (fst (kv_incr s key) = Inl err \<longrightarrow> snd (kv_incr s key) = s)
   \<and> (fst (kv_decr s key) = Inl err \<longrightarrow> snd (kv_decr s key) = s)
   \<and> (fst (kv_incrby s key a) = Inl err \<longrightarrow> snd (kv_incrby s key a) = s)
   \<and> (fst (kv_append now s key t) = Inl err \<longrightarrow> snd (kv_append now s key t) = s)
   \<and> (fst (kv_getset now s key v) = Inl err \<longrightarrow> snd (kv_getset now s key v) = s)"
proof -
  have set: "fst (kv_set now s key w) = Inl err \<Longrightarrow> snd (kv_set now s key w) = s" for w
    by (auto simp: kv_set_def queue_operation_def split: sum.splits if_splits option.splits)
  from set[of "VStr t"] have "fst (kv_append now s key t) = Inl err \<Longrightarrow> snd (kv_append now s key t) = s"
    by (auto simp: kv_append_def split: option.splits kv_value.splits prod.splits sum.splits)
  moreover from set[of v] have "fst (kv_getset now s key v) = Inl err \<Longrightarrow> snd (kv_getset now s key v) = s"
    by (auto simp: kv_getset_def Let_def split: prod.splits sum.splits)
  moreover have "fst (kv_set_with_ttl now s key v ttl) = Inl err \<Longrightarrow> snd (kv_set_with_ttl now s key v ttl) = s"
    by (auto simp: kv_set_with_ttl_def Let_def queue_operation_def split: sum.splits if_splits option.splits)
  ultimately show ?thesis using set by (auto simp: kv_incr_incrby intro: kv_incrby_error)
qed

theorem errors_change_nothing_witness:
  "kv_incr sample_store ''a'' = (Inl (type_mismatch ''a'' ''Int'' ''Str''), sample_store)"
proof -
  have "fst (kv_incr sample_store ''a'') = Inl (type_mismatch ''a'' ''Int'' ''Str'')"
    by (simp add: kv_incr_def sample_store_def)
  with errors_change_nothing[where err = "type_mismatch ''a'' ''Int'' ''Str''" and s = sample_store and key = "''a''"]
  show ?thesis by (metis prod.collapse)
qed

text \<open>\<open>mset\<close> outside a transaction applies its pairs in order, as single \<open>set\<close>s, up to and
  including the first one that fails; it reports success only when all were applied, and it is not
  atomic: the pairs before the failing one stay.\<close>

theorem mset_applies_prefix:
  assumes "\<not> in_transaction s"
  shows "\<exists>n \<le> length pairs. snd (kv_mset now s pairs) =
       foldl (\<lambda>s (k, v). snd (kv_set now s k (VStr v))) s (take n pairs)
     \<and> (fst (kv_mset now s pairs) = Inr () \<longrightarrow> n = length pairs)"
  using mset_now_prefix[where now = now and s = s and pairs = pairs] assms by (simp add: kv_mset_def)

theorem mset_applies_prefix_witness:
  "\<exists>n \<le> 2. snd (kv_mset 5 sample_store [(''x'', ''1''), ([], ''2'')]) =
     foldl (\<lambda>s (k, v). snd (kv_set 5 s k (VStr v))) sample_store (take n [(''x'', ''1''), ([], ''2'')])"
proof -
  have "\<not> in_transaction sample_store" by (simp add: in_transaction_def sample_defs)
  from mset_applies_prefix[OF this, of "[(''x'', ''1''), ([], ''2'')]" 5] obtain n where
    "n \<le> length [(''x'', ''1''), ([], ''2'')]"
    "snd (kv_mset 5 sample_store [(''x'', ''1''), ([], ''2'')]) =
     foldl (\<lambda>s (k, v). snd (kv_set 5 s k (VStr v))) sample_store (take n [(''x'', ''1''), ([], ''2'')])"
    by blast
  then show ?thesis by (intro exI[of _ n]) simp
qed

end
