(* ===== verification/Wal_Replay.thy ===== *)
theory Wal_Replay
  imports Wal_Log Kv_Machine Kv_Core_Spec
begin

section \<open>Recovery from the log (server.rs, replay_wal)\<close>

text \<open>
  The server applies every entry of the log to the loaded store at start-up. JSON text of a
  \<open>Value\<close> (\<open>serde_json::from_str::<Value>\<close>), float formatting, the hash function and the \<open>f64\<close>
  arithmetic are parameters, gathered in \<open>runtime\<close>. Only a rejected SET stops the replay.
\<close>

record 'f runtime =
  value_of_json :: "string \<Rightarrow> kv_value option"
  json_of_value :: "kv_value \<Rightarrow> string"
  show_float :: "u64 \<Rightarrow> string"
  hash_fn :: "string \<Rightarrow> u64"
  arith :: "'f f64_arith"

definition display :: "'f runtime \<Rightarrow> kv_value \<Rightarrow> string" where
  "display R v = show_value (show_float R) (hll_count (arith R)) v"

text \<open>\<open>collect::<Result<Vec<_>, _>>()\<close>: all pairs parse, or none is used.\<close>

fun parse_pairs :: "'f runtime \<Rightarrow> (string \<times> string) list \<Rightarrow> (string \<times> kv_value) list option" where
  "parse_pairs R [] = Some []"
| "parse_pairs R ((k, v) # ps) =
     (case value_of_json R v of
        None \<Rightarrow> None
      | Some x \<Rightarrow> map_option (\<lambda>qs. (k, x) # qs) (parse_pairs R ps))"

fun replay_op :: "'f runtime \<Rightarrow> u64 \<Rightarrow> kv_store \<Rightarrow> wal_operation \<Rightarrow> string + kv_store" where
  "replay_op R now s (WalSet key v ttl_secs) =
     (case value_of_json R v of
        Some x \<Rightarrow>
          (case (case ttl_secs of Some ttl \<Rightarrow> kv_set_with_ttl now s key x ttl | None \<Rightarrow> kv_set now s key x) of
             (Inl e, _) \<Rightarrow> Inl (show_error e)
           | (Inr _, s') \<Rightarrow> Inr s')
      | None \<Rightarrow> Inr s)"
| "replay_op R now s (WalDelete key) = Inr (snd (kv_delete now s key))"
| "replay_op R now s (WalIncr key) = Inr (snd (kv_incr s key))"
| "replay_op R now s (WalDecr key) = Inr (snd (kv_decr s key))"
| "replay_op R now s (WalIncrBy key amount) = Inr (snd (kv_incrby s key amount))"
| "replay_op R now s (WalAppend key v) = Inr (snd (kv_append now s key v))"
| "replay_op R now s (WalGetSet key v) =
     (case value_of_json R v of Some x \<Rightarrow> Inr (snd (kv_getset now s key x)) | None \<Rightarrow> Inr s)"
| "replay_op R now s (WalMset pairs) =
     (case parse_pairs R pairs of
        Some ps \<Rightarrow> Inr (snd (kv_mset now s (map (\<lambda>(k, v). (k, display R v)) ps)))
      | None \<Rightarrow> Inr s)"
| "replay_op R now s (WalPfAdd key vs) = Inr (snd (kv_pfadd (arith R) (hash_fn R) s key vs))"
| "replay_op R now s (WalPfMerge dest srcs) = Inr (snd (kv_pfmerge (arith R) s dest srcs))"
| "replay_op R now s (WalLPush key vs) = Inr (snd (kv_lpush s key vs))"
| "replay_op R now s (WalRPush key vs) = Inr (snd (kv_rpush s key vs))"
| "replay_op R now s (WalLPop key) = Inr (snd (kv_lpop s key))"
| "replay_op R now s (WalRPop key) = Inr (snd (kv_rpop s key))"
| "replay_op R now s (WalExpire key ttl) = Inr (snd (kv_expire now s key ttl))"
| "replay_op R now s (WalPersist key) = Inr (snd (kv_persist now s key))"
| "replay_op R now s (WalHSet key fds) = Inr (snd (kv_hset s key fds))"
| "replay_op R now s (WalHDel key fs) = Inr (snd (kv_hdel s key fs))"
| "replay_op R now s (WalHIncrBy key field amount) = Inr (snd (kv_hincrby s key field amount))"

text \<open>Each entry with the clock reading at which the replay reaches it.\<close>

fun replay_entries :: "'f runtime \<Rightarrow> kv_store \<Rightarrow> (u64 \<times> wal_entry) list \<Rightarrow> string + kv_store" where
  "replay_entries R s [] = Inr s"
| "replay_entries R s ((now, entry) # rest) =
     (case replay_op R now s (operation entry) of
        Inl e \<Rightarrow> Inl e
      | Inr s' \<Rightarrow> replay_entries R s' rest)"

definition replay_wal ::
  "'f runtime \<Rightarrow> crypto_lib \<Rightarrow> string option \<Rightarrow> wal_codec \<Rightarrow> (nat \<Rightarrow> u64) \<Rightarrow> string option \<Rightarrow> kv_store \<Rightarrow> string + kv_store" where
  "replay_wal R L env J clock f s =
     (case wal_read_all L env J f of
        Inl e \<Rightarrow> Inl (show_error e)
      | Inr entries \<Rightarrow>
          if entries = [] then Inr s
          else replay_entries R s (zip (map clock [0..<length entries]) entries))"

subsection \<open>Lemmas\<close>

text \<open>What the Rust types say of a logged operation, and the codec's contract on values.\<close>

fun wal_op_ok :: "'f runtime \<Rightarrow> wal_operation \<Rightarrow> bool" where
  "wal_op_ok R (WalSet _ v _) = (\<forall>x. value_of_json R v = Some x \<longrightarrow> value_wf x)"
| "wal_op_ok R (WalGetSet _ v) = (\<forall>x. value_of_json R v = Some x \<longrightarrow> value_wf x)"
| "wal_op_ok R (WalHSet _ fds) = hm_wf fds"
| "wal_op_ok R _ = True"

lemma replay_op_inv:
  assumes "kv_inv s" "wal_op_ok R op" "replay_op R now s op = Inr s'"
  shows "kv_inv s'"
  using assms
  by (cases op)
     (auto simp: operation_invs simp del: kv_inv_frame split: option.splits prod.splits sum.splits,
      (metis kv_set_inv kv_set_with_ttl_inv snd_conv)+)

lemma replay_entries_append:
  "replay_entries R s (xs @ ys) = (case replay_entries R s xs of Inl e \<Rightarrow> Inl e | Inr t \<Rightarrow> replay_entries R t ys)"
  by (induction R s xs rule: replay_entries.induct) (auto split: sum.splits)

lemma replay_entries_inv:
  "kv_inv s \<Longrightarrow> list_all (\<lambda>(_, e). wal_op_ok R (operation e)) es \<Longrightarrow> replay_entries R s es = Inr t \<Longrightarrow> kv_inv t"
proof (induction R s es rule: replay_entries.induct)
  case (2 R s now entry rest)
  from 2(4) obtain s' where s': "replay_op R now s (operation entry) = Inr s'" "replay_entries R s' rest = Inr t"
    by (auto split: sum.splits)
  have "kv_inv s'" using replay_op_inv[OF 2(2) _ s'(1)] 2(3) by simp
  with 2(1)[OF s'(1) this] 2(3) s'(2) show ?case by simp
qed simp

text \<open>Only a SET can stop a replay.\<close>

lemma replay_op_error: "replay_op R now s op = Inl e \<Longrightarrow> \<exists>key v ttl. op = WalSet key v ttl"
  by (cases op) (auto split: option.splits)

lemma replay_wal_logged:
  assumes "libs_ok L J" "terminated c" "wal_read_all L env J (Some c) = Inr es"
    "list_all nonce_ok calls" "wal_append_all L env J (Some c) calls = Some f"
  shows "replay_wal R L env J clock f s =
    replay_entries R s (zip (map clock [0..<length es + length calls]) (es @ map (\<lambda>(_, _, e). e) calls))"
proof -
  have g: "good_file L J (Some c)" using assms(1,2) by (simp add: good_file_def)
  have r: "read_back L env J (Some c) = Some es" by (simp add: read_back_def assms(3))
  from wal.append_all_reads[OF g assms(4) r] assms(5)
  have "wal_read_all L env J f = Inr (es @ map (\<lambda>(_, _, e). e) calls)"
    by (auto simp: wal_append_all_eq read_back_def split: sum.splits)
  then show ?thesis by (simp add: replay_wal_def)
qed

subsection \<open>Properties\<close>

text \<open>C22: Start-up recovery is the sequential application of the logged operations. After any number
  of successful appends to a well-formed log, the replay applies the old entries and then the
  appended ones in order, one result feeding the next, and stops at the first rejected SET; from
  a well-formed store it ends in a well-formed store.\<close>

theorem recovery_applies_log_in_order:
  assumes "libs_ok L J" "terminated c" "wal_read_all L env J (Some c) = Inr es"
    "list_all nonce_ok calls" "wal_append_all L env J (Some c) calls = Some f"
    "kv_inv s" "list_all (\<lambda>e. wal_op_ok R (operation e)) (es @ map (\<lambda>(_, _, e). e) calls)"
  shows "replay_wal R L env J clock f s =
      (case replay_entries R s (zip (map clock [0..<length es]) es) of
         Inl e \<Rightarrow> Inl e
       | Inr t \<Rightarrow> replay_entries R t (zip (map (\<lambda>i. clock (length es + i)) [0..<length calls]) (map (\<lambda>(_, _, e). e) calls)))
     \<and> (\<forall>t. replay_wal R L env J clock f s = Inr t \<longrightarrow> kv_inv t)"
proof -
  let ?es = "es @ map (\<lambda>(_, _, e). e) calls"
  have z: "zip (map clock [0..<length es + length calls]) ?es =
      zip (map clock [0..<length es]) es @
      zip (map (\<lambda>i. clock (length es + i)) [0..<length calls]) (map (\<lambda>(_, _, e). e) calls)"
  proof -
    have "map (\<lambda>i. clock (length es + i)) [0..<length calls] = map clock (map (\<lambda>i. i + length es) [0..<length calls])"
      by (simp add: add.commute)
    also have "map (\<lambda>i. i + length es) [0..<length calls] = [length es..<length es + length calls]"
      by (simp only: map_add_upt add.commute[of "length es"])
    finally have u: "map (\<lambda>i. clock (length es + i)) [0..<length calls] = map clock [length es..<length es + length calls]" .
    have "[0..<length es + length calls] = [0..<length es] @ [length es..<length es + length calls]"
      by (rule upt_add_eq_append) simp
    then show ?thesis unfolding u by (simp add: zip_append)
  qed
  note r = replay_wal_logged[OF assms(1-5), of R clock s]
  have "list_all (\<lambda>(_, e). wal_op_ok R (operation e)) (zip ts ?es)" for ts :: "u64 list"
    using assms(7) by (auto simp: list_all_iff dest: set_zip_rightD)
  then have "kv_inv t" if "replay_wal R L env J clock f s = Inr t" for t
    using replay_entries_inv[OF assms(6)] that unfolding r by blast
  moreover have "replay_wal R L env J clock f s =
      (case replay_entries R s (zip (map clock [0..<length es]) es) of
         Inl e \<Rightarrow> Inl e
       | Inr t \<Rightarrow> replay_entries R t (zip (map (\<lambda>i. clock (length es + i)) [0..<length calls]) (map (\<lambda>(_, _, e). e) calls)))"
    unfolding r z by (rule replay_entries_append)
  ultimately show ?thesis by blast
qed

text \<open>Replaying over data that already contains the logged writes repeats them. The server
  replays the whole log on the store it loaded from the snapshot file; where that store already
  reflects a logged LPUSH the values are pushed a second time, and an INCR counts twice.\<close>

theorem replay_repeats_logged_writes:
  assumes "validate_key s key = Inr ()" "list_at s key = Some xs"
    "hm_get (store s) n = Some e" "entry_value e = VInt i"
  shows "list_at (snd (kv_lpush s key vs)) key = Some (rev vs @ xs)
     \<and> (\<exists>t. replay_op R now (snd (kv_lpush s key vs)) (WalLPush key vs) = Inr t
            \<and> list_at t key = Some (rev vs @ rev vs @ xs))
     \<and> (\<exists>t e'. replay_op R now (snd (kv_incr s n)) (WalIncr n) = Inr t
            \<and> hm_get (store t) n = Some e' \<and> entry_value e' = VInt (i + 2))"
proof -
  let ?s = "snd (kv_lpush s key vs)"
  have 1: "list_at ?s key = Some (rev vs @ xs)" using kl.view_lpush[OF assms(1,2)] by blast
  have "validate_key ?s key = Inr ()" using validate_key_cong[OF list_config(1)] assms(1) by metis
  from kl.view_lpush[OF this 1, of vs] have 2: "list_at (snd (kv_lpush ?s key vs)) key = Some (rev vs @ rev vs @ xs)"
    by simp
  have "hm_get (store (snd (kv_incr (snd (kv_incr s n)) n))) n = Some (e\<lparr>entry_value := VInt (i + 2)\<rparr>)"
    using assms(3,4) by (simp add: kv_incr_def add.assoc)
  with 1 2 show ?thesis by simp
qed

theorem replay_repeats_logged_writes_witness:
  "\<forall>R. \<exists>t. replay_op R 9 (snd (kv_lpush sample_store ''l'' [''x''])) (WalLPush ''l'' [''x'']) = Inr t
      \<and> list_at t ''l'' = Some [''x'', ''x'']"
proof -
  have "\<exists>t. replay_op R 9 (snd (kv_lpush sample_store ''l'' [''x''])) (WalLPush ''l'' [''x'']) = Inr t
      \<and> list_at t ''l'' = Some [''x'', ''x'']" for R
  proof -
    have "validate_key sample_store ''l'' = Inr ()" "list_at sample_store ''l'' = Some []"
      "hm_get (store sample_store) ''n'' = Some \<lparr>entry_value = VInt 41, expires_at = Some 500\<rparr>"
      by (simp_all add: validate_key_def list_at_def sample_defs)
    from replay_repeats_logged_writes[OF this, of 41 "[''x'']" R 9] show ?thesis by auto
  qed
  then show ?thesis by blast
qed

theorem recovery_applies_log_in_order_witness:
  "\<forall>R clock c. replay_wal R text_lib None toy_codec clock (Some (''{b}'' @ [nl])) (with_config c) = Inr (with_config c)"
proof -
  have "replay_wal R text_lib None toy_codec clock (Some (''{b}'' @ [nl])) (with_config c) = Inr (with_config c)" for R clock c
  proof -
    have libs: "libs_ok text_lib toy_codec" by (simp add: libs_ok_def toy_codec_ok text_lib_ok)
    have t: "terminated []" by (simp add: terminated_def)
    have r: "wal_read_all text_lib None toy_codec (Some []) = Inr []" by (simp add: wal_read_all_def)
    have n: "list_all nonce_ok [(no_failures, None, entry_b)]" by (simp add: nonce_ok_def)
    have "entry_b \<noteq> entry_a" by (simp add: entry_a_def entry_b_def)
    then have a: "wal_append_all text_lib None toy_codec (Some []) [(no_failures, None, entry_b)] = Some (Some (''{b}'' @ [nl]))"
      by (simp add: logged_def wal_append_def no_failures_def encrypt_def key_from_env_def toy_codec_def)
    have ok: "list_all (\<lambda>e. wal_op_ok R (operation e)) ([] @ map (\<lambda>(_, _, e). e) [(no_failures, None, entry_b)])"
      by (simp add: entry_b_def)
    from recovery_applies_log_in_order[OF libs t r n a kv_inv_new ok, of clock c]
    show ?thesis by (simp add: entry_b_def kv_incr_def with_config_def)
  qed
  then show ?thesis by blast
qed

end
