(* ===== verification/Pub_Sub.thy ===== *)
theory Pub_Sub
  imports Kv_Error
begin

section \<open>Publish and subscribe (pubsub.rs)\<close>

text \<open>
  Channels map to the list of their subscriber ids, subscribers to their queue of unread
  messages. Each method holds the locks it needs for its whole effect, so a method is one step;
  \<open>publish\<close> reads the subscriber list under one lock and delivers under another, modelled as one
  step. The clock reading is an argument, the generated subscriber id as well.
\<close>

record message =
  msg_channel :: string
  msg_text :: string
  msg_timestamp :: u64

record pub_sub =
  channels :: "(string, string list) hmap"
  subscribers :: "(string, message list) hmap"
  max_messages :: nat

definition message_new :: "u64 \<Rightarrow> string \<Rightarrow> string \<Rightarrow> message" where
  "message_new now channel t = \<lparr>msg_channel = channel, msg_text = t, msg_timestamp = now\<rparr>"

definition pubsub_new :: pub_sub where
  "pubsub_new = \<lparr>channels = [], subscribers = [], max_messages = 1000\<rparr>"

definition channel_name_error :: kv_error where
  "channel_name_error = InvalidKey ''Channel name cannot be empty''"

definition ids_of :: "pub_sub \<Rightarrow> string \<Rightarrow> string list" where
  "ids_of p channel = (case hm_get (channels p) channel of Some ids \<Rightarrow> ids | None \<Rightarrow> [])"

definition subscribe :: "pub_sub \<Rightarrow> string \<Rightarrow> string \<Rightarrow> string result \<times> pub_sub" where
  "subscribe p channel id' =
     (if channel = [] then (Inl channel_name_error, p)
      else (Inr id',
            p\<lparr>channels := hm_insert channel (ids_of p channel @ [id']) (channels p),
              subscribers := (if hm_get (subscribers p) id' = None
                              then hm_insert id' [] (subscribers p) else subscribers p)\<rparr>))"

definition unsubscribe :: "pub_sub \<Rightarrow> string \<Rightarrow> string \<Rightarrow> unit result \<times> pub_sub" where
  "unsubscribe p channel id' =
     (case hm_get (channels p) channel of
        None \<Rightarrow> (Inr (), p)
      | Some ids \<Rightarrow>
          (let ids' = filter (\<lambda>i. i \<noteq> id') ids in
           (Inr (), p\<lparr>channels := (if ids' = [] then hm_remove channel (channels p)
                                 else hm_insert channel ids' (channels p))\<rparr>)))"

text \<open>Delivery to one queue: the oldest message is dropped at the limit.\<close>

definition enqueue :: "nat \<Rightarrow> message \<Rightarrow> message list \<Rightarrow> message list" where
  "enqueue limit m q = (if length q \<ge> limit then tl q else q) @ [m]"

definition deliver :: "message \<Rightarrow> string \<Rightarrow> pub_sub \<Rightarrow> pub_sub" where
  "deliver m id' p =
     (case hm_get (subscribers p) id' of
        None \<Rightarrow> p
      | Some q \<Rightarrow> p\<lparr>subscribers := hm_insert id' (enqueue (max_messages p) m q) (subscribers p)\<rparr>)"

definition publish :: "u64 \<Rightarrow> pub_sub \<Rightarrow> string \<Rightarrow> string \<Rightarrow> nat result \<times> pub_sub" where
  "publish now p channel t =
     (if channel = [] then (Inl channel_name_error, p)
      else let ids = ids_of p channel
           in (Inr (length ids), fold (deliver (message_new now channel t)) ids p))"

text \<open>The loop pops up to \<open>limit\<close> messages from the front.\<close>

fun pop_messages :: "nat \<Rightarrow> message list \<Rightarrow> message list \<times> message list" where
  "pop_messages 0 q = ([], q)"
| "pop_messages (Suc n) [] = ([], [])"
| "pop_messages (Suc n) (m # q) = (let (ms, q') = pop_messages n q in (m # ms, q'))"

definition poll_messages :: "pub_sub \<Rightarrow> string \<Rightarrow> nat \<Rightarrow> message list result \<times> pub_sub" where
  "poll_messages p id' limit =
     (case hm_get (subscribers p) id' of
        None \<Rightarrow> (Inr [], p)
      | Some q \<Rightarrow> (let (ms, q') = pop_messages limit q
                  in (Inr ms, p\<lparr>subscribers := hm_insert id' q' (subscribers p)\<rparr>)))"

definition list_channels :: "pub_sub \<Rightarrow> string list result" where
  "list_channels p = Inr (hm_keys (channels p))"

definition list_subscribers :: "pub_sub \<Rightarrow> string \<Rightarrow> string list result" where
  "list_subscribers p channel = Inr (ids_of p channel)"

definition pending_message_count :: "pub_sub \<Rightarrow> string \<Rightarrow> nat result" where
  "pending_message_count p id' =
     Inr (case hm_get (subscribers p) id' of Some q \<Rightarrow> length q | None \<Rightarrow> 0)"

definition has_pending :: "pub_sub \<Rightarrow> string \<Rightarrow> bool" where
  "has_pending p id' = (case hm_get (subscribers p) id' of Some q \<Rightarrow> q \<noteq> [] | None \<Rightarrow> False)"

definition cleanup_stale_subscribers :: "pub_sub \<Rightarrow> nat result \<times> pub_sub" where
  "cleanup_stale_subscribers p =
     (Inr 0, p\<lparr>channels := filter (\<lambda>(c, ids). ids \<noteq> [])
                 (map (\<lambda>(c, ids). (c, filter (has_pending p) ids)) (channels p))\<rparr>)"

subsection \<open>The invariant\<close>

text \<open>
  Distinct names, no empty channel name or list, every subscribed id has a queue, and no queue
  is longer than the limit.
\<close>

definition pubsub_inv :: "pub_sub \<Rightarrow> bool" where
  "pubsub_inv p \<longleftrightarrow> hm_wf (channels p) \<and> hm_wf (subscribers p) \<and> 0 < max_messages p
     \<and> (\<forall>(c, ids) \<in> set (channels p). c \<noteq> [] \<and> ids \<noteq> [] \<and> set ids \<subseteq> fst ` set (subscribers p))
     \<and> (\<forall>(i, q) \<in> set (subscribers p). length q \<le> max_messages p)"

lemma pubsub_inv_new: "pubsub_inv pubsub_new"
  by (simp add: pubsub_inv_def pubsub_new_def)

lemma pubsub_invD:
  assumes "pubsub_inv p"
  shows "hm_wf (channels p)" "hm_wf (subscribers p)" "0 < max_messages p"
    "\<forall>x \<in> set (channels p). fst x \<noteq> [] \<and> snd x \<noteq> [] \<and> set (snd x) \<subseteq> fst ` set (subscribers p)"
    "\<forall>x \<in> set (subscribers p). length (snd x) \<le> max_messages p"
  using assms by (simp_all add: pubsub_inv_def case_prod_unfold)

lemma pubsub_queue_bound: "pubsub_inv p \<Longrightarrow> hm_get (subscribers p) i = Some q \<Longrightarrow> length q \<le> max_messages p"
  by (auto dest!: map_of_SomeD pubsub_invD(5))

text \<open>Replacing one queue by another within the limit, or adding one, keeps the invariant.\<close>

lemma set_queue_inv:
  assumes "pubsub_inv p" "length q \<le> max_messages p"
  shows "pubsub_inv (p\<lparr>subscribers := hm_insert i q (subscribers p)\<rparr>)"
proof -
  have "\<forall>x \<in> set (channels p). fst x \<noteq> [] \<and> snd x \<noteq> [] \<and> set (snd x) \<subseteq> fst ` set (hm_insert i q (subscribers p))"
    using pubsub_invD(4)[OF assms(1)] unfolding hm_insert_keys by blast
  moreover have "\<forall>x \<in> set (hm_insert i q (subscribers p)). length (snd x) \<le> max_messages p"
    using pubsub_invD(5)[OF assms(1)] assms(2) by (intro hm_insert_all) simp_all
  ultimately show ?thesis
    using pubsub_invD(1-3)[OF assms(1)] by (simp add: pubsub_inv_def case_prod_unfold)
qed

lemma set_channel_inv:
  assumes "pubsub_inv p" "c \<noteq> []" "ids \<noteq> []" "set ids \<subseteq> fst ` set (subscribers p)"
  shows "pubsub_inv (p\<lparr>channels := hm_insert c ids (channels p)\<rparr>)"
proof -
  have "\<forall>x \<in> set (hm_insert c ids (channels p)). fst x \<noteq> [] \<and> snd x \<noteq> [] \<and> set (snd x) \<subseteq> fst ` set (subscribers p)"
    using pubsub_invD(4)[OF assms(1)] assms(2-4) by (intro hm_insert_all) simp_all
  then show ?thesis
    using pubsub_invD(1-3,5)[OF assms(1)] by (simp add: pubsub_inv_def case_prod_unfold)
qed

lemma channel_entry:
  assumes "pubsub_inv p" "(c, ids) \<in> set (channels p)"
  shows "c \<noteq> []" "ids \<noteq> []" "set ids \<subseteq> fst ` set (subscribers p)"
  using bspec[OF pubsub_invD(4)[OF assms(1)] assms(2)] by simp_all

lemma ids_of_known: "pubsub_inv p \<Longrightarrow> set (ids_of p c) \<subseteq> fst ` set (subscribers p)"
  by (cases "hm_get (channels p) c") (simp_all add: ids_of_def channel_entry(3)[OF _ map_of_SomeD])

lemma subscribe_inv: "pubsub_inv p \<Longrightarrow> pubsub_inv (snd (subscribe p c i))"
proof (cases "c = []")
  case False
  assume inv: "pubsub_inv p"
  let ?p = "if hm_get (subscribers p) i = None then p\<lparr>subscribers := hm_insert i [] (subscribers p)\<rparr> else p"
  have p: "pubsub_inv ?p" using set_queue_inv[OF inv, of "[]" i] inv by simp
  have "i \<in> fst ` set (subscribers ?p)"
    using hm_get_None[of "subscribers p" i] by (auto simp: hm_insert_keys)
  moreover have "set (ids_of p c) \<subseteq> fst ` set (subscribers ?p)"
    using ids_of_known[OF inv, of c] by (auto simp: hm_insert_keys)
  ultimately have "pubsub_inv (?p\<lparr>channels := hm_insert c (ids_of p c @ [i]) (channels ?p)\<rparr>)"
    by (intro set_channel_inv p False) auto
  moreover have "snd (subscribe p c i) = ?p\<lparr>channels := hm_insert c (ids_of p c @ [i]) (channels ?p)\<rparr>"
    using False by (simp add: subscribe_def)
  ultimately show ?thesis by simp
qed (simp add: subscribe_def)

lemma unsubscribe_inv: "pubsub_inv p \<Longrightarrow> pubsub_inv (snd (unsubscribe p c i))"
proof (cases "hm_get (channels p) c")
  case (Some ids)
  assume inv: "pubsub_inv p"
  from Some have "(c, ids) \<in> set (channels p)" by (rule map_of_SomeD)
  note ids = channel_entry(1,3)[OF inv this]
  let ?ids = "filter (\<lambda>j. j \<noteq> i) ids"
  have "pubsub_inv (p\<lparr>channels := hm_insert c ?ids (channels p)\<rparr>)" if "?ids \<noteq> []"
    by (rule set_channel_inv[OF inv ids(1) that]) (use ids(2) in auto)
  moreover have "pubsub_inv (p\<lparr>channels := hm_remove c (channels p)\<rparr>)"
    using inv by (auto simp: pubsub_inv_def set_hm_remove)
  ultimately show ?thesis using Some by (simp add: unsubscribe_def Let_def)
qed (simp add: unsubscribe_def)

lemma length_enqueue: "0 < n \<Longrightarrow> length q \<le> n \<Longrightarrow> length (enqueue n m q) \<le> n"
  by (cases q) (auto simp: enqueue_def)

lemma deliver_frame[simp]:
  "channels (deliver m i p) = channels p" "max_messages (deliver m i p) = max_messages p"
  by (simp_all add: deliver_def split: option.splits)

lemma deliver_inv: "pubsub_inv p \<Longrightarrow> pubsub_inv (deliver m i p)"
proof (cases "hm_get (subscribers p) i")
  case (Some q)
  assume inv: "pubsub_inv p"
  with Some have "length (enqueue (max_messages p) m q) \<le> max_messages p"
    by (intro length_enqueue pubsub_invD(3) pubsub_queue_bound[OF inv])
  with inv Some show ?thesis by (simp add: deliver_def set_queue_inv)
qed (simp add: deliver_def)

lemma fold_deliver_inv: "pubsub_inv p \<Longrightarrow> pubsub_inv (fold (deliver m) ids p)"
  by (induction ids arbitrary: p) (simp_all add: deliver_inv)

lemma publish_inv: "pubsub_inv p \<Longrightarrow> pubsub_inv (snd (publish now p c t))"
  by (simp add: publish_def Let_def fold_deliver_inv)

lemma pop_messages_eq: "pop_messages n q = (take n q, drop n q)"
  by (induction n q rule: pop_messages.induct) simp_all

lemma poll_messages_inv: "pubsub_inv p \<Longrightarrow> pubsub_inv (snd (poll_messages p i n))"
proof (cases "hm_get (subscribers p) i")
  case (Some q)
  assume inv: "pubsub_inv p"
  with Some have "length q \<le> max_messages p" by (intro pubsub_queue_bound)
  with inv Some show ?thesis by (simp add: poll_messages_def pop_messages_eq set_queue_inv)
qed (simp add: poll_messages_def)

lemma pubsub_inv_channels:
  assumes "pubsub_inv p" "hm_wf cs"
    "\<And>c ids. (c, ids) \<in> set cs \<Longrightarrow> c \<noteq> [] \<and> ids \<noteq> [] \<and> set ids \<subseteq> fst ` set (subscribers p)"
  shows "pubsub_inv (p\<lparr>channels := cs\<rparr>)"
proof -
  have "\<forall>(c, ids) \<in> set cs. c \<noteq> [] \<and> ids \<noteq> [] \<and> set ids \<subseteq> fst ` set (subscribers p)"
    using assms(3) by blast
  then show ?thesis using assms(1,2) by (simp add: pubsub_inv_def)
qed

lemma cleanup_stale_inv: "pubsub_inv p \<Longrightarrow> pubsub_inv (snd (cleanup_stale_subscribers p))"
proof -
  assume inv: "pubsub_inv p"
  define kept where "kept = map (\<lambda>(c, ids). (c, filter (has_pending p) ids)) (channels p)"
  have "hm_keys kept = hm_keys (channels p)"
    by (simp add: kept_def case_prod_unfold)
  then have wf: "hm_wf (filter (\<lambda>(c, ids). ids \<noteq> []) kept)"
    using pubsub_invD(1)[OF inv] by (metis distinct_map_filter)
  have "c \<noteq> [] \<and> js \<noteq> [] \<and> set js \<subseteq> fst ` set (subscribers p)"
    if "(c, js) \<in> set (filter (\<lambda>(c, ids). ids \<noteq> []) kept)" for c js
  proof -
    from that obtain ids where x: "js = filter (has_pending p) ids" "js \<noteq> []" "(c, ids) \<in> set (channels p)"
      by (auto simp: kept_def)
    then have "set js \<subseteq> set ids" by simp
    with channel_entry[OF inv x(3)] x(2) show ?thesis by (meson order_trans)
  qed
  from pubsub_inv_channels[OF inv wf this] show ?thesis
    by (simp add: cleanup_stale_subscribers_def kept_def)
qed

subsection \<open>Runs\<close>

datatype pubsub_op =
    PsSubscribe string string
  | PsUnsubscribe string string
  | PsPublish u64 string string
  | PsPoll string nat
  | PsCleanup

fun pubsub_step :: "pub_sub \<Rightarrow> pubsub_op \<Rightarrow> pub_sub" where
  "pubsub_step p (PsSubscribe c i) = snd (subscribe p c i)"
| "pubsub_step p (PsUnsubscribe c i) = snd (unsubscribe p c i)"
| "pubsub_step p (PsPublish now c t) = snd (publish now p c t)"
| "pubsub_step p (PsPoll i n) = snd (poll_messages p i n)"
| "pubsub_step p PsCleanup = snd (cleanup_stale_subscribers p)"

interpretation pubsub_machine: machine pubsub_step "\<lambda>_. True" pubsub_inv
proof
  fix p e
  assume "pubsub_inv p"
  then show "pubsub_inv (pubsub_step p e)"
    by (cases e) (simp_all add: subscribe_inv unsubscribe_inv publish_inv poll_messages_inv cleanup_stale_inv)
qed

subsection \<open>Bounded queues\<close>

lemma drop_last_append:
  "drop (length (drop (length w - n) w) + length ys - n) (drop (length w - n) w @ ys)
     = drop (length w + length ys - n) (w @ ys)"
proof -
  have "drop (length w - n) w @ ys = drop (length w - n) (w @ ys)" by simp
  moreover have "length (drop (length w - n) w) + length ys - n + (length w - n) = length w + length ys - n"
    by simp
  ultimately show ?thesis by (simp only: drop_drop)
qed

text \<open>
  The contract of a subscriber's queue: adding keeps the last \<open>cap\<close> elements of what was there
  with the new one, taking returns a prefix and leaves the rest.
\<close>

locale bounded_queue =
  fixes add :: "'m \<Rightarrow> 'q \<Rightarrow> 'q"
    and take_front :: "nat \<Rightarrow> 'q \<Rightarrow> 'm list \<times> 'q"
    and view :: "'q \<Rightarrow> 'm list"
    and cap :: nat
  assumes view_add: "length (view q) \<le> cap \<Longrightarrow>
      view (add m q) = drop (Suc (length (view q)) - cap) (view q @ [m])"
    and view_take: "fst (take_front n q) = take n (view q)" "view (snd (take_front n q)) = drop n (view q)"
begin

lemma view_adds:
  "length (view q) \<le> cap \<Longrightarrow> view (fold add ms q) = drop (length (view q) + length ms - cap) (view q @ ms)"
proof (induction ms arbitrary: q)
  case (Cons m ms)
  let ?v = "view (add m q)"
  have v: "?v = drop (length (view q @ [m]) - cap) (view q @ [m])" using view_add[OF Cons.prems] by simp
  then have len: "length ?v \<le> cap" by simp
  have "view (fold add (m # ms) q) = drop (length ?v + length ms - cap) (?v @ ms)"
    using Cons.IH[OF len] by simp
  also have "\<dots> = drop (length (view q @ [m]) + length ms - cap) ((view q @ [m]) @ ms)"
    unfolding v by (rule drop_last_append)
  finally show ?case by simp
qed simp

lemma take_after_adds:
  "length (view q) \<le> cap \<Longrightarrow>
   fst (take_front n (fold add ms q)) = take n (drop (length (view q) + length ms - cap) (view q @ ms))"
  by (simp add: view_take view_adds)

end

interpretation subscriber_queue: bounded_queue "enqueue (Suc n)" pop_messages "\<lambda>q. q" "Suc n"
  for n
proof (unfold_locales, goal_cases)
  case (1 q m)
  then show ?case by (cases q) (auto simp: enqueue_def)
qed (simp_all add: pop_messages_eq)

subsection \<open>Delivery\<close>

lemma deliver_same:
  "hm_get (subscribers p) i = Some q \<Longrightarrow>
   hm_get (subscribers (deliver m i p)) i = Some (enqueue (max_messages p) m q)"
  by (simp add: deliver_def)

lemma deliver_other: "j \<noteq> i \<Longrightarrow> hm_get (subscribers (deliver m i p)) j = hm_get (subscribers p) j"
  by (simp add: deliver_def split: option.splits)

lemma fold_deliver_frame[simp]:
  "channels (fold (deliver m) ids p) = channels p" "max_messages (fold (deliver m) ids p) = max_messages p"
  by (induction ids arbitrary: p) simp_all

lemma fold_deliver_queue:
  "hm_get (subscribers p) i = Some q \<Longrightarrow>
   hm_get (subscribers (fold (deliver m) ids p)) i = Some ((enqueue (max_messages p) m ^^ count_list ids i) q)"
proof (induction ids arbitrary: p q)
  case (Cons j ids)
  show ?case
  proof (cases "j = i")
    case True
    with Cons.IH[OF deliver_same[OF Cons.prems, of m]] show ?thesis by (simp add: funpow_swap1)
  next
    case False
    then show ?thesis using Cons.IH[of "deliver m j p" q] Cons.prems by (simp add: deliver_other)
  qed
qed simp

lemma publish_frame[simp]:
  "channels (snd (publish now p c t)) = channels p" "max_messages (snd (publish now p c t)) = max_messages p"
  "ids_of (snd (publish now p c t)) d = ids_of p d"
  by (simp_all add: publish_def Let_def ids_of_def)

lemma publish_queue:
  "c \<noteq> [] \<Longrightarrow> hm_get (subscribers p) i = Some q \<Longrightarrow>
   hm_get (subscribers (snd (publish now p c t))) i =
     Some ((enqueue (max_messages p) (message_new now c t) ^^ count_list (ids_of p c) i) q)"
  by (simp add: publish_def Let_def fold_deliver_queue)

definition publish_all :: "string \<Rightarrow> (u64 \<times> string) list \<Rightarrow> pub_sub \<Rightarrow> pub_sub" where
  "publish_all c ms p = foldl (\<lambda>p (now, t). snd (publish now p c t)) p ms"

lemma publish_all_queue:
  assumes "c \<noteq> []" "count_list (ids_of p c) i = 1" "hm_get (subscribers p) i = Some q"
  shows "hm_get (subscribers (publish_all c ms p)) i =
     Some (fold (enqueue (max_messages p)) (map (\<lambda>(now, t). message_new now c t) ms) q)"
  using assms(2,3)
proof (induction ms arbitrary: p q)
  case (Cons m ms)
  obtain now t where m: "m = (now, t)" by (cases m)
  let ?p = "snd (publish now p c t)"
  have "hm_get (subscribers ?p) i = Some (enqueue (max_messages p) (message_new now c t) q)"
    using publish_queue[OF assms(1) Cons.prems(2), of now t] Cons.prems(1) by simp
  from Cons.IH[OF _ this] Cons.prems(1) m show ?case by (simp add: publish_all_def)
qed (simp add: publish_all_def)

subsection \<open>Properties\<close>

text \<open>C23: No queue outgrows its limit. Whatever sequence of subscriptions, publications, polls and
  cleanups runs, every queue stays within 1000 messages, every subscribed id has a queue, no
  channel has an empty subscriber list, and no channel name is empty.\<close>

theorem pubsub_stays_well_formed:
  "let p = foldl pubsub_step pubsub_new ops in
     pubsub_inv p \<and> max_messages p = 1000
     \<and> (\<forall>i q. hm_get (subscribers p) i = Some q \<longrightarrow> length q \<le> 1000)"
proof -
  let ?p = "foldl pubsub_step pubsub_new ops"
  have inv: "pubsub_inv ?p"
    by (rule pubsub_machine.run_inv) (simp_all add: pubsub_inv_new list_all_iff)
  have "max_messages (pubsub_step p e) = max_messages p" for p e
    by (cases e) (auto simp: subscribe_def unsubscribe_def poll_messages_def cleanup_stale_subscribers_def
        Let_def split: option.splits prod.splits)
  then have "max_messages (foldl pubsub_step p es) = max_messages p" for p es
    by (induction es arbitrary: p) simp_all
  then have "max_messages ?p = 1000" by (simp add: pubsub_new_def)
  with inv pubsub_queue_bound[OF inv] show ?thesis by (auto simp: Let_def)
qed

theorem pubsub_stays_well_formed_witness:
  "pubsub_inv (foldl pubsub_step pubsub_new [PsSubscribe ''c'' ''s1'', PsPublish 5 ''c'' ''hi'', PsPoll ''s1'' 1, PsCleanup])"
  using pubsub_stays_well_formed[of "[PsSubscribe ''c'' ''s1'', PsPublish 5 ''c'' ''hi'', PsPoll ''s1'' 1, PsCleanup]"]
  unfolding Let_def by (rule conjunct1)

text \<open>C24: Delivery is in order and lossless up to the limit. A subscriber listed once on a channel
  that polls after a series of publications receives, in order, the first \<open>n\<close> of the last 1000
  messages of its queue followed by the published ones, and keeps the rest.\<close>

theorem publish_poll_fifo:
  assumes "pubsub_inv p" "c \<noteq> []" "count_list (ids_of p c) i = 1" "hm_get (subscribers p) i = Some q"
  shows "let pending = q @ map (\<lambda>(now, t). message_new now c t) ms;
             kept = drop (length pending - max_messages p) pending;
             r = poll_messages (publish_all c ms p) i n
         in fst r = Inr (take n kept) \<and> hm_get (subscribers (snd r)) i = Some (drop n kept)"
proof -
  obtain k where k: "max_messages p = Suc k"
    using pubsub_invD(3)[OF assms(1)] by (cases "max_messages p") simp_all
  have "length q \<le> Suc k" using pubsub_queue_bound[OF assms(1,4)] k by simp
  note kept = subscriber_queue.view_adds[OF this, of "map (\<lambda>(now, t). message_new now c t) ms"]
  define pending where "pending = q @ map (\<lambda>(now, t). message_new now c t) ms"
  have "hm_get (subscribers (publish_all c ms p)) i = Some (drop (length pending - Suc k) pending)"
    using publish_all_queue[OF assms(2-4), of ms] kept by (simp only: k pending_def length_append)
  then show ?thesis
    unfolding Let_def k pending_def[symmetric] by (simp add: poll_messages_def pop_messages_eq)
qed

theorem publish_poll_fifo_witness:
  "fst (poll_messages (publish_all ''c'' [(5, ''a''), (6, ''b'')] (snd (subscribe pubsub_new ''c'' ''s''))) ''s'' 5)
     = Inr [message_new 5 ''c'' ''a'', message_new 6 ''c'' ''b'']"
proof -
  let ?p = "snd (subscribe pubsub_new ''c'' ''s'')"
  have "pubsub_inv ?p" by (intro subscribe_inv pubsub_inv_new)
  moreover have "count_list (ids_of ?p ''c'') ''s'' = 1" "hm_get (subscribers ?p) ''s'' = Some []"
    "max_messages ?p = 1000"
    by (simp_all add: subscribe_def pubsub_new_def ids_of_def)
  ultimately show ?thesis
    using publish_poll_fifo[of ?p "''c''" "''s''" "[]" "[(5, ''a''), (6, ''b'')]" 5] by (simp add: Let_def)
qed

text \<open>Who receives what. \<open>publish\<close> reports the length of the channel's subscriber list and adds
  one copy per occurrence of an id in it. Since \<open>subscribe\<close> appends the id even when it is listed,
  a client that subscribes twice receives every message twice; and since
  \<open>cleanup_stale_subscribers\<close> unlists every id whose queue is empty, a client that has read all
  its messages receives no more.\<close>

theorem publish_copies:
  assumes "pubsub_inv p" "c \<noteq> []" "hm_get (subscribers p) i = Some q"
  shows "fst (publish now p c t) = Inr (length (ids_of p c))
     \<and> hm_get (subscribers (snd (publish now p c t))) i =
         Some ((enqueue (max_messages p) (message_new now c t) ^^ count_list (ids_of p c) i) q)
     \<and> count_list (ids_of (snd (subscribe p c i)) c) i = Suc (count_list (ids_of p c) i)
     \<and> (q = [] \<longrightarrow> count_list (ids_of (snd (cleanup_stale_subscribers p)) c) i = 0)"
proof -
  have "i \<notin> set (ids_of (snd (cleanup_stale_subscribers p)) c)" if "q = []"
  proof
    assume "i \<in> set (ids_of (snd (cleanup_stale_subscribers p)) c)"
    then obtain ids where "hm_get (channels (snd (cleanup_stale_subscribers p))) c = Some ids" "i \<in> set ids"
      by (cases "hm_get (channels (snd (cleanup_stale_subscribers p))) c") (simp_all add: ids_of_def)
    then have "(c, ids) \<in> set (channels (snd (cleanup_stale_subscribers p)))" "i \<in> set ids"
      by (auto dest: map_of_SomeD)
    then have "has_pending p i" by (auto simp: cleanup_stale_subscribers_def)
    with assms(3) that show False by (simp add: has_pending_def)
  qed
  then have "q = [] \<longrightarrow> count_list (ids_of (snd (cleanup_stale_subscribers p)) c) i = 0"
    by (simp add: count_list_0_iff)
  moreover have "count_list (ids_of (snd (subscribe p c i)) c) i = Suc (count_list (ids_of p c) i)"
    using assms(2) by (simp add: subscribe_def ids_of_def[of "p\<lparr>channels := _, subscribers := _\<rparr>"] count_list_append)
  ultimately show ?thesis
    using publish_queue[OF assms(2,3), of now t] assms(2) by (simp add: publish_def Let_def)
qed

theorem publish_copies_witness:
  "fst (publish 7 (snd (subscribe (snd (subscribe pubsub_new ''c'' ''s'')) ''c'' ''s'')) ''c'' ''m'') = Inr 2"
proof -
  let ?p = "snd (subscribe (snd (subscribe pubsub_new ''c'' ''s'')) ''c'' ''s'')"
  have "pubsub_inv ?p" by (intro subscribe_inv pubsub_inv_new)
  moreover have "hm_get (subscribers ?p) ''s'' = Some []" "ids_of ?p ''c'' = [''s'', ''s'']"
    by (simp_all add: subscribe_def pubsub_new_def ids_of_def)
  ultimately show ?thesis using publish_copies[of ?p "''c''" "''s''" "[]" 7 "''m''"] by simp
qed

end
