(* ===== verification/Http_Api.thy ===== *)
theory Http_Api
  imports Wal_Replay Pub_Sub
begin

section \<open>HTTP handlers (api.rs)\<close>

text \<open>
  The handlers that change the server's state. A server is the store, the log and the pub/sub
  engine; a handler takes the request's key headers and its decoded parameters, and returns the
  response with the new server. \<open>log\<close> is \<open>Wal::append\<close> of a fresh entry over any log state
  \<open>'w\<close>; the theorems instantiate it. Request decoding, routing and the JSON printer belong to
  actix and serde. Handlers check the key, validate, log, apply, publish, in that order.
\<close>

datatype json = JNull | JBool bool | JInt int | JStr string | JArr "json list" | JObj "(string \<times> json) list"

datatype body = Empty | Body string | Json json

record response =
  status :: nat
  body :: body

record 'w server =
  sv_store :: kv_store
  sv_wal :: 'w
  sv_pubsub :: pub_sub

record headers =
  x_api_key :: "string option"
  authorization :: "string option"

text \<open>What a request sees of its surroundings: the configured key, the clock, the logger.\<close>

record ('w, 'f) request_env =
  api_key :: "string option"
  clock_now :: u64
  log :: "wal_operation \<Rightarrow> 'w \<Rightarrow> unit result \<times> 'w"
  rt :: "'f runtime"

definition ok_json :: "json \<Rightarrow> response" where "ok_json j = \<lparr>status = 200, body = Json j\<rparr>"
definition ok_body :: "string \<Rightarrow> response" where "ok_body t = \<lparr>status = 200, body = Body t\<rparr>"
definition bad_request :: "string \<Rightarrow> response" where "bad_request t = \<lparr>status = 400, body = Body t\<rparr>"
definition internal_error :: "string \<Rightarrow> response" where "internal_error t = \<lparr>status = 500, body = Body t\<rparr>"

definition strip_prefix :: "string \<Rightarrow> string \<Rightarrow> string option" where
  "strip_prefix p s = (if starts_with p s then Some (drop (length p) s) else None)"

definition require_api_key :: "string option \<Rightarrow> headers \<Rightarrow> response option" where
  "require_api_key configured h =
     (case configured of
        None \<Rightarrow> None
      | Some expected \<Rightarrow>
          (let provided = (case x_api_key h of
                             Some k \<Rightarrow> Some k
                           | None \<Rightarrow> Option.bind (authorization h) (strip_prefix ''Bearer ''))
           in if provided = Some expected then None
              else Some \<lparr>status = 401, body = Body ''Missing or invalid API key''\<rparr>))"

definition publish_event :: "keyspace_event \<Rightarrow> u64 \<Rightarrow> pub_sub \<Rightarrow> pub_sub" where
  "publish_event ev now p =
     (let kind_str = show_event_kind (event_kind ev);
          p1 = snd (publish now p (''__keyevent__:'' @ kind_str) (event_key ev))
      in snd (publish now p1 (''__keyspace__:'' @ event_key ev) kind_str))"

definition publish_keyspace_events :: "u64 \<Rightarrow> 'w server \<Rightarrow> 'w server" where
  "publish_keyspace_events now sv =
     (let (events, s) = drain_keyspace_events (sv_store sv)
      in sv\<lparr>sv_store := s, sv_pubsub := fold (\<lambda>ev. publish_event ev now) events (sv_pubsub sv)\<rparr>)"

subsection \<open>The common shapes\<close>

text \<open>The early return of the key check, and of a failed append (two wordings in the code).\<close>

definition guarded :: "('w, 'f) request_env \<Rightarrow> headers \<Rightarrow> 'w server \<Rightarrow> ('w server \<Rightarrow> response \<times> 'w server) \<Rightarrow> response \<times> 'w server" where
  "guarded cx h sv k = (case require_api_key (api_key cx) h of Some r \<Rightarrow> (r, sv) | None \<Rightarrow> k sv)"

definition logged_first :: "('w, 'f) request_env \<Rightarrow> string \<Rightarrow> wal_operation \<Rightarrow> 'w server \<Rightarrow> ('w server \<Rightarrow> response \<times> 'w server) \<Rightarrow> response \<times> 'w server" where
  "logged_first cx prefix op sv k =
     (case log cx op (sv_wal sv) of
        (Inl e, w) \<Rightarrow> (internal_error (prefix @ show_error e), sv\<lparr>sv_wal := w\<rparr>)
      | (Inr _, w) \<Rightarrow> k (sv\<lparr>sv_wal := w\<rparr>))"

definition wal_failed :: string where "wal_failed = ''Failed to log operation to WAL: ''"
definition wal_error :: string where "wal_error = ''WAL error: ''"

definition respond :: "('a \<Rightarrow> response) \<Rightarrow> 'a result \<times> kv_store \<Rightarrow> 'w server \<Rightarrow> response \<times> 'w server" where
  "respond ok r sv =
     ((case fst r of Inr x \<Rightarrow> ok x | Inl e \<Rightarrow> bad_request (show_error e)), sv\<lparr>sv_store := snd r\<rparr>)"

definition publishing :: "u64 \<Rightarrow> response \<times> 'w server \<Rightarrow> response \<times> 'w server" where
  "publishing now r = (fst r, publish_keyspace_events now (snd r))"

definition json_i64 :: "i64 \<Rightarrow> json" where "json_i64 w = JInt (sint w)"
definition json_nat :: "nat \<Rightarrow> json" where "json_nat n = JInt (int n)"

subsection \<open>Keys\<close>

definition api_set_value :: "('w, 'f) request_env \<Rightarrow> headers \<Rightarrow> string \<Rightarrow> string \<Rightarrow> u64 option \<Rightarrow> 'w server \<Rightarrow> response \<times> 'w server" where
  "api_set_value cx h key val ttl_secs sv = guarded cx h sv (\<lambda>sv.
     if ttl_secs = Some 0 then (bad_request ''ttl_secs must be greater than 0 when provided'', sv)
     else logged_first cx wal_failed (WalSet key (json_of_value (rt cx) (VStr val)) ttl_secs) sv (\<lambda>sv.
       publishing (clock_now cx)
         (respond (\<lambda>_. ok_body (''Set '' @ quoted key @ '' successfully''))
           (case ttl_secs of
              Some ttl \<Rightarrow> kv_set_with_ttl (clock_now cx) (sv_store sv) key (VStr val) ttl
            | None \<Rightarrow> kv_set (clock_now cx) (sv_store sv) key (VStr val)) sv)))"

definition api_delete_value :: "('w, 'f) request_env \<Rightarrow> headers \<Rightarrow> string \<Rightarrow> 'w server \<Rightarrow> response \<times> 'w server" where
  "api_delete_value cx h key sv = guarded cx h sv (\<lambda>sv.
     logged_first cx wal_failed (WalDelete key) sv (\<lambda>sv.
       let (r, s) = kv_delete (clock_now cx) (sv_store sv) key in
       publishing (clock_now cx)
         ((case r of Some _ \<Rightarrow> ok_body (''Deleted '' @ quoted key @ '' successfully'')
           | None \<Rightarrow> \<lparr>status = 404, body = Body (''Key '' @ quoted key @ '' not found'')\<rparr>),
          sv\<lparr>sv_store := s\<rparr>)))"

definition api_incr_value :: "('w, 'f) request_env \<Rightarrow> headers \<Rightarrow> string \<Rightarrow> 'w server \<Rightarrow> response \<times> 'w server" where
  "api_incr_value cx h key sv = guarded cx h sv (\<lambda>sv. logged_first cx wal_failed (WalIncr key) sv (\<lambda>sv.
     respond (ok_json \<circ> json_i64) (kv_incr (sv_store sv) key) sv))"

definition api_decr_value :: "('w, 'f) request_env \<Rightarrow> headers \<Rightarrow> string \<Rightarrow> 'w server \<Rightarrow> response \<times> 'w server" where
  "api_decr_value cx h key sv = guarded cx h sv (\<lambda>sv. logged_first cx wal_failed (WalDecr key) sv (\<lambda>sv.
     respond (ok_json \<circ> json_i64) (kv_decr (sv_store sv) key) sv))"

definition api_incrby_value :: "('w, 'f) request_env \<Rightarrow> headers \<Rightarrow> string \<Rightarrow> i64 \<Rightarrow> 'w server \<Rightarrow> response \<times> 'w server" where
  "api_incrby_value cx h key amount sv = guarded cx h sv (\<lambda>sv. logged_first cx wal_failed (WalIncrBy key amount) sv (\<lambda>sv.
     respond (ok_json \<circ> json_i64) (kv_incrby (sv_store sv) key amount) sv))"

definition api_append_value :: "('w, 'f) request_env \<Rightarrow> headers \<Rightarrow> string \<Rightarrow> string \<Rightarrow> 'w server \<Rightarrow> response \<times> 'w server" where
  "api_append_value cx h key val sv = guarded cx h sv (\<lambda>sv. logged_first cx wal_failed (WalAppend key val) sv (\<lambda>sv.
     respond (ok_json \<circ> json_nat) (kv_append (clock_now cx) (sv_store sv) key val) sv))"

definition api_getset_value :: "('w, 'f) request_env \<Rightarrow> headers \<Rightarrow> string \<Rightarrow> string \<Rightarrow> 'w server \<Rightarrow> response \<times> 'w server" where
  "api_getset_value cx h key val sv = guarded cx h sv (\<lambda>sv. logged_first cx wal_failed (WalGetSet key val) sv (\<lambda>sv.
     respond (\<lambda>old. ok_json (case old of Some v \<Rightarrow> JStr (display (rt cx) v) | None \<Rightarrow> JNull))
       (kv_getset (clock_now cx) (sv_store sv) key (VStr val)) sv))"

definition api_mset_values :: "('w, 'f) request_env \<Rightarrow> headers \<Rightarrow> (string \<times> string) list \<Rightarrow> 'w server \<Rightarrow> response \<times> 'w server" where
  "api_mset_values cx h pairs sv = guarded cx h sv (\<lambda>sv. logged_first cx wal_failed (WalMset pairs) sv (\<lambda>sv.
     respond (\<lambda>_. ok_body ''OK'') (kv_mset (clock_now cx) (sv_store sv) pairs) sv))"

definition api_cleanup_expired :: "('w, 'f) request_env \<Rightarrow> headers \<Rightarrow> 'w server \<Rightarrow> response \<times> 'w server" where
  "api_cleanup_expired cx h sv = guarded cx h sv (\<lambda>sv.
     let (n, s) = cleanup_expired (clock_now cx) (sv_store sv) in
     publishing (clock_now cx) (ok_json (json_nat n), sv\<lparr>sv_store := s\<rparr>))"

definition bool_response :: "bool \<Rightarrow> response" where
  "bool_response b = \<lparr>status = (if b then 200 else 404), body = Json (JBool b)\<rparr>"

definition api_set_expire :: "('w, 'f) request_env \<Rightarrow> headers \<Rightarrow> string \<Rightarrow> u64 \<Rightarrow> 'w server \<Rightarrow> response \<times> 'w server" where
  "api_set_expire cx h key ttl sv = guarded cx h sv (\<lambda>sv.
     if ttl = 0 then (bad_request ''ttl_secs must be greater than 0'', sv)
     else logged_first cx wal_failed (WalExpire key ttl) sv (\<lambda>sv.
       let (b, s) = kv_expire (clock_now cx) (sv_store sv) key ttl in
       publishing (clock_now cx) (bool_response b, sv\<lparr>sv_store := s\<rparr>)))"

definition api_persist_key :: "('w, 'f) request_env \<Rightarrow> headers \<Rightarrow> string \<Rightarrow> 'w server \<Rightarrow> response \<times> 'w server" where
  "api_persist_key cx h key sv = guarded cx h sv (\<lambda>sv. logged_first cx wal_failed (WalPersist key) sv (\<lambda>sv.
     let (b, s) = kv_persist (clock_now cx) (sv_store sv) key in
     publishing (clock_now cx) (bool_response b, sv\<lparr>sv_store := s\<rparr>)))"

subsection \<open>Transactions: nothing is logged\<close>

definition error_json :: "kv_error \<Rightarrow> response" where
  "error_json e = \<lparr>status = 400, body = Json (JObj [(''error'', JStr (show_error e))])\<rparr>"

definition status_json :: "string \<Rightarrow> json" where
  "status_json m = JObj [(''status'', JStr ''OK''), (''message'', JStr m)]"

definition respond_json :: "('a \<Rightarrow> json) \<Rightarrow> 'a result \<times> kv_store \<Rightarrow> 'w server \<Rightarrow> response \<times> 'w server" where
  "respond_json ok r sv =
     ((case fst r of Inr x \<Rightarrow> ok_json (ok x) | Inl e \<Rightarrow> error_json e), sv\<lparr>sv_store := snd r\<rparr>)"

definition api_multi :: "('w, 'f) request_env \<Rightarrow> headers \<Rightarrow> 'w server \<Rightarrow> response \<times> 'w server" where
  "api_multi cx h sv = guarded cx h sv (\<lambda>sv.
     respond_json (\<lambda>_. status_json ''Transaction started'') (kv_multi (sv_store sv)) sv)"

definition api_exec :: "('w, 'f) request_env \<Rightarrow> headers \<Rightarrow> 'w server \<Rightarrow> response \<times> 'w server" where
  "api_exec cx h sv = guarded cx h sv (\<lambda>sv.
     respond_json (\<lambda>rs. JObj [(''results'', JArr (map JStr rs))]) (kv_exec (sv_store sv)) sv)"

definition api_discard :: "('w, 'f) request_env \<Rightarrow> headers \<Rightarrow> 'w server \<Rightarrow> response \<times> 'w server" where
  "api_discard cx h sv = guarded cx h sv (\<lambda>sv.
     respond_json (\<lambda>_. status_json ''Transaction discarded'') (kv_discard (sv_store sv)) sv)"

subsection \<open>Sketches: nothing is logged\<close>

definition count_response :: "string \<Rightarrow> u64 \<Rightarrow> response" where
  "count_response key n = ok_json (JObj [(''key'', JStr key), (''count'', json_nat (unat n))])"

definition api_hll_pfadd :: "('w, 'f) request_env \<Rightarrow> headers \<Rightarrow> string \<Rightarrow> string list \<Rightarrow> 'w server \<Rightarrow> response \<times> 'w server" where
  "api_hll_pfadd cx h key vs sv = guarded cx h sv (\<lambda>sv.
     respond (count_response key) (kv_pfadd (arith (rt cx)) (hash_fn (rt cx)) (sv_store sv) key vs) sv)"

definition api_hll_pfreserve :: "('w, 'f) request_env \<Rightarrow> headers \<Rightarrow> string \<Rightarrow> nat \<Rightarrow> 'w server \<Rightarrow> response \<times> 'w server" where
  "api_hll_pfreserve cx h key prec sv = guarded cx h sv (\<lambda>sv.
     respond (\<lambda>_. ok_json (JObj [(''key'', JStr key), (''precision'', json_nat prec), (''status'', JStr ''reserved'')]))
       (kv_pfreserve (sv_store sv) key prec) sv)"

definition api_hll_pfmerge :: "('w, 'f) request_env \<Rightarrow> headers \<Rightarrow> string \<Rightarrow> string list \<Rightarrow> 'w server \<Rightarrow> response \<times> 'w server" where
  "api_hll_pfmerge cx h dest srcs sv = guarded cx h sv (\<lambda>sv.
     respond (count_response dest) (kv_pfmerge (arith (rt cx)) (sv_store sv) dest srcs) sv)"

subsection \<open>Lists\<close>

definition length_response :: "string \<Rightarrow> nat \<Rightarrow> response" where
  "length_response key n = ok_json (JObj [(''key'', JStr key), (''length'', json_nat n)])"

definition json_opt :: "string option \<Rightarrow> json" where
  "json_opt v = (case v of Some t \<Rightarrow> JStr t | None \<Rightarrow> JNull)"

definition pop_response :: "string \<Rightarrow> string option \<Rightarrow> response" where
  "pop_response key v = ok_json (JObj [(''key'', JStr key), (''value'', json_opt v)])"

definition api_list_lpush :: "('w, 'f) request_env \<Rightarrow> headers \<Rightarrow> string \<Rightarrow> string list \<Rightarrow> 'w server \<Rightarrow> response \<times> 'w server" where
  "api_list_lpush cx h key vs sv = guarded cx h sv (\<lambda>sv. logged_first cx wal_error (WalLPush key vs) sv (\<lambda>sv.
     respond (length_response key) (kv_lpush (sv_store sv) key vs) sv))"

definition api_list_rpush :: "('w, 'f) request_env \<Rightarrow> headers \<Rightarrow> string \<Rightarrow> string list \<Rightarrow> 'w server \<Rightarrow> response \<times> 'w server" where
  "api_list_rpush cx h key vs sv = guarded cx h sv (\<lambda>sv. logged_first cx wal_error (WalRPush key vs) sv (\<lambda>sv.
     respond (length_response key) (kv_rpush (sv_store sv) key vs) sv))"

definition api_list_lpop :: "('w, 'f) request_env \<Rightarrow> headers \<Rightarrow> string \<Rightarrow> 'w server \<Rightarrow> response \<times> 'w server" where
  "api_list_lpop cx h key sv = guarded cx h sv (\<lambda>sv. logged_first cx wal_error (WalLPop key) sv (\<lambda>sv.
     respond (pop_response key) (kv_lpop (sv_store sv) key) sv))"

definition api_list_rpop :: "('w, 'f) request_env \<Rightarrow> headers \<Rightarrow> string \<Rightarrow> 'w server \<Rightarrow> response \<times> 'w server" where
  "api_list_rpop cx h key sv = guarded cx h sv (\<lambda>sv. logged_first cx wal_error (WalRPop key) sv (\<lambda>sv.
     respond (pop_response key) (kv_rpop (sv_store sv) key) sv))"

subsection \<open>Hashes\<close>

definition api_hash_hset :: "('w, 'f) request_env \<Rightarrow> headers \<Rightarrow> string \<Rightarrow> (string, string) hmap \<Rightarrow> 'w server \<Rightarrow> response \<times> 'w server" where
  "api_hash_hset cx h key fds sv = guarded cx h sv (\<lambda>sv. logged_first cx wal_error (WalHSet key fds) sv (\<lambda>sv.
     respond (ok_json \<circ> json_nat) (kv_hset (sv_store sv) key fds) sv))"

definition api_hash_hdel :: "('w, 'f) request_env \<Rightarrow> headers \<Rightarrow> string \<Rightarrow> string list \<Rightarrow> 'w server \<Rightarrow> response \<times> 'w server" where
  "api_hash_hdel cx h key fs sv = guarded cx h sv (\<lambda>sv. logged_first cx wal_error (WalHDel key fs) sv (\<lambda>sv.
     respond (ok_json \<circ> json_nat) (kv_hdel (sv_store sv) key fs) sv))"

definition api_hash_hincrby :: "('w, 'f) request_env \<Rightarrow> headers \<Rightarrow> string \<Rightarrow> string \<Rightarrow> i64 \<Rightarrow> 'w server \<Rightarrow> response \<times> 'w server" where
  "api_hash_hincrby cx h key field amount sv = guarded cx h sv (\<lambda>sv.
     logged_first cx wal_error (WalHIncrBy key field amount) sv (\<lambda>sv.
     respond (ok_json \<circ> json_i64) (kv_hincrby (sv_store sv) key field amount) sv))"

text \<open>The float increment applies first and logs the resulting field; \<open>json_f64\<close> prints the number.\<close>

definition api_hash_hincrbyfloat ::
  "('w, 'f) request_env \<Rightarrow> ('f \<Rightarrow> json) \<Rightarrow> headers \<Rightarrow> string \<Rightarrow> string \<Rightarrow> 'f \<Rightarrow> 'w server \<Rightarrow> response \<times> 'w server" where
  "api_hash_hincrbyfloat cx json_f64 h key field amount sv = guarded cx h sv (\<lambda>sv.
     let (r, s) = kv_hincrbyfloat (arith (rt cx)) (sv_store sv) key field amount; sv1 = sv\<lparr>sv_store := s\<rparr> in
     case r of
       Inl e \<Rightarrow> (bad_request (show_error e), sv1)
     | Inr x \<Rightarrow>
         logged_first cx wal_error (WalHSet key [(field, f_show (arith (rt cx)) x)]) sv1 (\<lambda>sv2.
           (ok_json (JObj [(''key'', JStr key), (''field'', JStr field), (''value'', json_f64 x)]), sv2)))"

subsection \<open>Pipelines\<close>

datatype pipeline_command =
    PGet string
  | PSet string string "u64 option"
  | PDelete string
  | PIncr string
  | PDecr string
  | PIncrBy string i64
  | PAppend string string
  | PGetSet string string
  | PExists string
  | PMGet "string list"
  | PLPush string "string list"
  | PRPush string "string list"
  | PLPop string
  | PRPop string
  | PLRange string "i64 option" "i64 option"
  | PLLen string

definition MAX_PIPELINE_COMMANDS :: nat where "MAX_PIPELINE_COMMANDS = 1000"

record pipeline_result =
  p_status :: string
  p_value :: "json option"
  p_error :: "string option"

text \<open>Phase 1: the entry a mutating command logs; the text of a SET is logged as it came.\<close>

fun pipeline_entry :: "pipeline_command \<Rightarrow> wal_operation option" where
  "pipeline_entry (PSet key v ttl) = Some (WalSet key v ttl)"
| "pipeline_entry (PDelete key) = Some (WalDelete key)"
| "pipeline_entry (PIncr key) = Some (WalIncr key)"
| "pipeline_entry (PDecr key) = Some (WalDecr key)"
| "pipeline_entry (PIncrBy key amount) = Some (WalIncrBy key amount)"
| "pipeline_entry (PAppend key v) = Some (WalAppend key v)"
| "pipeline_entry (PGetSet key v) = Some (WalGetSet key v)"
| "pipeline_entry (PLPush key vs) = Some (WalLPush key vs)"
| "pipeline_entry (PRPush key vs) = Some (WalRPush key vs)"
| "pipeline_entry (PLPop key) = Some (WalLPop key)"
| "pipeline_entry (PRPop key) = Some (WalRPop key)"
| "pipeline_entry _ = None"

fun pipeline_log :: "(wal_operation \<Rightarrow> 'w \<Rightarrow> unit result \<times> 'w) \<Rightarrow> pipeline_command list \<Rightarrow> 'w \<Rightarrow> string option list \<times> 'w" where
  "pipeline_log lg [] w = ([], w)"
| "pipeline_log lg (cmd # cmds) w =
     (let (err, w1) = (case pipeline_entry cmd of
                         None \<Rightarrow> (None, w)
                       | Some op \<Rightarrow> (case lg op w of (Inl e, w1) \<Rightarrow> (Some (show_error e), w1) | (Inr _, w1) \<Rightarrow> (None, w1)));
          (errs, w2) = pipeline_log lg cmds w1
      in (err # errs, w2))"

definition p_ok :: "json option \<Rightarrow> pipeline_result" where
  "p_ok v = \<lparr>p_status = ''ok'', p_value = v, p_error = None\<rparr>"

definition p_err :: "string \<Rightarrow> pipeline_result" where
  "p_err e = \<lparr>p_status = ''error'', p_value = None, p_error = Some e\<rparr>"

definition p_result :: "('a \<Rightarrow> json option) \<Rightarrow> 'a result \<times> kv_store \<Rightarrow> pipeline_result \<times> kv_store" where
  "p_result f r = ((case fst r of Inr x \<Rightarrow> p_ok (f x) | Inl e \<Rightarrow> p_err (show_error e)), snd r)"

text \<open>
  Phase 2: a mutating command runs only if its append succeeded. \<open>LRANGE\<close> on a list in memory
  does not panic; the branch that would is answered like an empty result.
\<close>

definition pipeline_get :: "'f runtime \<Rightarrow> u64 \<Rightarrow> kv_store \<Rightarrow> string \<Rightarrow> pipeline_result \<times> kv_store" where
  "pipeline_get R now s key =
     (p_ok (map_option (\<lambda>v. JStr (display R v)) (kv_get now s key)), s)"

definition pipeline_set :: "u64 \<Rightarrow> kv_store \<Rightarrow> string \<Rightarrow> string \<Rightarrow> u64 option \<Rightarrow> pipeline_result \<times> kv_store" where
  "pipeline_set now s key v ttl =
     p_result (\<lambda>_. None)
       (case ttl of Some t \<Rightarrow> kv_set_with_ttl now s key (VStr v) t | None \<Rightarrow> kv_set now s key (VStr v))"

definition pipeline_delete :: "u64 \<Rightarrow> kv_store \<Rightarrow> string \<Rightarrow> pipeline_result \<times> kv_store" where
  "pipeline_delete now s key =
     (let (r, s') = kv_delete now s key in (p_ok (Some (JBool (r \<noteq> None))), s'))"

definition pipeline_incr :: "kv_store \<Rightarrow> string \<Rightarrow> pipeline_result \<times> kv_store" where
  "pipeline_incr s key =
     p_result (Some \<circ> json_i64) (kv_incr s key)"

definition pipeline_decr :: "kv_store \<Rightarrow> string \<Rightarrow> pipeline_result \<times> kv_store" where
  "pipeline_decr s key =
     p_result (Some \<circ> json_i64) (kv_decr s key)"

definition pipeline_incrby :: "kv_store \<Rightarrow> string \<Rightarrow> i64 \<Rightarrow> pipeline_result \<times> kv_store" where
  "pipeline_incrby s key amount =
     p_result (Some \<circ> json_i64) (kv_incrby s key amount)"

definition pipeline_append :: "u64 \<Rightarrow> kv_store \<Rightarrow> string \<Rightarrow> string \<Rightarrow> pipeline_result \<times> kv_store" where
  "pipeline_append now s key v =
     p_result (Some \<circ> json_nat) (kv_append now s key v)"

definition pipeline_getset :: "'f runtime \<Rightarrow> u64 \<Rightarrow> kv_store \<Rightarrow> string \<Rightarrow> string \<Rightarrow> pipeline_result \<times> kv_store" where
  "pipeline_getset R now s key v =
     p_result (map_option (\<lambda>v. JStr (display R v))) (kv_getset now s key (VStr v))"

definition pipeline_exists :: "u64 \<Rightarrow> kv_store \<Rightarrow> string \<Rightarrow> pipeline_result \<times> kv_store" where
  "pipeline_exists now s key =
     (p_ok (Some (JBool (kv_exists now s key))), s)"

definition pipeline_mget :: "'f runtime \<Rightarrow> u64 \<Rightarrow> kv_store \<Rightarrow> string list \<Rightarrow> pipeline_result \<times> kv_store" where
  "pipeline_mget R now s keys =
     (p_ok (Some (JArr (map (\<lambda>v. case v of Some x \<Rightarrow> JStr (display R x) | None \<Rightarrow> JNull) (kv_mget now s keys)))), s)"

definition pipeline_lpush :: "kv_store \<Rightarrow> string \<Rightarrow> string list \<Rightarrow> pipeline_result \<times> kv_store" where
  "pipeline_lpush s key vs =
     p_result (Some \<circ> json_nat) (kv_lpush s key vs)"

definition pipeline_rpush :: "kv_store \<Rightarrow> string \<Rightarrow> string list \<Rightarrow> pipeline_result \<times> kv_store" where
  "pipeline_rpush s key vs =
     p_result (Some \<circ> json_nat) (kv_rpush s key vs)"

definition pipeline_lpop :: "kv_store \<Rightarrow> string \<Rightarrow> pipeline_result \<times> kv_store" where
  "pipeline_lpop s key =
     p_result (map_option JStr) (kv_lpop s key)"

definition pipeline_rpop :: "kv_store \<Rightarrow> string \<Rightarrow> pipeline_result \<times> kv_store" where
  "pipeline_rpop s key =
     p_result (map_option JStr) (kv_rpop s key)"

definition pipeline_lrange :: "u64 \<Rightarrow> kv_store \<Rightarrow> string \<Rightarrow> i64 option \<Rightarrow> i64 option \<Rightarrow> pipeline_result \<times> kv_store" where
  "pipeline_lrange now s key start stop =
     (let start = (case start of Some i \<Rightarrow> i | None \<Rightarrow> 0); stop = (case stop of Some i \<Rightarrow> i | None \<Rightarrow> -1) in
      p_result (\<lambda>xs. Some (JArr (map JStr xs)))
        (case kv_lrange now s key start stop of Some r \<Rightarrow> r | None \<Rightarrow> Inr [], s))"

definition pipeline_llen :: "u64 \<Rightarrow> kv_store \<Rightarrow> string \<Rightarrow> pipeline_result \<times> kv_store" where
  "pipeline_llen now s key =
     p_result (Some \<circ> json_nat) (kv_llen now s key, s)"

lemmas pipeline_command_defs[simp] =
  pipeline_get_def pipeline_set_def pipeline_delete_def pipeline_incr_def pipeline_decr_def
  pipeline_incrby_def pipeline_append_def pipeline_getset_def pipeline_exists_def pipeline_mget_def
  pipeline_lpush_def pipeline_rpush_def pipeline_lpop_def pipeline_rpop_def pipeline_lrange_def
  pipeline_llen_def

fun pipeline_run :: "'f runtime \<Rightarrow> u64 \<Rightarrow> kv_store \<Rightarrow> pipeline_command \<Rightarrow> pipeline_result \<times> kv_store" where
  "pipeline_run R now s (PGet key) = pipeline_get R now s key"
| "pipeline_run R now s (PSet key v ttl) = pipeline_set now s key v ttl"
| "pipeline_run R now s (PDelete key) = pipeline_delete now s key"
| "pipeline_run R now s (PIncr key) = pipeline_incr s key"
| "pipeline_run R now s (PDecr key) = pipeline_decr s key"
| "pipeline_run R now s (PIncrBy key amount) = pipeline_incrby s key amount"
| "pipeline_run R now s (PAppend key v) = pipeline_append now s key v"
| "pipeline_run R now s (PGetSet key v) = pipeline_getset R now s key v"
| "pipeline_run R now s (PExists key) = pipeline_exists now s key"
| "pipeline_run R now s (PMGet keys) = pipeline_mget R now s keys"
| "pipeline_run R now s (PLPush key vs) = pipeline_lpush s key vs"
| "pipeline_run R now s (PRPush key vs) = pipeline_rpush s key vs"
| "pipeline_run R now s (PLPop key) = pipeline_lpop s key"
| "pipeline_run R now s (PRPop key) = pipeline_rpop s key"
| "pipeline_run R now s (PLRange key start stop) = pipeline_lrange now s key start stop"
| "pipeline_run R now s (PLLen key) = pipeline_llen now s key"

fun pipeline_execute ::
  "'f runtime \<Rightarrow> u64 \<Rightarrow> kv_store \<Rightarrow> (pipeline_command \<times> string option) list \<Rightarrow> pipeline_result list \<times> kv_store" where
  "pipeline_execute R now s [] = ([], s)"
| "pipeline_execute R now s ((cmd, err) # rest) =
     (let (r, s1) = (case err of
                       Some e \<Rightarrow> (p_err (''WAL error: '' @ e), s)
                     | None \<Rightarrow> pipeline_run R now s cmd);
          (rs, s2) = pipeline_execute R now s1 rest
      in (r # rs, s2))"

definition result_json :: "pipeline_result \<Rightarrow> json" where
  "result_json r = JObj ([(''status'', JStr (p_status r))]
     @ (case p_value r of Some v \<Rightarrow> [(''value'', v)] | None \<Rightarrow> [])
     @ (case p_error r of Some e \<Rightarrow> [(''error'', JStr e)] | None \<Rightarrow> []))"

definition api_pipeline_exec :: "('w, 'f) request_env \<Rightarrow> headers \<Rightarrow> pipeline_command list \<Rightarrow> 'w server \<Rightarrow> response \<times> 'w server" where
  "api_pipeline_exec cx h cmds sv = guarded cx h sv (\<lambda>sv.
     if cmds = [] then (bad_request ''Pipeline must contain at least one command'', sv)
     else if length cmds > MAX_PIPELINE_COMMANDS then
       (\<lparr>status = 413, body = Body (''Pipeline exceeds maximum of '' @ show_nat MAX_PIPELINE_COMMANDS @ '' commands'')\<rparr>, sv)
     else
       let (errs, w) = pipeline_log (log cx) cmds (sv_wal sv);
           (rs, s) = pipeline_execute (rt cx) (clock_now cx) (sv_store sv) (zip cmds errs)
       in publishing (clock_now cx)
            (ok_json (JObj [(''results'', JArr (map result_json rs))]), sv\<lparr>sv_wal := w, sv_store := s\<rparr>))"

end
