(* ===== verification/Http_Recovery.thy ===== *)
theory Http_Recovery
  imports Http_Api
begin

section \<open>Durability of the HTTP interface\<close>

text \<open>
  Requests as data, runs of requests, and what a restart recovers from the log they leave: for
  which requests replaying the log gives the state the server had, and for which it does not.
\<close>

datatype request =
    RSet string string "u64 option"
  | RDelete string
  | RIncr string
  | RDecr string
  | RIncrBy string i64
  | RAppend string string
  | RGetSet string string
  | RMset "(string \<times> string) list"
  | RExpire string u64
  | RPersist string
  | RLPush string "string list"
  | RRPush string "string list"
  | RLPop string
  | RRPop string
  | RHSet string "(string, string) hmap"
  | RHDel string "string list"
  | RHIncrBy string string i64
  | RPfAdd string "string list"
  | RPfReserve string nat
  | RPfMerge string "string list"
  | RMulti
  | RExec
  | RDiscard
  | RCleanup
  | RPipeline "pipeline_command list"

fun handle :: "('w, 'f) request_env \<Rightarrow> headers \<Rightarrow> request \<Rightarrow> 'w server \<Rightarrow> response \<times> 'w server" where
  "handle cx h (RSet k v ttl) = api_set_value cx h k v ttl"
| "handle cx h (RDelete k) = api_delete_value cx h k"
| "handle cx h (RIncr k) = api_incr_value cx h k"
| "handle cx h (RDecr k) = api_decr_value cx h k"
| "handle cx h (RIncrBy k a) = api_incrby_value cx h k a"
| "handle cx h (RAppend k v) = api_append_value cx h k v"
| "handle cx h (RGetSet k v) = api_getset_value cx h k v"
| "handle cx h (RMset ps) = api_mset_values cx h ps"
| "handle cx h (RExpire k ttl) = api_set_expire cx h k ttl"
| "handle cx h (RPersist k) = api_persist_key cx h k"
| "handle cx h (RLPush k vs) = api_list_lpush cx h k vs"
| "handle cx h (RRPush k vs) = api_list_rpush cx h k vs"
| "handle cx h (RLPop k) = api_list_lpop cx h k"
| "handle cx h (RRPop k) = api_list_rpop cx h k"
| "handle cx h (RHSet k fds) = api_hash_hset cx h k fds"
| "handle cx h (RHDel k fs) = api_hash_hdel cx h k fs"
| "handle cx h (RHIncrBy k f a) = api_hash_hincrby cx h k f a"
| "handle cx h (RPfAdd k vs) = api_hll_pfadd cx h k vs"
| "handle cx h (RPfReserve k p) = api_hll_pfreserve cx h k p"
| "handle cx h (RPfMerge d ss) = api_hll_pfmerge cx h d ss"
| "handle cx h RMulti = api_multi cx h"
| "handle cx h RExec = api_exec cx h"
| "handle cx h RDiscard = api_discard cx h"
| "handle cx h RCleanup = api_cleanup_expired cx h"
| "handle cx h (RPipeline cmds) = api_pipeline_exec cx h cmds"

lemmas handler_defs = api_set_value_def api_delete_value_def api_incr_value_def api_decr_value_def
  api_incrby_value_def api_append_value_def api_getset_value_def api_mset_values_def
  api_set_expire_def api_persist_key_def api_list_lpush_def api_list_rpush_def api_list_lpop_def
  api_list_rpop_def api_hash_hset_def api_hash_hdel_def api_hash_hincrby_def api_hll_pfadd_def
  api_hll_pfreserve_def api_hll_pfmerge_def api_multi_def api_exec_def api_discard_def
  api_cleanup_expired_def api_pipeline_exec_def

subsection \<open>Stores without pending events\<close>

text \<open>With keyspace notifications off (the default) no operation records an event.\<close>

definition quiet :: "kv_store \<Rightarrow> bool" where
  "quiet s \<longleftrightarrow> \<not> keyspace_notifications_enabled (config s) \<and> pending_keyspace_events s = []"

lemma quiet_frame[simp]:
  "quiet (s\<lparr>store := st\<rparr>) = quiet s" "quiet (s\<lparr>stats := ss\<rparr>) = quiet s" "quiet (s\<lparr>lru_order := l\<rparr>) = quiet s"
  "quiet (s\<lparr>transaction_queue := q\<rparr>) = quiet s" "quiet (update_lru k s) = quiet s"
  "quiet (count_write s) = quiet s" "quiet (set_value k e v s) = quiet s" "quiet (create_entry k v s) = quiet s"
  by (simp_all add: quiet_def update_lru_def count_write_def set_value_def create_entry_def Let_def)

lemma quiet_emit[simp]: "quiet s \<Longrightarrow> emit_keyspace_event now kind key s = s"
  by (simp add: quiet_def emit_keyspace_event_def)

lemma quiet_evict_key: "quiet s \<Longrightarrow> quiet (evict_key now k s)"
  by (auto simp: evict_key_def split: option.splits)

lemma quiet_evict_loop: "quiet s \<Longrightarrow> quiet (evict_loop now s)"
proof (induction now s rule: evict_loop.induct)
  case (1 now s)
  then show ?case
    by (subst evict_loop.simps) (auto split: list.splits intro: quiet_evict_key)
qed

lemma quiet_store_entry: "quiet s \<Longrightarrow> quiet (store_entry now k v x s)"
  by (simp add: store_entry_def Let_def enforce_memory_limit_def quiet_evict_loop)

lemma quiet_queue: "quiet s \<Longrightarrow> quiet (snd (queue_operation s op))"
  by (simp add: queue_operation_def split: option.splits)

lemma quiet_set: "quiet s \<Longrightarrow> quiet (snd (kv_set now s k v))" "quiet s \<Longrightarrow> quiet (snd (kv_set_with_ttl now s k v ttl))"
  by (auto simp: kv_set_def kv_set_with_ttl_def Let_def quiet_store_entry quiet_queue split: sum.splits)

lemma quiet_ops:
  assumes "quiet s"
  shows "quiet (snd (kv_delete now s k))" "quiet (snd (kv_incr s k))" "quiet (snd (kv_decr s k))"
    "quiet (snd (kv_incrby s k a))" "quiet (snd (kv_expire now s k ttl))" "quiet (snd (kv_persist now s k))"
    "quiet (snd (kv_lpush s k vs))" "quiet (snd (kv_rpush s k vs))" "quiet (snd (kv_lpop s k))"
    "quiet (snd (kv_rpop s k))" "quiet (snd (kv_hset s k fds))" "quiet (snd (kv_hdel s k fs))"
    "quiet (snd (kv_hincrby s k f a))" "quiet (snd (kv_append now s k t))"
  using assms quiet_set(1)[OF assms, of now k "VStr t"]
  by (auto simp: kv_delete_def quiet_queue kv_incr_def kv_decr_def kv_incrby_def kv_expire_def
      kv_persist_def kv_lpush_def kv_rpush_def kv_lpop_def kv_rpop_def kv_hset_def kv_hdel_def
      kv_hincrby_def kv_append_def Let_def
      split: option.splits kv_value.splits sum.splits prod.splits list.splits)

lemma quiet_publish:
  assumes "quiet (sv_store sv)"
  shows "publish_keyspace_events now sv = sv"
proof -
  have "(sv_store sv)\<lparr>pending_keyspace_events := []\<rparr> = sv_store sv"
    using assms by (simp add: quiet_def)
  with assms show ?thesis
    by (simp add: publish_keyspace_events_def drain_keyspace_events_def quiet_def)
qed

subsection \<open>Runs over an ideal log\<close>

text \<open>An append that always succeeds: the log is the list of entries with the time of each.\<close>

type_synonym ideal_log = "(u64 \<times> wal_entry) list"

definition ideal_append :: "u64 \<Rightarrow> wal_operation \<Rightarrow> ideal_log \<Rightarrow> unit result \<times> ideal_log" where
  "ideal_append now op w = (Inr (), w @ [(now, wal_entry_new now op)])"

definition env_at :: "string option \<Rightarrow> 'f runtime \<Rightarrow> u64 \<Rightarrow> (ideal_log, 'f) request_env" where
  "env_at key R now = \<lparr>api_key = key, clock_now = now, log = ideal_append now, rt = R\<rparr>"

fun run :: "string option \<Rightarrow> 'f runtime \<Rightarrow> headers \<Rightarrow> (u64 \<times> request) list \<Rightarrow> ideal_log server \<Rightarrow> response list \<times> ideal_log server" where
  "run key R h [] sv = ([], sv)"
| "run key R h ((now, req) # rest) sv =
     (let (r, sv1) = handle (env_at key R now) h req sv; (rs, sv2) = run key R h rest sv1 in (r # rs, sv2))"

fun replayable :: "request \<Rightarrow> bool" where
  "replayable (RGetSet _ _) = False"
| "replayable (RMset _) = False"
| "replayable (RPfAdd _ _) = False"
| "replayable (RPfReserve _ _) = False"
| "replayable (RPfMerge _ _) = False"
| "replayable RMulti = False"
| "replayable RExec = False"
| "replayable RDiscard = False"
| "replayable RCleanup = False"
| "replayable (RPipeline _) = False"
| "replayable _ = True"

fun is_set :: "request \<Rightarrow> bool" where
  "is_set (RSet _ _ _) = True"
| "is_set _ = False"

definition strings_read_back :: "'f runtime \<Rightarrow> bool" where
  "strings_read_back R \<longleftrightarrow> (\<forall>t. value_of_json R (json_of_value R (VStr t)) = Some (VStr t))"

lemma respond_status: "status (fst (respond ok r sv)) = 200 \<Longrightarrow> \<exists>x. fst r = Inr x"
  by (cases "fst r") (auto simp: respond_def bad_request_def)

lemma handle_set:
  assumes "quiet (sv_store sv)" "require_api_key key h = None" "strings_read_back R"
    "handle (env_at key R now) h (RSet k v ttl) sv = (r, sv')" "status r = 200"
  shows "quiet (sv_store sv') \<and> (\<exists>op. sv_wal sv' = sv_wal sv @ [(now, wal_entry_new now op)]
     \<and> replay_op R now (sv_store sv) op = Inr (sv_store sv'))"
proof -
  let ?op = "WalSet k (json_of_value R (VStr v)) ttl"
  let ?set = "case ttl of Some t \<Rightarrow> kv_set_with_ttl now (sv_store sv) k (VStr v) t | None \<Rightarrow> kv_set now (sv_store sv) k (VStr v)"
  let ?sv = "sv\<lparr>sv_wal := sv_wal sv @ [(now, wal_entry_new now ?op)]\<rparr>"
  let ?resp = "respond (\<lambda>_. ok_body (''Set '' @ quoted k @ '' successfully'')) ?set ?sv"
  have q: "quiet (sv_store (snd ?resp))"
    using assms(1) by (auto simp: respond_def quiet_set split: option.splits)
  have "ttl \<noteq> Some 0"
    using assms(2,4,5) by (auto simp: api_set_value_def guarded_def env_at_def bad_request_def)
  then have "handle (env_at key R now) h (RSet k v ttl) sv = publishing now ?resp"
    using assms(2)
    by (cases ttl) (simp_all add: api_set_value_def guarded_def env_at_def logged_first_def ideal_append_def)
  then have r: "r = fst ?resp" "sv' = snd ?resp"
    using assms(4) quiet_publish[OF q] by (auto simp: publishing_def)
  with assms(5) obtain x where "fst ?set = Inr x" using respond_status by blast
  then have "replay_op R now (sv_store sv) ?op = Inr (snd ?set)"
    using assms(3) by (cases ?set) (simp add: strings_read_back_def)
  then show ?thesis
    using q unfolding r by (intro conjI exI[of _ ?op]) (simp_all add: respond_def del: replay_op.simps)
qed

lemma handle_replays:
  assumes "quiet (sv_store sv)" "require_api_key key h = None" "strings_read_back R" "replayable req"
    "handle (env_at key R now) h req sv = (r, sv')" "is_set req \<Longrightarrow> status r = 200"
  shows "quiet (sv_store sv') \<and> (\<exists>ops. sv_wal sv' = sv_wal sv @ map (\<lambda>op. (now, wal_entry_new now op)) ops
     \<and> replay_entries R (sv_store sv) (map (\<lambda>op. (now, wal_entry_new now op)) ops) = Inr (sv_store sv'))"
proof (cases "is_set req")
  case True
  then obtain k v ttl where req: "req = RSet k v ttl" by (cases req) auto
  from handle_set[OF assms(1-3) assms(5)[unfolded req] assms(6)[OF True]] obtain op where
    "quiet (sv_store sv')" "sv_wal sv' = sv_wal sv @ [(now, wal_entry_new now op)]"
    "replay_op R now (sv_store sv) op = Inr (sv_store sv')" by blast
  then show ?thesis by (intro conjI exI[of _ "[op]"]) (simp_all add: wal_entry_new_def)
next
  case False
  have one: "quiet s' \<Longrightarrow> sv_store sv' = s' \<Longrightarrow> sv_wal sv' = sv_wal sv @ [(now, wal_entry_new now op)] \<Longrightarrow>
      replay_op R now (sv_store sv) op = Inr s' \<Longrightarrow> ?thesis" for s' op
    by (intro conjI exI[of _ "[op]"]) (simp_all add: wal_entry_new_def)
  have none: "sv' = sv \<Longrightarrow> ?thesis" using assms(1) by (intro conjI exI[of _ "[]"]) simp_all
  note q = quiet_ops[OF assms(1)]
  note ev = handler_defs guarded_def env_at_def logged_first_def ideal_append_def respond_def
    publishing_def quiet_publish split_beta Let_def
  show ?thesis
    using False assms(2,4,5)
  proof (cases req)
    case (RExpire k ttl)
    show ?thesis
    proof (cases "ttl = 0")
      case True
      with RExpire assms(2,5) show ?thesis by (intro none) (simp add: ev)
    next
      case False
      with RExpire assms(2,5) show ?thesis
        by (intro one[OF q(5)[of now k ttl], of "WalExpire k ttl"]) (auto simp: ev q)
    qed
  next
    case (RDelete k)
    with assms(2,5) show ?thesis by (intro one[OF q(1)[of now k], of "WalDelete k"]) (auto simp: ev q)
  next
    case (RIncr k)
    with assms(2,5) show ?thesis by (intro one[OF q(2)[of k], of "WalIncr k"]) (auto simp: ev)
  next
    case (RDecr k)
    with assms(2,5) show ?thesis by (intro one[OF q(3)[of k], of "WalDecr k"]) (auto simp: ev)
  next
    case (RIncrBy k a)
    with assms(2,5) show ?thesis by (intro one[OF q(4)[of k a], of "WalIncrBy k a"]) (auto simp: ev)
  next
    case (RAppend k t)
    with assms(2,5) show ?thesis by (intro one[OF q(14)[of now k t], of "WalAppend k t"]) (auto simp: ev)
  next
    case (RPersist k)
    with assms(2,5) show ?thesis by (intro one[OF q(6)[of now k], of "WalPersist k"]) (auto simp: ev q)
  next
    case (RLPush k vs)
    with assms(2,5) show ?thesis by (intro one[OF q(7)[of k vs], of "WalLPush k vs"]) (auto simp: ev)
  next
    case (RRPush k vs)
    with assms(2,5) show ?thesis by (intro one[OF q(8)[of k vs], of "WalRPush k vs"]) (auto simp: ev)
  next
    case (RLPop k)
    with assms(2,5) show ?thesis by (intro one[OF q(9)[of k], of "WalLPop k"]) (auto simp: ev)
  next
    case (RRPop k)
    with assms(2,5) show ?thesis by (intro one[OF q(10)[of k], of "WalRPop k"]) (auto simp: ev)
  next
    case (RHSet k fds)
    with assms(2,5) show ?thesis by (intro one[OF q(11)[of k fds], of "WalHSet k fds"]) (auto simp: ev)
  next
    case (RHDel k fs)
    with assms(2,5) show ?thesis by (intro one[OF q(12)[of k fs], of "WalHDel k fs"]) (auto simp: ev)
  next
    case (RHIncrBy k f a)
    with assms(2,5) show ?thesis by (intro one[OF q(13)[of k f a], of "WalHIncrBy k f a"]) (auto simp: ev)
  qed simp_all
qed

definition accepted :: "(u64 \<times> request) list \<Rightarrow> response list \<Rightarrow> bool" where
  "accepted reqs rs \<longleftrightarrow> list_all2 (\<lambda>(now, req) r. is_set req \<longrightarrow> status r = 200) reqs rs"

lemma run_replays:
  assumes "require_api_key key h = None" "strings_read_back R"
  shows "quiet (sv_store sv) \<Longrightarrow> list_all (\<lambda>(_, req). replayable req) reqs \<Longrightarrow>
    accepted reqs (fst (run key R h reqs sv)) \<Longrightarrow>
    \<exists>new. sv_wal (snd (run key R h reqs sv)) = sv_wal sv @ new
      \<and> replay_entries R (sv_store sv) new = Inr (sv_store (snd (run key R h reqs sv)))"
proof (induction reqs arbitrary: sv)
  case (Cons nr reqs)
  obtain now req where nr: "nr = (now, req)" by (cases nr)
  obtain r sv1 where h: "handle (env_at key R now) h req sv = (r, sv1)" by fastforce
  from Cons.prems(2,3) nr h have ok: "replayable req" "is_set req \<Longrightarrow> status r = 200"
    "list_all (\<lambda>(_, req). replayable req) reqs" "accepted reqs (fst (run key R h reqs sv1))"
    by (auto simp: accepted_def case_prod_unfold Let_def)
  from handle_replays[OF Cons.prems(1) assms ok(1) h ok(2)] obtain ops where ops: "quiet (sv_store sv1)"
    "sv_wal sv1 = sv_wal sv @ map (\<lambda>op. (now, wal_entry_new now op)) ops"
    "replay_entries R (sv_store sv) (map (\<lambda>op. (now, wal_entry_new now op)) ops) = Inr (sv_store sv1)" by blast
  from Cons.IH[OF ops(1) ok(3,4)] obtain new where new: "sv_wal (snd (run key R h reqs sv1)) = sv_wal sv1 @ new"
    "replay_entries R (sv_store sv1) new = Inr (sv_store (snd (run key R h reqs sv1)))" by blast
  have "replay_entries R (sv_store sv) (map (\<lambda>op. (now, wal_entry_new now op)) ops @ new)
      = Inr (sv_store (snd (run key R h reqs sv1)))"
    by (simp add: replay_entries_append ops(3) new(2))
  then show ?case using nr h ops(2) new(1) by (simp add: split_beta)
qed simp

subsection \<open>Properties\<close>



text \<open>Restarting recovers what was acknowledged. With notifications off, for any run of the
  replayable requests (single-key writes, deletes, counters, lists, hashes, expiry) whose SETs
  were accepted, the entries the run adds to the log, replayed at their times from the state the
  run started in, give exactly the store the run ended with, statistics and LRU order included.\<close>

theorem log_recovers_run:
  assumes "require_api_key key h = None" "strings_read_back R" "quiet (sv_store sv)"
    "list_all (\<lambda>(_, req). replayable req) reqs" "accepted reqs (fst (run key R h reqs sv))"
  shows "\<exists>new. sv_wal (snd (run key R h reqs sv)) = sv_wal sv @ new
    \<and> replay_entries R (sv_store sv) new = Inr (sv_store (snd (run key R h reqs sv)))"
  by (rule run_replays[OF assms])

definition toy_runtime :: "nat f64_arith \<Rightarrow> nat runtime" where
  "toy_runtime F = \<lparr>value_of_json = (\<lambda>j. case j of CHR ''S'' # t \<Rightarrow> Some (VStr t) | _ \<Rightarrow> None),
     json_of_value = (\<lambda>v. case v of VStr t \<Rightarrow> CHR ''S'' # t | _ \<Rightarrow> []), show_float = (\<lambda>_. []),
     hash_fn = (\<lambda>_. 0), arith = F\<rparr>"

lemma toy_runtime_reads: "strings_read_back (toy_runtime F)"
  by (simp add: strings_read_back_def toy_runtime_def)

definition no_headers :: headers where "no_headers = \<lparr>x_api_key = None, authorization = None\<rparr>"

theorem log_recovers_run_witness:
  "\<forall>F. \<exists>new. sv_wal (snd (run None (toy_runtime F) no_headers [(5, RLPush ''q'' [''x'']), (6, RIncr ''n'')]
        \<lparr>sv_store = kv_new, sv_wal = [], sv_pubsub = pubsub_new\<rparr>)) = new
    \<and> replay_entries (toy_runtime F) kv_new new = Inr (sv_store (snd (run None (toy_runtime F) no_headers
        [(5, RLPush ''q'' [''x'']), (6, RIncr ''n'')] \<lparr>sv_store = kv_new, sv_wal = [], sv_pubsub = pubsub_new\<rparr>)))"
proof -
  have "\<exists>new. sv_wal (snd (run None (toy_runtime F) no_headers [(5, RLPush ''q'' [''x'']), (6, RIncr ''n'')]
        \<lparr>sv_store = kv_new, sv_wal = [], sv_pubsub = pubsub_new\<rparr>)) = new
    \<and> replay_entries (toy_runtime F) kv_new new = Inr (sv_store (snd (run None (toy_runtime F) no_headers
        [(5, RLPush ''q'' [''x'']), (6, RIncr ''n'')] \<lparr>sv_store = kv_new, sv_wal = [], sv_pubsub = pubsub_new\<rparr>)))" for F
  proof -
    let ?sv = "\<lparr>sv_store = kv_new, sv_wal = [], sv_pubsub = pubsub_new\<rparr>"
    let ?reqs = "[(5, RLPush ''q'' [''x'']), (6, RIncr ''n'')]"
    have "require_api_key None no_headers = None" by (simp add: require_api_key_def)
    moreover have "quiet (sv_store ?sv)"
      by (simp add: quiet_def kv_new_def with_config_def default_config_def)
    moreover have "accepted ?reqs (fst (run None (toy_runtime F) no_headers ?reqs ?sv))"
      by (simp add: accepted_def split_beta)
    ultimately show ?thesis
      using log_recovers_run[OF _ toy_runtime_reads, of None no_headers ?sv ?reqs F] by simp
  qed
  then show ?thesis by blast
qed



lemma unlogged_requests:
  "sv_wal (snd (handle cx h (RPfAdd k vs) sv)) = sv_wal sv" "sv_wal (snd (handle cx h (RPfReserve k p) sv)) = sv_wal sv"
  "sv_wal (snd (handle cx h (RPfMerge k ss) sv)) = sv_wal sv" "sv_wal (snd (handle cx h RMulti sv)) = sv_wal sv"
  "sv_wal (snd (handle cx h RExec sv)) = sv_wal sv" "sv_wal (snd (handle cx h RDiscard sv)) = sv_wal sv"
  by (simp_all add: handler_defs guarded_def respond_def respond_json_def split: option.splits)

lemma unlimited_fits: "unlimited s \<Longrightarrow> fits s v"
  by (auto simp: unlimited_def fits_def)

lemma set_in_transaction:
  assumes "quiet (sv_store sv)" "require_api_key key h = None" "transaction_queue (sv_store sv) = Some q"
    "validate_key (sv_store sv) k = Inr ()" "validate_value (sv_store sv) (VStr v) = Inr ()"
  shows "handle (env_at key R now) h (RSet k v None) sv =
    (ok_body (''Set '' @ quoted k @ '' successfully''),
     sv\<lparr>sv_wal := sv_wal sv @ [(now, wal_entry_new now (WalSet k (json_of_value R (VStr v)) None))],
        sv_store := (sv_store sv)\<lparr>transaction_queue := Some (q @ [TSet k (VStr v) None])\<rparr>\<rparr>)"
proof -
  have set: "kv_set now (sv_store sv) k (VStr v) = (Inr (), (sv_store sv)\<lparr>transaction_queue := Some (q @ [TSet k (VStr v) None])\<rparr>)"
    using assms(3-5) by (simp add: kv_set_def in_transaction_def queue_operation_def)
  show ?thesis
    using assms(1,2)
    by (simp add: api_set_value_def guarded_def env_at_def logged_first_def ideal_append_def set
        respond_def publishing_def quiet_publish)
qed

lemma handle_multi:
  assumes "require_api_key key h = None" "transaction_queue (sv_store sv) = None"
  shows "sv_store (snd (handle (env_at key R now) h RMulti sv)) = (sv_store sv)\<lparr>transaction_queue := Some []\<rparr>"
  using assms by (simp add: api_multi_def guarded_def env_at_def respond_json_def kv_multi_def)

lemma handle_discard:
  assumes "require_api_key key h = None" "transaction_queue (sv_store sv) = Some q"
  shows "sv_store (snd (handle (env_at key R now) h RDiscard sv)) = (sv_store sv)\<lparr>transaction_queue := None\<rparr>"
  using assms by (simp add: api_discard_def guarded_def env_at_def respond_json_def kv_discard_def)

text \<open>Transactions and the log disagree. A SET sent inside a transaction is logged when it is
  queued, and EXEC and DISCARD log nothing; so after MULTI, SET, DISCARD the store is the one
  before MULTI, but replaying the log from that store sets the key. PFADD, PFRESERVE and PFMERGE
  log nothing either: a restart loses them.\<close>

theorem discarded_set_reappears:
  fixes sv :: "ideal_log server" and t1 t2 t3 :: u64
  assumes "require_api_key key h = None" "strings_read_back R" "quiet (sv_store sv)"
    "accepts (sv_store sv) k (VStr v)" "unlimited (sv_store sv)"
  defines "sv' \<equiv> snd (run key R h [(t1, RMulti), (t2, RSet k v None), (t3, RDiscard)] sv)"
  shows "sv_store sv' = sv_store sv
     \<and> (\<exists>new s. sv_wal sv' = sv_wal sv @ new \<and> replay_entries R (sv_store sv) new = Inr s
              \<and> kv_get t s k = Some (VStr v))
     \<and> (\<forall>vs. sv_wal (snd (handle (env_at key R t) h (RPfAdd k vs) sv)) = sv_wal sv)"
proof -
  let ?s = "sv_store sv"
  have tq: "transaction_queue ?s = None" and val: "validate_key ?s k = Inr ()" "validate_value ?s (VStr v) = Inr ()"
    using assms(4) by (simp_all add: accepts_def in_transaction_def)
  let ?sv1 = "snd (handle (env_at key R t1) h RMulti sv)"
  note m = handle_multi[OF assms(1) tq, of R t1]
  have q1: "quiet (sv_store ?sv1)" "transaction_queue (sv_store ?sv1) = Some []"
    "validate_key (sv_store ?sv1) k = Inr ()" "validate_value (sv_store ?sv1) (VStr v) = Inr ()"
    unfolding m using assms(3) val by (simp_all add: validate_key_ok_iff validate_value_ok_iff)
  let ?e = "(t2, wal_entry_new t2 (WalSet k (json_of_value R (VStr v)) None))"
  let ?sv2 = "snd (handle (env_at key R t2) h (RSet k v None) ?sv1)"
  note s2 = set_in_transaction[OF q1(1) assms(1) q1(2-4), of R t2]
  have wal2: "sv_wal ?sv2 = sv_wal sv @ [?e]" and st2: "sv_store ?sv2 = ?s\<lparr>transaction_queue := Some [TSet k (VStr v) None]\<rparr>"
    unfolding s2 by (simp_all add: unlogged_requests m del: handle.simps)
  have sv': "sv' = snd (handle (env_at key R t3) h RDiscard ?sv2)"
    by (simp add: sv'_def split_beta Let_def del: handle.simps)
  have "transaction_queue (sv_store ?sv2) = Some [TSet k (VStr v) None]" unfolding st2 by simp
  from handle_discard[OF assms(1) this, of R t3] have "sv_store sv' = ?s"
    unfolding sv' st2 using tq by simp
  moreover have "sv_wal sv' = sv_wal sv @ [?e]" unfolding sv' by (simp only: unlogged_requests wal2)
  moreover have "replay_entries R ?s [?e] = Inr (snd (kv_set t2 ?s k (VStr v)))"
    using assms(2) kv_set_accepts[OF assms(4), of t2] by (simp add: strings_read_back_def wal_entry_new_def)
  moreover have "kv_get t (snd (kv_set t2 ?s k (VStr v))) k = Some (VStr v)"
    using kv_get_set[OF assms(4) unlimited_fits[OF assms(5)], of t t2] by simp
  ultimately show ?thesis using unlogged_requests(1) by blast
qed

definition open_store :: kv_store where
  "open_store = with_config (default_config\<lparr>lru_eviction_enabled := False\<rparr>)"

lemma open_store_facts:
  "quiet open_store" "unlimited open_store" "accepts open_store ''k'' (VStr ''v'')"
  "accepts open_store ''k'' (VStr ''w'')"
  by (simp_all add: open_store_def quiet_def unlimited_def accepts_def with_config_def default_config_def
      validate_key_def validate_value_def in_transaction_def config_default_defs)

theorem discarded_set_reappears_witness:
  "\<forall>F. sv_store (snd (run None (toy_runtime F) no_headers [(1, RMulti), (2, RSet ''k'' ''v'' None), (3, RDiscard)]
      \<lparr>sv_store = open_store, sv_wal = [], sv_pubsub = pubsub_new\<rparr>)) = open_store"
proof -
  have "sv_store (snd (run None (toy_runtime F) no_headers [(1, RMulti), (2, RSet ''k'' ''v'' None), (3, RDiscard)]
      \<lparr>sv_store = open_store, sv_wal = [], sv_pubsub = pubsub_new\<rparr>)) = open_store" for F
  proof -
    let ?sv = "\<lparr>sv_store = open_store, sv_wal = [], sv_pubsub = pubsub_new\<rparr> :: ideal_log server"
    have a: "require_api_key None no_headers = None" by (simp add: require_api_key_def)
    have f: "quiet (sv_store ?sv)" "accepts (sv_store ?sv) ''k'' (VStr ''v'')" "unlimited (sv_store ?sv)"
      using open_store_facts by simp_all
    note gone = conjunct1[OF discarded_set_reappears[OF a toy_runtime_reads f, of F 1 2 3 0]]
    then show ?thesis by (simp del: run.simps)
  qed
  then show ?thesis by blast
qed

text \<open>
  A handler appends to the log before it takes the store's lock. Two handlers are four half
  steps; each half is atomic, and each handler's append precedes its own application.
\<close>

datatype half_step = LogHalf "wal_operation" | ApplyHalf "wal_operation"

fun half :: "'f runtime \<Rightarrow> u64 \<Rightarrow> kv_store \<times> wal_operation list \<Rightarrow> half_step \<Rightarrow> kv_store \<times> wal_operation list" where
  "half R now (s, w) (LogHalf op) = (s, w @ [op])"
| "half R now (s, w) (ApplyHalf op) = ((case replay_op R now s op of Inr t \<Rightarrow> t | Inl _ \<Rightarrow> s), w)"

definition recovered :: "'f runtime \<Rightarrow> u64 \<Rightarrow> kv_store \<Rightarrow> wal_operation list \<Rightarrow> kv_store" where
  "recovered R now s w = fst (foldl (half R now) (s, []) (map ApplyHalf w))"

lemma half_applies: "snd (foldl (half R now) (s, w) (map ApplyHalf ops)) = w"
  by (induction ops arbitrary: s) simp_all

text \<open>The log's order can differ from the store's. When two SETs of one key interleave so that
  the first logs, the second logs, the second applies and the first applies, the server holds the
  first value and the recovered store the second; when each handler's halves are adjacent, the
  recovered store is the server's.\<close>

theorem log_order_race:
  fixes now :: u64
  assumes "strings_read_back R" "accepts s k (VStr v1)" "accepts s k (VStr v2)" "unlimited s"
  defines "a \<equiv> WalSet k (json_of_value R (VStr v1)) None" and "b \<equiv> WalSet k (json_of_value R (VStr v2)) None"
  defines "raced \<equiv> foldl (half R now) (s, []) [LogHalf a, LogHalf b, ApplyHalf b, ApplyHalf a]"
    and "serial \<equiv> foldl (half R now) (s, []) [LogHalf a, ApplyHalf a, LogHalf b, ApplyHalf b]"
  shows "kv_get t (fst raced) k = Some (VStr v1)
     \<and> kv_get t (recovered R now s (snd raced)) k = Some (VStr v2)
     \<and> fst serial = recovered R now s (snd serial)"
proof -
  have set: "replay_op R now u (WalSet k (json_of_value R (VStr v)) None) = Inr (snd (kv_set now u k (VStr v)))"
    "accepts (snd (kv_set now u k (VStr v))) k x = accepts u k x"
    "unlimited (snd (kv_set now u k (VStr v))) = unlimited u"
    if "accepts u k (VStr v)" for u v x
  proof -
    show "replay_op R now u (WalSet k (json_of_value R (VStr v)) None) = Inr (snd (kv_set now u k (VStr v)))"
      using assms(1) kv_set_accepts[OF that, of now] by (simp add: strings_read_back_def)
    have "transaction_queue (store_entry now k w None u) = transaction_queue u" for w
      by (simp add: store_entry_def Let_def)
    then show "accepts (snd (kv_set now u k (VStr v))) k x = accepts u k x"
      by (simp add: kv_set_accepts[OF that] accepts_def validate_key_def validate_value_def in_transaction_def)
    show "unlimited (snd (kv_set now u k (VStr v))) = unlimited u"
      by (simp add: kv_set_accepts[OF that] unlimited_def)
  qed
  note ab = set[OF assms(2)] set[OF assms(3)]
  have acc: "accepts (snd (kv_set now s k (VStr v2))) k (VStr v1)" "accepts (snd (kv_set now s k (VStr v1))) k (VStr v2)"
    using ab(2,5) assms(2,3) by simp_all
  have fit: "fits (snd (kv_set now s k (VStr v2))) (VStr v1)" "fits (snd (kv_set now s k (VStr v1))) (VStr v2)"
    using ab(3,6) assms(4) by (simp_all add: unlimited_fits)
  have r: "raced = (snd (kv_set now (snd (kv_set now s k (VStr v2))) k (VStr v1)), [a, b])"
    using set(1)[OF acc(1)] ab(4) by (simp add: raced_def a_def b_def del: replay_op.simps)
  have rec: "recovered R now s [a, b] = snd (kv_set now (snd (kv_set now s k (VStr v1))) k (VStr v2))"
    using set(1)[OF acc(2)] ab(1) by (simp add: recovered_def a_def b_def del: replay_op.simps)
  have ser: "serial = (snd (kv_set now (snd (kv_set now s k (VStr v1))) k (VStr v2)), [a, b])"
    using set(1)[OF acc(2)] ab(1) by (simp add: serial_def a_def b_def del: replay_op.simps)
  show ?thesis
    using kv_get_set[OF acc(1) fit(1), of t now] kv_get_set[OF acc(2) fit(2), of t now] by (simp add: r ser rec)
qed

theorem log_order_race_witness:
  "\<forall>F. \<exists>w. foldl (half (toy_runtime F) 5) (open_store, [])
        [LogHalf (WalSet ''k'' ''Sv'' None), LogHalf (WalSet ''k'' ''Sw'' None),
         ApplyHalf (WalSet ''k'' ''Sw'' None), ApplyHalf (WalSet ''k'' ''Sv'' None)] = w
      \<and> kv_get 9 (fst w) ''k'' = Some (VStr ''v'')
      \<and> kv_get 9 (recovered (toy_runtime F) 5 open_store (snd w)) ''k'' = Some (VStr ''w'')"
proof -
  have "\<exists>w. foldl (half (toy_runtime F) 5) (open_store, [])
        [LogHalf (WalSet ''k'' ''Sv'' None), LogHalf (WalSet ''k'' ''Sw'' None),
         ApplyHalf (WalSet ''k'' ''Sw'' None), ApplyHalf (WalSet ''k'' ''Sv'' None)] = w
      \<and> kv_get 9 (fst w) ''k'' = Some (VStr ''v'')
      \<and> kv_get 9 (recovered (toy_runtime F) 5 open_store (snd w)) ''k'' = Some (VStr ''w'')" for F
  proof -
    have j: "json_of_value (toy_runtime F) (VStr ''v'') = ''Sv''" "json_of_value (toy_runtime F) (VStr ''w'') = ''Sw''"
      by (simp_all add: toy_runtime_def)
    from log_order_race[OF toy_runtime_reads open_store_facts(3,4,2), of 9 F 5] show ?thesis
      unfolding j by blast
  qed
  then show ?thesis by blast
qed

end
