(* ===== verification/Replication.thy ===== *)
theory Replication
  imports Http_Recovery
begin

section \<open>Replication (replication.rs and its endpoints in api.rs)\<close>

text \<open>
  A master serves its log in pages and tracks the replicas that report to it; a replica pulls
  pages from the index it has applied up to, applies each entry to its store and appends it to
  its own log. The result of \<open>Wal::read_all\<close> on the master's log and the replica's append are
  arguments; HTTP (\<open>reqwest\<close>) is the reply each request gets.
\<close>

subsection \<open>The master\<close>

datatype replica_status = Healthy | Lagging | Disconnected

record replica_info =
  replica_id :: string
  reported_index :: u64
  last_heartbeat :: u64
  lag :: u64
  replica_status :: replica_status

record master =
  replicas :: "(string, replica_info) hmap"
  heartbeat_timeout_secs :: u64
  master_token :: "string option"

definition master_new :: "u64 \<Rightarrow> string option \<Rightarrow> master" where
  "master_new timeout token = \<lparr>replicas = [], heartbeat_timeout_secs = timeout, master_token = token\<rparr>"

definition verify_auth :: "master \<Rightarrow> string option \<Rightarrow> bool" where
  "verify_auth m provided =
     (case (master_token m, provided) of
        (None, _) \<Rightarrow> True
      | (Some expected, Some token) \<Rightarrow> token = expected
      | (Some _, None) \<Rightarrow> False)"

definition register_replica :: "wal_entry list result \<Rightarrow> u64 \<Rightarrow> string \<Rightarrow> u64 \<Rightarrow> master \<Rightarrow> unit result \<times> master" where
  "register_replica read_log now rid last_applied m =
     (case read_log of
        Inl e \<Rightarrow> (Inl e, m)
      | Inr entries \<Rightarrow>
          (let total_entries = of_nat (length entries);
               behind = saturating_sub_u64 total_entries last_applied;
               state = (if behind > 100 then Lagging else Healthy)
           in (Inr (), m\<lparr>replicas := hm_insert rid
                 \<lparr>replica_id = rid, reported_index = last_applied, last_heartbeat = now, lag = behind,
                  replica_status = state\<rparr> (replicas m)\<rparr>)))"

text \<open>
  \<open>None\<close> is the panic of the slice \<open>all_entries[start..end]\<close>; \<open>start + limit\<close> wraps in a release build.
\<close>

definition get_wal_entries :: "wal_entry list result \<Rightarrow> u64 \<Rightarrow> u64 \<Rightarrow> wal_entry list result option" where
  "get_wal_entries read_log from_index limit =
     (case read_log of
        Inl e \<Rightarrow> Some (Inl e)
      | Inr all_entries \<Rightarrow>
          (let start = unat from_index in
           if start \<ge> length all_entries then Some (Inr [])
           else let stop = min (unat (from_index + limit)) (length all_entries) in
             if start \<le> stop then Some (Inr (take (stop - start) (drop start all_entries))) else None))"

definition refresh_status :: "u64 \<Rightarrow> u64 \<Rightarrow> replica_info \<Rightarrow> replica_info" where
  "refresh_status timeout now ri =
     (if saturating_sub_u64 now (last_heartbeat ri) > timeout then ri\<lparr>replica_status := Disconnected\<rparr> else ri)"

definition get_replicas_info :: "u64 \<Rightarrow> master \<Rightarrow> replica_info list \<times> master" where
  "get_replicas_info now m =
     (let rs = map (\<lambda>(k, ri). (k, refresh_status (heartbeat_timeout_secs m) now ri)) (replicas m)
      in (map snd rs, m\<lparr>replicas := rs\<rparr>))"

definition remove_replica :: "string \<Rightarrow> master \<Rightarrow> unit result \<times> master" where
  "remove_replica rid m = (Inr (), m\<lparr>replicas := hm_remove rid (replicas m)\<rparr>)"

definition get_total_entries :: "wal_entry list result \<Rightarrow> u64 result" where
  "get_total_entries read_log = map_sum id (\<lambda>es. of_nat (length es)) read_log"

text \<open>The endpoints: the bearer token is checked first; a panic of the handler drops the connection.\<close>

datatype 'a answer = Unauthorized | ServerError string | Dropped | Served 'a

definition bearer_token :: "headers \<Rightarrow> string option" where
  "bearer_token h = Option.bind (authorization h) (strip_prefix ''Bearer '')"

text \<open>The header \<open>with_auth_get\<close> and \<open>with_auth_post\<close> of a replica put on its requests.\<close>

definition with_auth :: "string option \<Rightarrow> headers" where
  "with_auth secret = \<lparr>x_api_key = None, authorization = map_option (\<lambda>token. ''Bearer '' @ token) secret\<rparr>"


definition replication_heartbeat ::
  "wal_entry list result \<Rightarrow> u64 \<Rightarrow> headers \<Rightarrow> string \<Rightarrow> u64 \<Rightarrow> master \<Rightarrow> unit answer \<times> master" where
  "replication_heartbeat read_log now h rid last_applied m =
     (if \<not> verify_auth m (bearer_token h) then (Unauthorized, m)
      else case register_replica read_log now rid last_applied m of
        (Inr _, m') \<Rightarrow> (Served (), m')
      | (Inl e, m') \<Rightarrow> (ServerError (show_error e), m'))"

definition replication_get_wal ::
  "wal_entry list result \<Rightarrow> headers \<Rightarrow> u64 \<Rightarrow> u64 option \<Rightarrow> master \<Rightarrow> (wal_entry list \<times> u64) answer" where
  "replication_get_wal read_log h from_index limit m =
     (if \<not> verify_auth m (bearer_token h) then Unauthorized
      else case get_wal_entries read_log from_index (case limit of Some l \<Rightarrow> l | None \<Rightarrow> 100) of
        None \<Rightarrow> Dropped
      | Some (Inl e) \<Rightarrow> ServerError (show_error e)
      | Some (Inr entries) \<Rightarrow>
          (case get_total_entries read_log of
             Inr total_entries \<Rightarrow> Served (entries, total_entries)
           | Inl e \<Rightarrow> ServerError (show_error e)))"

subsection \<open>The replica\<close>

record 'w replica =
  rp_store :: kv_store
  rp_wal :: 'w
  last_applied_index :: u64
  applied_entry_timestamps :: "u64 set"
  last_successful_sync_unix_secs :: "u64 option"
  last_sync_duration_ms :: "u64 option"
  lag_entries :: u64

text \<open>\<open>new\<close>: the index is seeded from the replica's own log.\<close>

definition replica_new :: "wal_entry list result \<Rightarrow> kv_store \<Rightarrow> 'w \<Rightarrow> 'w replica result" where
  "replica_new read_log s w =
     map_sum id (\<lambda>entries. \<lparr>rp_store = s, rp_wal = w, last_applied_index = of_nat (length entries),
       applied_entry_timestamps = {}, last_successful_sync_unix_secs = None,
       last_sync_duration_ms = None, lag_entries = 0\<rparr>) read_log"

text \<open>What a request comes back with: no response, or a status (and its text) with a decoded body.\<close>

datatype 'a reply = Unsent string | Answer nat string "string + 'a"

definition heartbeat_reply :: "unit reply \<Rightarrow> unit result" where
  "heartbeat_reply r =
     (case r of
        Unsent e \<Rightarrow> Inl (ReplicationError (''Failed to send heartbeat: '' @ e))
      | Answer code status_text _ \<Rightarrow>
          if code = 401 then
            Inl (ReplicationError ''Heartbeat rejected: authentication failed. Check KV_REPLICATION_SECRET.'')
          else if \<not> (200 \<le> code \<and> code < 300) then
            Inl (ReplicationError (''Heartbeat failed with status: '' @ status_text))
          else Inr ())"

definition fetch_reply :: "(wal_entry list \<times> u64) reply \<Rightarrow> (wal_entry list \<times> u64) result" where
  "fetch_reply r =
     (case r of
        Unsent e \<Rightarrow> Inl (ReplicationError (''Failed to fetch WAL entries: '' @ e))
      | Answer code status_text bd \<Rightarrow>
          if code = 401 then
            Inl (ReplicationError ''WAL fetch rejected: authentication failed. Check KV_REPLICATION_SECRET.'')
          else if \<not> (200 \<le> code \<and> code < 300) then
            Inl (ReplicationError (''Fetch WAL failed with status: '' @ status_text))
          else case bd of
            Inl e \<Rightarrow> Inl (ReplicationError (''Failed to parse WAL response: '' @ e))
          | Inr page \<Rightarrow> Inr page)"

definition unit_result :: "'a result \<times> kv_store \<Rightarrow> unit result \<times> kv_store" where
  "unit_result r = (map_sum id (\<lambda>_. ()) (fst r), snd r)"

definition ignored :: "'a \<times> kv_store \<Rightarrow> unit result \<times> kv_store" where
  "ignored r = (Inr (), snd r)"

text \<open>
  The store's half of \<open>apply_wal_entry\<close>. A SET stores the logged text itself, where the
  server's own replay parses it; the scalar writes pass their error on (\<open>?\<close>), the others do not.
\<close>

fun apply_op :: "'f runtime \<Rightarrow> u64 \<Rightarrow> kv_store \<Rightarrow> wal_operation \<Rightarrow> unit result \<times> kv_store" where
  "apply_op R now s (WalSet key v ttl_secs) =
     (case ttl_secs of Some ttl \<Rightarrow> kv_set_with_ttl now s key (VStr v) ttl | None \<Rightarrow> kv_set now s key (VStr v))"
| "apply_op R now s (WalDelete key) = ignored (kv_delete now s key)"
| "apply_op R now s (WalIncr key) = unit_result (kv_incr s key)"
| "apply_op R now s (WalDecr key) = unit_result (kv_decr s key)"
| "apply_op R now s (WalIncrBy key amount) = unit_result (kv_incrby s key amount)"
| "apply_op R now s (WalAppend key v) = unit_result (kv_append now s key v)"
| "apply_op R now s (WalGetSet key v) = unit_result (kv_getset now s key (VStr v))"
| "apply_op R now s (WalMset pairs) = kv_mset now s pairs"
| "apply_op R now s (WalPfAdd key vs) = ignored (kv_pfadd (arith R) (hash_fn R) s key vs)"
| "apply_op R now s (WalPfMerge dest srcs) = ignored (kv_pfmerge (arith R) s dest srcs)"
| "apply_op R now s (WalLPush key vs) = ignored (kv_lpush s key vs)"
| "apply_op R now s (WalRPush key vs) = ignored (kv_rpush s key vs)"
| "apply_op R now s (WalLPop key) = ignored (kv_lpop s key)"
| "apply_op R now s (WalRPop key) = ignored (kv_rpop s key)"
| "apply_op R now s (WalExpire key ttl) = ignored (kv_expire now s key ttl)"
| "apply_op R now s (WalPersist key) = ignored (kv_persist now s key)"
| "apply_op R now s (WalHSet key fds) = ignored (kv_hset s key fds)"
| "apply_op R now s (WalHDel key fs) = ignored (kv_hdel s key fs)"
| "apply_op R now s (WalHIncrBy key field amount) = ignored (kv_hincrby s key field amount)"

type_synonym 'w append_entry = "wal_entry \<Rightarrow> 'w \<Rightarrow> unit result \<times> 'w"

definition apply_wal_entry ::
  "'f runtime \<Rightarrow> 'w append_entry \<Rightarrow> u64 \<Rightarrow> wal_entry \<Rightarrow> 'w replica \<Rightarrow> unit result \<times> 'w replica" where
  "apply_wal_entry R lg now entry r =
     (case apply_op R now (rp_store r) (operation entry) of
        (Inl e, s) \<Rightarrow> (Inl e, r\<lparr>rp_store := s\<rparr>)
      | (Inr _, s) \<Rightarrow>
          (case lg entry (rp_wal r) of
             (Inl e, w) \<Rightarrow> (Inl e, r\<lparr>rp_store := s, rp_wal := w\<rparr>)
           | (Inr _, w) \<Rightarrow> (Inr (), r\<lparr>rp_store := s, rp_wal := w\<rparr>)))"

text \<open>The loop over a page, with the set seen in the page and the count applied; \<open>clock\<close> per entry.\<close>

fun sync_entries ::
  "'f runtime \<Rightarrow> 'w append_entry \<Rightarrow> u64 set \<Rightarrow> nat \<Rightarrow> (u64 \<times> wal_entry) list \<Rightarrow> 'w replica \<Rightarrow> nat result \<times> 'w replica" where
  "sync_entries R lg batch_seen applied_count [] r = (Inr applied_count, r)"
| "sync_entries R lg batch_seen applied_count ((now, entry) # rest) r =
     (if timestamp entry \<in> batch_seen then sync_entries R lg batch_seen applied_count rest r
      else
        let seen = insert (timestamp entry) batch_seen in
        if timestamp entry \<in> applied_entry_timestamps r then sync_entries R lg seen applied_count rest r
        else case apply_wal_entry R lg now entry r of
          (Inl e, r1) \<Rightarrow> (Inl e, r1)
        | (Inr _, r1) \<Rightarrow>
            sync_entries R lg seen (applied_count + 1) rest
              (r1\<lparr>applied_entry_timestamps := insert (timestamp entry) (applied_entry_timestamps r1)\<rparr>))"

text \<open>
  What the clocks of one sync show: the reading at each entry of the page, at the end, and the
  elapsed milliseconds.
\<close>

record sync_clock =
  entry_time :: "nat \<Rightarrow> u64"
  finish_time :: u64
  elapsed_ms :: u64

definition sync_done :: "sync_clock \<Rightarrow> u64 \<Rightarrow> 'w replica \<Rightarrow> 'w replica" where
  "sync_done T behind r =
     r\<lparr>lag_entries := behind, last_successful_sync_unix_secs := Some (finish_time T),
       last_sync_duration_ms := Some (elapsed_ms T)\<rparr>"

definition sync ::
  "'f runtime \<Rightarrow> 'w append_entry \<Rightarrow> sync_clock \<Rightarrow> (u64 \<Rightarrow> unit reply) \<Rightarrow> (u64 \<Rightarrow> (wal_entry list \<times> u64) reply) \<Rightarrow>
   'w replica \<Rightarrow> nat result \<times> 'w replica" where
  "sync R lg T send_heartbeat fetch r =
     (let last_applied = last_applied_index r in
      case heartbeat_reply (send_heartbeat last_applied) of
        Inl e \<Rightarrow> (Inl e, r)
      | Inr _ \<Rightarrow>
      case fetch_reply (fetch last_applied) of
        Inl e \<Rightarrow> (Inl e, r)
      | Inr (entries, total_entries) \<Rightarrow>
          if entries = [] then (Inr 0, sync_done T (saturating_sub_u64 total_entries last_applied) r)
          else case sync_entries R lg {} 0 (zip (map (entry_time T) [0..<length entries]) entries) r of
            (Inl e, r1) \<Rightarrow> (Inl e, r1)
          | (Inr applied_count, r1) \<Rightarrow>
              (let latest = last_applied_index r1 + of_nat applied_count in
               (Inr applied_count,
                sync_done T (saturating_sub_u64 total_entries latest) (r1\<lparr>last_applied_index := latest\<rparr>))))"

record replication_status_info =
  st_last_applied :: u64
  st_lag_entries :: u64
  st_last_sync :: "u64 option"
  st_duration :: "u64 option"

definition get_status :: "'w replica \<Rightarrow> replication_status_info" where
  "get_status r = \<lparr>st_last_applied = last_applied_index r, st_lag_entries = lag_entries r,
     st_last_sync = last_successful_sync_unix_secs r, st_duration = last_sync_duration_ms r\<rparr>"

subsection \<open>Rounds of replication\<close>

text \<open>What the replica's HTTP client sees of the master's answer.\<close>

definition over_http :: "'a answer \<Rightarrow> 'a reply" where
  "over_http a =
     (case a of
        Unauthorized \<Rightarrow> Answer 401 ''401 Unauthorized'' (Inl ''expected value'')
      | ServerError e \<Rightarrow> Answer 500 ''500 Internal Server Error'' (Inl e)
      | Dropped \<Rightarrow> Unsent ''connection closed before message completed''
      | Served x \<Rightarrow> Answer 200 ''200 OK'' (Inr x))"

text \<open>One sync against a master whose log holds \<open>es\<close>: the heartbeat, then a page of 100 entries.\<close>

definition sync_round ::
  "'f runtime \<Rightarrow> 'w append_entry \<Rightarrow> headers \<Rightarrow> string \<Rightarrow> wal_entry list \<Rightarrow> u64 \<times> sync_clock \<Rightarrow> master \<times> 'w replica \<Rightarrow>
   nat result \<times> master \<times> 'w replica" where
  "sync_round R lg h rid es round mr =
     (let (now, T) = round; (m, r) = mr;
          (beat, m1) = replication_heartbeat (Inr es) now h rid (last_applied_index r) m;
          (res, r1) = sync R lg T (\<lambda>_. over_http beat) (\<lambda>i. over_http (replication_get_wal (Inr es) h i (Some 100) m1)) r
      in (res, m1, r1))"

fun sync_rounds ::
  "'f runtime \<Rightarrow> 'w append_entry \<Rightarrow> headers \<Rightarrow> string \<Rightarrow> wal_entry list \<Rightarrow> (u64 \<times> sync_clock) list \<Rightarrow> master \<times> 'w replica \<Rightarrow>
   nat result list \<times> master \<times> 'w replica" where
  "sync_rounds R lg h rid es [] mr = ([], mr)"
| "sync_rounds R lg h rid es (t # ts) mr =
     (let (x, mr1) = sync_round R lg h rid es t mr; (xs, mr2) = sync_rounds R lg h rid es ts mr1 in (x # xs, mr2))"

lemma sync_rounds_snoc:
  "sync_rounds R lg h rid es (ts @ [t]) mr =
     (let (xs, mr1) = sync_rounds R lg h rid es ts mr; (x, mr2) = sync_round R lg h rid es t mr1 in (xs @ [x], mr2))"
  by (induction ts arbitrary: mr) (auto split: prod.splits)

lemma register_replica_token[simp]:
  "master_token (snd (register_replica rl now rid i m)) = master_token m"
  by (auto simp: register_replica_def Let_def split: sum.splits)

text \<open>A replica's requests pass the master's check exactly when the master asks for none or the secrets agree.\<close>

lemma replica_authenticates:
  "verify_auth m (bearer_token (with_auth secret)) \<longleftrightarrow> master_token m = None \<or> master_token m = secret"
  by (cases secret) (auto simp: verify_auth_def bearer_token_def with_auth_def strip_prefix_def starts_with_def split: option.splits)

lemma verify_auth_token: "master_token m = master_token m' \<Longrightarrow> verify_auth m t = verify_auth m' t"
  by (simp add: verify_auth_def)

lemma get_wal_entries_page:
  "get_wal_entries (Inr es) i l =
     (if unat i < length es \<and> 2 ^ 64 \<le> unat i + unat l then None
      else Some (Inr (take (unat l) (drop (unat i) es))))"
proof (cases "2 ^ 64 \<le> unat i + unat l")
  case True
  have "unat i < 2 ^ 64" "unat l < 2 ^ 64" using unsigned_less[of i] unsigned_less[of l] by simp_all
  with True have "unat (i + l) = unat i + unat l - 2 ^ 64"
    by (simp add: unat_word_ariths mod_if)
  with True \<open>unat l < 2 ^ 64\<close> show ?thesis by (auto simp: get_wal_entries_def Let_def)
next
  case False
  then have "unat (i + l) = unat i + unat l" by (simp add: unat_word_ariths)
  with False show ?thesis
    by (auto simp: get_wal_entries_def Let_def min_def)
qed

text \<open>An authenticated round on a log of fewer than \<open>2^63\<close> entries.\<close>

lemma sync_round_eq:
  assumes "verify_auth m (bearer_token h)" "length es < 2 ^ 63"
  shows "\<exists>m1. verify_auth m1 (bearer_token h) \<and>
    sync_round R lg h rid es (now, T) (m, r) =
      (let (res, r1) = sync R lg T (\<lambda>_. Answer 200 ''200 OK'' (Inr ()))
          (\<lambda>i. Answer 200 ''200 OK'' (Inr (take 100 (drop (unat i) es), of_nat (length es)))) r in (res, m1, r1))"
proof -
  let ?m1 = "snd (register_replica (Inr es) now rid (last_applied_index r) m)"
  have a: "verify_auth ?m1 (bearer_token h)"
    using assms(1) verify_auth_token[OF register_replica_token] by blast
  have hb: "replication_heartbeat (Inr es) now h rid (last_applied_index r) m = (Served (), ?m1)"
    using assms(1) by (simp add: replication_heartbeat_def register_replica_def Let_def)
  have "unat (100 :: u64) = 100" by simp
  then have pg: "replication_get_wal (Inr es) h i (Some 100) ?m1 = Served (take 100 (drop (unat i) es), of_nat (length es))" for i
    using a assms(2) unsigned_less[of i] by (auto simp: replication_get_wal_def get_wal_entries_page get_total_entries_def)
  show ?thesis
    using a by (intro exI[of _ ?m1]) (simp add: sync_round_def hb pg over_http_def)
qed

subsection \<open>Applying a page\<close>

text \<open>The entries one after the other, without the duplicate guards.\<close>

fun apply_seq ::
  "'f runtime \<Rightarrow> 'w append_entry \<Rightarrow> (u64 \<times> wal_entry) list \<Rightarrow> 'w replica \<Rightarrow> unit result \<times> 'w replica" where
  "apply_seq R lg [] r = (Inr (), r)"
| "apply_seq R lg ((now, e) # es) r =
     (case apply_wal_entry R lg now e r of
        (Inl x, r1) \<Rightarrow> (Inl x, r1)
      | (Inr _, r1) \<Rightarrow> apply_seq R lg es r1)"

lemma apply_seq_append:
  "apply_seq R lg (xs @ ys) r =
     (case apply_seq R lg xs r of (Inl e, r1) \<Rightarrow> (Inl e, r1) | (Inr _, r1) \<Rightarrow> apply_seq R lg ys r1)"
  by (induction R lg xs r rule: apply_seq.induct) (auto split: prod.splits sum.splits)

lemma apply_wal_entry_frame:
  "apply_wal_entry R lg now e (r\<lparr>applied_entry_timestamps := A\<rparr>) =
     (fst (apply_wal_entry R lg now e r), (snd (apply_wal_entry R lg now e r))\<lparr>applied_entry_timestamps := A\<rparr>)"
  "apply_wal_entry R lg now e (r\<lparr>last_applied_index := i\<rparr>) =
     (fst (apply_wal_entry R lg now e r), (snd (apply_wal_entry R lg now e r))\<lparr>last_applied_index := i\<rparr>)"
  "apply_wal_entry R lg now e (sync_done T b r) =
     (fst (apply_wal_entry R lg now e r), sync_done T b (snd (apply_wal_entry R lg now e r)))"
  "applied_entry_timestamps (snd (apply_wal_entry R lg now e r)) = applied_entry_timestamps r"
  "last_applied_index (snd (apply_wal_entry R lg now e r)) = last_applied_index r"
  by (auto simp: apply_wal_entry_def sync_done_def split: prod.splits sum.splits)

lemma apply_seq_timestamps:
  "apply_seq R lg es (r\<lparr>applied_entry_timestamps := A\<rparr>) =
     (fst (apply_seq R lg es r), (snd (apply_seq R lg es r))\<lparr>applied_entry_timestamps := A\<rparr>)"
  by (induction es arbitrary: r) (auto simp: apply_wal_entry_frame split_beta split: sum.splits)

lemma apply_seq_index:
  "apply_seq R lg es (r\<lparr>last_applied_index := i\<rparr>) =
     (fst (apply_seq R lg es r), (snd (apply_seq R lg es r))\<lparr>last_applied_index := i\<rparr>)"
  by (induction es arbitrary: r) (auto simp: apply_wal_entry_frame split_beta split: sum.splits)

lemma apply_seq_done:
  "apply_seq R lg es (sync_done T b r) = (fst (apply_seq R lg es r), sync_done T b (snd (apply_seq R lg es r)))"
  by (induction es arbitrary: r) (auto simp: apply_wal_entry_frame split_beta split: sum.splits)

lemma apply_seq_keeps_timestamps:
  "applied_entry_timestamps (snd (apply_seq R lg es r)) = applied_entry_timestamps r"
  by (induction es arbitrary: r) (auto simp: apply_wal_entry_frame split_beta split: sum.splits)

lemma apply_seq_keeps_index:
  "last_applied_index (snd (apply_seq R lg es r)) = last_applied_index r"
  by (induction es arbitrary: r) (auto simp: apply_wal_entry_frame split_beta split: sum.splits)

lemmas apply_seq_frame = apply_seq_timestamps apply_seq_index apply_seq_done apply_seq_keeps_timestamps apply_seq_keeps_index

text \<open>Entries with new and distinct timestamps pass both guards.\<close>

lemma sync_entries_fresh:
  assumes "distinct (map (timestamp \<circ> snd) es)" "timestamp ` snd ` set es \<inter> (seen \<union> applied_entry_timestamps r) = {}"
  shows "sync_entries R lg seen n (es @ rest) r =
    (case apply_seq R lg es r of
       (Inl e, r1) \<Rightarrow> sync_entries R lg seen n (es @ rest) r
     | (Inr _, r1) \<Rightarrow> sync_entries R lg (seen \<union> timestamp ` snd ` set es) (n + length es) rest
         (r1\<lparr>applied_entry_timestamps := applied_entry_timestamps r \<union> timestamp ` snd ` set es\<rparr>))"
  using assms
proof (induction es arbitrary: seen n r)
  case (Cons p es)
  obtain now e where p: "p = (now, e)" by (cases p)
  obtain x r1 where x: "apply_wal_entry R lg now e r = (x, r1)" by fastforce
  note f = apply_wal_entry_frame[where R = R and lg = lg and now = now and e = e and r = r, unfolded x, simplified]
  show ?case
  proof (cases x)
    case (Inl err)
    with p x show ?thesis by simp
  next
    case (Inr u)
    let ?r = "r1\<lparr>applied_entry_timestamps := insert (timestamp e) (applied_entry_timestamps r)\<rparr>"
    have "distinct (map (timestamp \<circ> snd) es)"
      "timestamp ` snd ` set es \<inter> (insert (timestamp e) seen \<union> applied_entry_timestamps ?r) = {}"
      using Cons.prems p f by (auto simp: comp_def)
    note ih = Cons.IH[OF this, of "n + 1"]
    have "sync_entries R lg seen n ((p # es) @ rest) r = sync_entries R lg (insert (timestamp e) seen) (n + 1) (es @ rest) ?r"
      using Cons.prems p x Inr f by simp
    moreover obtain y r2 where y: "apply_seq R lg es r1 = (y, r2)" by fastforce
    then have "apply_seq R lg (p # es) r = (y, r2)" "apply_seq R lg es ?r = (y, r2\<lparr>applied_entry_timestamps := insert (timestamp e) (applied_entry_timestamps r)\<rparr>)"
      using p x Inr by (simp_all add: apply_seq_frame)
    ultimately show ?thesis
      using ih p f(4) by (cases y) (simp_all add: comp_def)
  qed
qed simp

subsection \<open>Rounds from a fresh replica\<close>

text \<open>A replica's bookkeeping, apart from its store and its log.\<close>

definition with_marks :: "u64 \<Rightarrow> u64 set \<Rightarrow> u64 \<Rightarrow> u64 option \<Rightarrow> u64 option \<Rightarrow> 'w replica \<Rightarrow> 'w replica" where
  "with_marks i A l a b r =
     r\<lparr>last_applied_index := i, applied_entry_timestamps := A, lag_entries := l,
       last_successful_sync_unix_secs := a, last_sync_duration_ms := b\<rparr>"

lemma with_marks_simps[simp]:
  "last_applied_index (with_marks i A l a b r) = i" "applied_entry_timestamps (with_marks i A l a b r) = A"
  "lag_entries (with_marks i A l a b r) = l" "rp_store (with_marks i A l a b r) = rp_store r"
  "rp_wal (with_marks i A l a b r) = rp_wal r"
  "(with_marks i A l a b r)\<lparr>applied_entry_timestamps := A'\<rparr> = with_marks i A' l a b r"
  "(with_marks i A l a b r)\<lparr>last_applied_index := i'\<rparr> = with_marks i' A l a b r"
  "sync_done T l' (with_marks i A l a b r) = with_marks i A l' (Some (finish_time T)) (Some (elapsed_ms T)) r"
  by (simp_all add: with_marks_def sync_done_def)

lemma apply_wal_entry_marks:
  "apply_wal_entry R lg now e (with_marks i A l a b r) =
     (fst (apply_wal_entry R lg now e r), with_marks i A l a b (snd (apply_wal_entry R lg now e r)))"
  by (auto simp: apply_wal_entry_def with_marks_def split: prod.splits sum.splits)

lemma apply_seq_marks:
  "apply_seq R lg es (with_marks i A l a b r) = (fst (apply_seq R lg es r), with_marks i A l a b (snd (apply_seq R lg es r)))"
  by (induction es arbitrary: r) (auto simp: apply_wal_entry_marks split_beta split: sum.splits)

lemma own_marks:
  "with_marks (last_applied_index r) (applied_entry_timestamps r) (lag_entries r)
     (last_successful_sync_unix_secs r) (last_sync_duration_ms r) r = r"
  by (simp add: with_marks_def)

lemma sync_empty_page:
  assumes "drop (unat (last_applied_index r)) es = []"
  shows "sync R lg T (\<lambda>_. Answer 200 st (Inr ())) (\<lambda>i. Answer 200 st' (Inr (take 100 (drop (unat i) es), tot))) r
    = (Inr 0, sync_done T (saturating_sub_u64 tot (last_applied_index r)) r)"
  using assms by (simp add: sync_def heartbeat_reply_def fetch_reply_def)

lemma sync_fresh_page:
  assumes "page = take 100 (drop (unat (last_applied_index r)) es)" "page \<noteq> []"
    "distinct (map timestamp page)" "timestamp ` set page \<inter> applied_entry_timestamps r = {}"
    "apply_seq R lg (zip (map (entry_time T) [0..<length page]) page) r = (Inr (), r1)"
  shows "sync R lg T (\<lambda>_. Answer 200 st (Inr ())) (\<lambda>i. Answer 200 st' (Inr (take 100 (drop (unat i) es), tot))) r =
    (let latest = last_applied_index r + of_nat (length page) in
      (Inr (length page), sync_done T (saturating_sub_u64 tot latest)
        (r1\<lparr>applied_entry_timestamps := applied_entry_timestamps r \<union> timestamp ` set page,
            last_applied_index := latest\<rparr>)))"
proof -
  let ?z = "zip (map (entry_time T) [0..<length page]) page"
  have ss: "map snd ?z = page" by simp
  then have img: "timestamp ` snd ` set ?z = timestamp ` set page" by (metis set_map)
  have "map (timestamp \<circ> snd) ?z = map timestamp page" using ss by (metis map_map)
  then have "distinct (map (timestamp \<circ> snd) ?z)" using assms(3) by simp
  moreover have "timestamp ` snd ` set ?z \<inter> ({} \<union> applied_entry_timestamps r) = {}" using img assms(4) by simp
  ultimately have "sync_entries R lg {} 0 (?z @ []) r = (Inr (length page),
      r1\<lparr>applied_entry_timestamps := applied_entry_timestamps r \<union> timestamp ` set page\<rparr>)"
    using assms(5) by (subst sync_entries_fresh) (simp_all add: img)
  moreover have "last_applied_index r1 = last_applied_index r"
    using apply_seq_keeps_index[of R lg ?z r] assms(5) by simp
  ultimately show ?thesis
    using assms(1,2) by (simp add: sync_def heartbeat_reply_def fetch_reply_def Let_def)
qed

text \<open>When entry \<open>i\<close> of the log is applied, in rounds of 100 entries.\<close>

definition round_time :: "(u64 \<times> sync_clock) list \<Rightarrow> nat \<Rightarrow> u64" where
  "round_time ts i = entry_time (snd (ts ! (i div 100))) (i mod 100)"

definition timed :: "(nat \<Rightarrow> u64) \<Rightarrow> nat \<Rightarrow> wal_entry list \<Rightarrow> (u64 \<times> wal_entry) list" where
  "timed clk n es = zip (map clk [0..<n]) (take n es)"

lemma timed_cong: "(\<And>i. i < n \<Longrightarrow> f i = g i) \<Longrightarrow> timed f n es = timed g n es"
  unfolding timed_def by (metis (mono_tags, lifting) atLeastLessThan_iff map_eq_conv set_upt)

lemma timed_add:
  assumes "n \<le> length es"
  shows "timed f (n + k) es = timed f n es @ timed (\<lambda>j. f (n + j)) k (drop n es)"
proof -
  have "map f [n..<n + k] = map (\<lambda>j. f (n + j)) [0..<k]"
    by (rule nth_equalityI) simp_all
  then show ?thesis
    using assms upt_add_eq_append[of 0 n k] by (simp add: timed_def take_add zip_append)
qed

lemma timed_all: "timed f (length es) es = zip (map f [0..<length es]) es"
  by (simp add: timed_def)

lemma behind_of_nat:
  assumes "q \<le> n" "n < 2 ^ 63"
  shows "saturating_sub_u64 (of_nat n) (of_nat q) = of_nat (n - q)"
proof -
  have "unat (saturating_sub_u64 (of_nat n) (of_nat q)) = unat (of_nat (n - q) :: u64)"
    using assms by (simp add: unat_saturating_sub_u64 unat_of_nat_u64 del: of_nat_diff)
  then show ?thesis by (simp only: word_unat_eq_iff)
qed

lemma round_step:
  assumes "verify_auth m (bearer_token h)" "length es < 2 ^ 63" "p \<le> length es"
    and page: "page = take 100 (drop p es)" "distinct (map timestamp page)" "timestamp ` set page \<inter> B = {}"
    and ap: "apply_seq R lg (zip (map (entry_time T) [0..<length page]) page) r0 = (Inr (), r1)"
  shows "\<exists>m2 a' b'. verify_auth m2 (bearer_token h) \<and>
    sync_round R lg h rid es (now, T) (m, with_marks (of_nat p) B l a b r0) =
      (Inr (length page), m2, with_marks (of_nat (p + length page)) (B \<union> timestamp ` set page)
         (of_nat (length es - (p + length page))) a' b' r1)"
proof -
  let ?r = "with_marks (of_nat p) B l a b r0"
  from sync_round_eq[OF assms(1,2), of R lg rid now T ?r] obtain m2 where m2: "verify_auth m2 (bearer_token h)"
    "sync_round R lg h rid es (now, T) (m, ?r) = (let (res, r2) = sync R lg T (\<lambda>_. Answer 200 ''200 OK'' (Inr ()))
          (\<lambda>i. Answer 200 ''200 OK'' (Inr (take 100 (drop (unat i) es), of_nat (length es)))) ?r in (res, m2, r2))"
    by blast
  have idx: "unat (last_applied_index ?r) = p"
    unfolding with_marks_simps using assms(2,3) by (intro unat_of_nat_u64) simp
  have le: "p + length page \<le> length es" using assms(3) page(1) by simp
  note lag = behind_of_nat[OF le assms(2)]
  show ?thesis
  proof (cases "page = []")
    case True
    then have "drop (unat (last_applied_index ?r)) es = []" using page(1) idx by simp
    note s = sync_empty_page[OF this, of R lg T "''200 OK''" "''200 OK''" "of_nat (length es)"]
    have "r1 = r0" using ap True by simp
    then show ?thesis
      using m2 True lag by (intro exI conjI) (auto simp: s)
  next
    case False
    have "apply_seq R lg (zip (map (entry_time T) [0..<length page]) page) ?r = (Inr (), with_marks (of_nat p) B l a b r1)"
      using ap by (simp add: apply_seq_marks)
    from sync_fresh_page[OF _ False page(2) _ this, of es "''200 OK''" "''200 OK''" "of_nat (length es)"]
    have s: "sync R lg T (\<lambda>_. Answer 200 ''200 OK'' (Inr ()))
          (\<lambda>i. Answer 200 ''200 OK'' (Inr (take 100 (drop (unat i) es), of_nat (length es)))) ?r =
        (Inr (length page), with_marks (of_nat (p + length page)) (B \<union> timestamp ` set page)
          (of_nat (length es - (p + length page))) (Some (finish_time T)) (Some (elapsed_ms T)) r1)"
      using page(1,3) idx lag by (simp add: Let_def)
    show ?thesis using m2 by (intro exI conjI) (auto simp: s)
  qed
qed

lemma rounds_apply_prefix:
  assumes "verify_auth m (bearer_token h)" "length es < 2 ^ 63"
    "last_applied_index r = of_nat k" "k \<le> length es"
    "distinct (map timestamp (drop k es))"
    "timestamp ` set (drop k es) \<inter> applied_entry_timestamps r = {}"
  shows "n = min (100 * length ts) (length es - k) \<Longrightarrow>
    apply_seq R lg (timed (round_time ts) n (drop k es)) r = (Inr (), r1) \<Longrightarrow>
    \<exists>m1 l a b xs. verify_auth m1 (bearer_token h) \<and> list_all is_ok xs
      \<and> (ts \<noteq> [] \<longrightarrow> l = of_nat (length es - (k + n)))
      \<and> sync_rounds R lg h rid es ts (m, r) =
          (xs, m1, with_marks (of_nat (k + n)) (applied_entry_timestamps r \<union> timestamp ` set (take n (drop k es))) l a b r1)"
proof (induction ts arbitrary: n r1 rule: rev_induct)
  case Nil
  then have "r1 = r" by (simp add: timed_def)
  then show ?case
    using assms(1,3) own_marks[of r] Nil(1)
    by (intro exI[of _ m] exI[of _ "lag_entries r"] exI[of _ "last_successful_sync_unix_secs r"]
          exI[of _ "last_sync_duration_ms r"] exI[of _ "[]"]) simp
next
  case (snoc t ts)
  obtain now T where t: "t = (now, T)" by (cases t)
  let ?es = "drop k es"
  define N where "N = min (100 * length ts) (length es - k)"
  define c where "c = n - N"
  have nc: "n = N + c" "N \<le> length ?es" "c \<le> 100" "k + N \<le> length es"
    using snoc.prems(1) assms(4) by (auto simp: c_def N_def)
  have old: "timed (round_time (ts @ [t])) N ?es = timed (round_time ts) N ?es"
  proof (rule timed_cong)
    fix i assume "i < N"
    then have "i div 100 < length ts" by (simp add: N_def div_less_iff_less_mult)
    then show "round_time (ts @ [t]) i = round_time ts i" by (simp add: round_time_def nth_append)
  qed
  let ?page = "take 100 (drop (k + N) es)"
  have pg: "?page = take c (drop N ?es)" and len: "length ?page = c"
    using snoc.prems(1) by (auto simp: c_def N_def add.commute take_all_iff min_def)
  have new: "timed (\<lambda>j. round_time (ts @ [t]) (N + j)) c (drop N ?es) = zip (map (entry_time T) [0..<length ?page]) ?page"
  proof -
    have "round_time (ts @ [t]) (N + j) = entry_time T j" if "j < c" for j
    proof -
      have "N = 100 * length ts" using that snoc.prems(1) by (auto simp: c_def N_def)
      then show ?thesis using that nc(3) by (simp add: round_time_def t)
    qed
    then have "timed (\<lambda>j. round_time (ts @ [t]) (N + j)) c (drop N ?es) = timed (entry_time T) c (drop N ?es)"
      by (rule timed_cong)
    then show ?thesis unfolding timed_def pg[symmetric] len .
  qed
  have "apply_seq R lg (timed (round_time ts) N ?es @ zip (map (entry_time T) [0..<length ?page]) ?page) r = (Inr (), r1)"
    using snoc.prems(2) timed_add[OF nc(2), of "round_time (ts @ [t])" c] unfolding nc(1) old new by simp
  then obtain r0 where r0: "apply_seq R lg (timed (round_time ts) N ?es) r = (Inr (), r0)"
    and r1: "apply_seq R lg (zip (map (entry_time T) [0..<length ?page]) ?page) r0 = (Inr (), r1)"
    by (auto simp: apply_seq_append split: prod.splits sum.splits)
  from snoc.IH[OF N_def r0] obtain m1 l a b xs where ih: "verify_auth m1 (bearer_token h)" "list_all is_ok xs"
    "sync_rounds R lg h rid es ts (m, r) =
       (xs, m1, with_marks (of_nat (k + N)) (applied_entry_timestamps r \<union> timestamp ` set (take N ?es)) l a b r0)"
    by blast
  have tn: "take n ?es = take N ?es @ ?page" unfolding pg nc(1) by (rule take_add)
  have "distinct (map timestamp (take n ?es))" using assms(5) by (metis distinct_take take_map)
  moreover have "set ?page \<subseteq> set ?es" unfolding pg by (meson order_trans set_drop_subset set_take_subset)
  ultimately have d: "distinct (map timestamp ?page)"
    "timestamp ` set ?page \<inter> (applied_entry_timestamps r \<union> timestamp ` set (take N ?es)) = {}"
    using assms(6) unfolding tn by auto
  from round_step[OF ih(1) assms(2) nc(4) refl d r1, of rid now l a b] obtain m2 a' b' where m2: "verify_auth m2 (bearer_token h)"
    "sync_round R lg h rid es t (m1, with_marks (of_nat (k + N)) (applied_entry_timestamps r \<union> timestamp ` set (take N ?es)) l a b r0) =
      (Inr (length ?page), m2, with_marks (of_nat (k + N + length ?page))
         (applied_entry_timestamps r \<union> timestamp ` set (take N ?es) \<union> timestamp ` set ?page)
         (of_nat (length es - (k + N + length ?page))) a' b' r1)"
    unfolding t by blast
  have idx: "k + N + length ?page = k + n" using nc(1) len by simp
  have set: "applied_entry_timestamps r \<union> timestamp ` set (take N ?es) \<union> timestamp ` set ?page
      = applied_entry_timestamps r \<union> timestamp ` set (take n ?es)" unfolding tn by auto
  have "sync_rounds R lg h rid es (ts @ [t]) (m, r) = (xs @ [Inr (length ?page)], m2,
      with_marks (of_nat (k + n)) (applied_entry_timestamps r \<union> timestamp ` set (take n ?es))
        (of_nat (length es - (k + n))) a' b' r1)"
    using m2(2) unfolding idx set by (simp only: sync_rounds_snoc ih(3) Let_def case_prod_conv)
  moreover have "list_all is_ok (xs @ [Inr (length ?page)])" using ih(2) by simp
  ultimately show ?case using m2(1) by blast
qed

lemma sync_round_page:
  assumes "verify_auth m (bearer_token h)" "length es < 2 ^ 63" "last_applied_index r = of_nat p" "p < length es"
  shows "\<exists>m2. verify_auth m2 (bearer_token h) \<and> sync_round R lg h rid es (now, T) (m, r) =
    (case sync_entries R lg {} 0 (zip (map (entry_time T) [0..<length (take 100 (drop p es))]) (take 100 (drop p es))) r of
       (Inl e, r1) \<Rightarrow> (Inl e, m2, r1)
     | (Inr c, r1) \<Rightarrow> (Inr c, m2, sync_done T (saturating_sub_u64 (of_nat (length es)) (last_applied_index r1 + of_nat c))
                                  (r1\<lparr>last_applied_index := last_applied_index r1 + of_nat c\<rparr>)))"
proof -
  from sync_round_eq[OF assms(1,2), of R lg rid now T r] obtain m2 where m2: "verify_auth m2 (bearer_token h)"
    "sync_round R lg h rid es (now, T) (m, r) = (let (res, r2) = sync R lg T (\<lambda>_. Answer 200 ''200 OK'' (Inr ()))
          (\<lambda>i. Answer 200 ''200 OK'' (Inr (take 100 (drop (unat i) es), of_nat (length es)))) r in (res, m2, r2))"
    by blast
  have idx: "unat (last_applied_index r) = p"
    unfolding assms(3) using assms(2,4) by (intro unat_of_nat_u64) simp
  have ne: "take 100 (drop p es) \<noteq> []" using assms(4) by simp
  show ?thesis
    using m2 ne by (intro exI[of _ m2]) (auto simp: sync_def heartbeat_reply_def fetch_reply_def idx Let_def
        split: prod.splits sum.splits)
qed

lemma sync_round_ok:
  assumes "verify_auth m (bearer_token h)" "length es < 2 ^ 63" "last_applied_index r = of_nat p" "p < length es"
    "sync_entries R lg {} 0 (zip (map (entry_time T) [0..<length (take 100 (drop p es))]) (take 100 (drop p es))) r = (Inr c, r1)"
    "last_applied_index r1 + of_nat c = i"
  shows "\<exists>m2 x y. verify_auth m2 (bearer_token h) \<and> sync_round R lg h rid es (now, T) (m, r) =
    (Inr c, m2, with_marks i (applied_entry_timestamps r1) (saturating_sub_u64 (of_nat (length es)) i) x y r1)"
proof -
  from sync_round_page[OF assms(1-4), of R lg rid now T] obtain m2 where "verify_auth m2 (bearer_token h)"
    "sync_round R lg h rid es (now, T) (m, r) = (Inr c, m2, sync_done T (saturating_sub_u64 (of_nat (length es)) i)
        (r1\<lparr>last_applied_index := i\<rparr>))"
    unfolding assms(5) by (auto simp: assms(6))
  then show ?thesis by (intro exI[of _ m2] exI conjI) (simp_all add: sync_done_def with_marks_def)
qed

lemma sync_round_error:
  assumes "verify_auth m (bearer_token h)" "length es < 2 ^ 63" "last_applied_index r = of_nat p" "p < length es"
    "sync_entries R lg {} 0 (zip (map (entry_time T) [0..<length (take 100 (drop p es))]) (take 100 (drop p es))) r = (Inl e, r1)"
  shows "\<exists>m2. verify_auth m2 (bearer_token h) \<and> sync_round R lg h rid es (now, T) (m, r) = (Inl e, m2, r1)"
  using sync_round_page[OF assms(1-4), of R lg rid now T] unfolding assms(5) by simp

subsection \<open>Properties\<close>


text \<open>C28: Two writes logged in one second: the second never reaches the replica. The duplicate guards
  compare timestamps, which are whole seconds. When the log ends in two entries of the same second,
  the replica applies the first; every later sync skips the second, answers success with nothing
  applied, and leaves the lag at one entry.\<close>

theorem same_second_write_lost:
  fixes rid :: string and now :: u64 and ts :: "(u64 \<times> sync_clock) list"
  assumes "verify_auth m (bearer_token h)" "length es < 2 ^ 63"
    "last_applied_index r = of_nat k" "drop k es = [a, b]" "timestamp a = timestamp b"
    "timestamp a \<notin> applied_entry_timestamps r" "apply_wal_entry R lg (entry_time T 0) a r = (Inr (), r1)"
  defines "out \<equiv> sync_rounds R lg h rid es ((now, T) # ts) (m, r)"
  shows "fst out = Inr 1 # replicate (length ts) (Inr 0)
    \<and> rp_store (snd (snd out)) = rp_store r1 \<and> rp_wal (snd (snd out)) = rp_wal r1
    \<and> lag_entries (snd (snd out)) = 1"
proof -
  have "length (drop k es) = 2" using assms(4) by simp
  then have len: "length es = k + 2" by simp
  have lag: "saturating_sub_u64 (of_nat (length es)) (of_nat (k + 1)) = 1"
    using behind_of_nat[of "k + 1" "length es"] assms(2) len by simp
  let ?A = "insert (timestamp a) (applied_entry_timestamps r)"
  let ?mark = "\<lambda>x y. with_marks (of_nat (k + 1)) ?A 1 x y r1"
  have d1: "drop (k + 1) es = [b]" using assms(4) by (metis Suc_eq_plus1 drop_Suc list.sel(3) tl_drop)
  have frame: "last_applied_index r1 = of_nat k" "applied_entry_timestamps r1 = applied_entry_timestamps r"
    using apply_wal_entry_frame(4,5)[where R = R and lg = lg and now = "entry_time T 0" and e = a and r = r] assms(3,7) by simp_all
  have page: "take 100 (drop k es) = [a, b]" using assms(4) by simp
  have "sync_entries R lg {} 0 (zip (map (entry_time T) [0..<length [a, b]]) [a, b]) r
      = (Inr 1, r1\<lparr>applied_entry_timestamps := ?A\<rparr>)"
    using assms(5-7) frame by simp
  then have e: "sync_entries R lg {} 0 (zip (map (entry_time T) [0..<length (take 100 (drop k es))]) (take 100 (drop k es))) r
      = (Inr 1, r1\<lparr>applied_entry_timestamps := ?A\<rparr>)" unfolding page .
  have i: "last_applied_index (r1\<lparr>applied_entry_timestamps := ?A\<rparr>) + of_nat 1 = of_nat (k + 1)"
    using frame(1) by simp
  have "k < length es" using len by simp
  from sync_round_ok[OF assms(1-3) this e i, of rid now] obtain m1 x y where first: "verify_auth m1 (bearer_token h)"
    "sync_round R lg h rid es (now, T) (m, r) = (Inr 1, m1, ?mark x y)"
    unfolding lag by (auto simp: with_marks_def)
  have later: "\<exists>m2 x' y'. sync_rounds R lg h rid es ts (m1, ?mark x y) = (replicate (length ts) (Inr 0), m2, ?mark x' y')"
    if "verify_auth m1 (bearer_token h)" for m1 x y
    using that
  proof (induction ts arbitrary: m1 x y)
    case (Cons t ts)
    obtain now T where t: "t = (now, T)" by (cases t)
    have pg: "take 100 (drop (k + 1) es) = [b]" using d1 by simp
    have "sync_entries R lg {} 0 (zip (map (entry_time T) [0..<length [b]]) [b]) (?mark x y) = (Inr 0, ?mark x y)"
      using assms(5) by simp
    then have e: "sync_entries R lg {} 0 (zip (map (entry_time T) [0..<length (take 100 (drop (k + 1) es))])
        (take 100 (drop (k + 1) es))) (?mark x y) = (Inr 0, ?mark x y)" unfolding pg .
    have i: "last_applied_index (?mark x y) = of_nat (k + 1)" "last_applied_index (?mark x y) + of_nat 0 = of_nat (k + 1)"
      by simp_all
    have "k + 1 < length es" using len by simp
    from sync_round_ok[OF Cons.prems assms(2) i(1) this e i(2), of rid now] obtain m2 x' y' where
      "verify_auth m2 (bearer_token h)" "sync_round R lg h rid es t (m1, ?mark x y) = (Inr 0, m2, ?mark x' y')"
      unfolding lag t by (auto simp: with_marks_def)
    moreover from Cons.IH[OF this(1), of x' y'] obtain m3 x3 y3 where
      "sync_rounds R lg h rid es ts (m2, ?mark x' y') = (replicate (length ts) (Inr 0), m3, ?mark x3 y3)" by blast
    ultimately have "sync_rounds R lg h rid es (t # ts) (m1, ?mark x y)
        = (replicate (length (t # ts)) (Inr 0), m3, ?mark x3 y3)" by simp
    then show ?case by blast
  next
    case Nil
    have "sync_rounds R lg h rid es [] (m1, ?mark x y) = (replicate (length []) (Inr 0), m1, ?mark x y)" by simp
    then show ?case by blast
  qed
  from later[OF first(1), of x y] show ?thesis by (auto simp: out_def first(2))
qed

lemma rounds_blocked:
  assumes "verify_auth m (bearer_token h)" "length es < 2 ^ 63" "last_applied_index r = of_nat p"
    "drop p es = e # rest" "timestamp e \<notin> applied_entry_timestamps r"
    "\<And>now. apply_op R now (rp_store r) (operation e) = (Inl err, rp_store r)"
  shows "\<exists>m1. sync_rounds R lg h rid es ts (m, r) = (replicate (length ts) (Inl err), m1, r)"
  using assms(1)
proof (induction ts arbitrary: m)
  case (Cons t ts)
  obtain now T where t: "t = (now, T)" by (cases t)
  have "length (drop p es) \<noteq> 0" using assms(4) by simp
  then have p: "p < length es" by simp
  have "take 100 (drop p es) = e # take 99 rest" using assms(4) by simp
  moreover have "apply_wal_entry R lg now e r = (Inl err, r)" for now
    using assms(6) by (simp add: apply_wal_entry_def)
  ultimately have "sync_entries R lg {} 0 (zip (map (entry_time T) [0..<length (take 100 (drop p es))]) (take 100 (drop p es))) r
      = (Inl err, r)"
    using assms(5) by (simp add: upt_conv_Cons del: upt_Suc)
  from sync_round_error[OF Cons.prems assms(2,3) p this, of rid now] obtain m2 where
    "verify_auth m2 (bearer_token h)" "sync_round R lg h rid es t (m, r) = (Inl err, m2, r)"
    unfolding t by blast
  with Cons.IH[of m2] show ?case by auto
qed simp

text \<open>C29: A write the master refuses stops its replicas for good. The INCR handler logs before the store
  refuses it, so an INCR of a missing or non-integer key answers 400 and stays in the log; a replica
  that was level with the master, and refuses it too, then fails at that entry in every later sync
  with the same error, whatever the master logs afterwards, and never changes again.\<close>

theorem rejected_incr_blocks_replicas:
  fixes rid :: string and now :: u64 and ts :: "(u64 \<times> sync_clock) list" and sv :: "ideal_log server" and R :: "'f runtime"
  assumes "require_api_key key hc = None" "fst (kv_incr (sv_store sv) k) = Inl err"
    "verify_auth m (bearer_token h)" "last_applied_index r = of_nat (length (sv_wal sv))"
    "fst (kv_incr (rp_store r) k) = Inl err" "now \<notin> applied_entry_timestamps r"
    "length (sv_wal sv) + length later + 1 < 2 ^ 63"
  defines "out \<equiv> handle (env_at key R now) hc (RIncr k) sv"
  shows "status (fst out) = 400 \<and> sv_store (snd out) = sv_store sv
    \<and> (\<exists>m1. sync_rounds R lg h rid (map snd (sv_wal (snd out)) @ later) ts (m, r)
              = (replicate (length ts) (Inl err), m1, r))"
proof -
  let ?e = "wal_entry_new now (WalIncr k)"
  have err: "kv_incr s k = (Inl err, s)" if "fst (kv_incr s k) = Inl err" for s
    using that kv_incrby_error[of s k 1 err] by (metis kv_incr_incrby(1) prod.collapse)
  have out: "status (fst out) = 400" "sv_store (snd out) = sv_store sv" "sv_wal (snd out) = sv_wal sv @ [(now, ?e)]"
    using assms(1) err[OF assms(2)]
    by (simp_all add: out_def api_incr_value_def guarded_def env_at_def logged_first_def ideal_append_def
        respond_def bad_request_def)
  have ap: "apply_op R t (rp_store r) (operation ?e) = (Inl err, rp_store r)" for t
    using err[OF assms(5)] by (simp add: wal_entry_new_def unit_result_def)
  have "timestamp ?e \<notin> applied_entry_timestamps r" using assms(6) by (simp add: wal_entry_new_def)
  from rounds_blocked[OF assms(3) _ assms(4) _ this ap, where es = "map snd (sv_wal (snd out)) @ later" and rest = later]
  have "\<exists>m1. sync_rounds R lg h rid (map snd (sv_wal (snd out)) @ later) ts (m, r) = (replicate (length ts) (Inl err), m1, r)"
    using assms(7) by (simp add: out(3))
  with out(1,2) show ?thesis by blast
qed

text \<open>What the master serves. A page is the entries from the index on, at most \<open>limit\<close> of them, and
  empty past the end; the handler panics exactly when the index is inside the log and \<open>index + limit\<close>
  exceeds 64 bits; a request without the master's token is refused, and its heartbeat not recorded.\<close>

theorem master_serves_pages:
  "get_wal_entries (Inr es) i l =
     (if unat i < length es \<and> 2 ^ 64 \<le> unat i + unat l then None
      else Some (Inr (take (unat l) (drop (unat i) es))))
   \<and> (master_token m \<noteq> None \<and> bearer_token h \<noteq> master_token m \<longrightarrow>
        replication_get_wal read_log h i lim m = Unauthorized
        \<and> replication_heartbeat read_log now h rid j m = (Unauthorized, m))"
  using get_wal_entries_page[of es i l]
  by (auto simp: replication_get_wal_def replication_heartbeat_def verify_auth_def split: option.splits)

lemma info_lookup:
  "hm_get (replicas (snd (get_replicas_info now m))) rid
     = map_option (refresh_status (heartbeat_timeout_secs m) now) (hm_get (replicas m) rid)"
  by (simp add: get_replicas_info_def Let_def map_of_map)

text \<open>A replica's heartbeat: its lag is the log's length less its index, it is lagging above 100
  entries and disconnected once its heartbeat is older than the timeout; no other replica is
  affected, and a removed replica is not listed.\<close>

lemma heartbeat_tracks_replica:
  "let m1 = snd (register_replica (Inr es) now rid i m); m2 = snd (get_replicas_info later m1);
       behind = saturating_sub_u64 (of_nat (length es)) i
   in hm_get (replicas m2) rid = Some \<lparr>replica_id = rid, reported_index = i, last_heartbeat = now, lag = behind,
        replica_status = (if heartbeat_timeout_secs m < saturating_sub_u64 later now then Disconnected
                          else if 100 < behind then Lagging else Healthy)\<rparr>
    \<and> (\<forall>other. other \<noteq> rid \<longrightarrow> hm_get (replicas m1) other = hm_get (replicas m) other)
    \<and> hm_get (replicas (snd (remove_replica rid m2))) rid = None"
  by (simp add: Let_def info_lookup register_replica_def refresh_status_def remove_replica_def)

subsection \<open>Concrete replicas\<close>

definition open_master :: master where "open_master = master_new 30 None"

text \<open>A log that records every entry, and a replica that starts empty.\<close>

definition keep_entry :: "wal_entry list append_entry" where
  "keep_entry e w = (Inr (), w @ [e])"

definition fresh_replica :: "wal_entry list replica" where
  "fresh_replica = \<lparr>rp_store = kv_new, rp_wal = [], last_applied_index = 0, applied_entry_timestamps = {},
     last_successful_sync_unix_secs = None, last_sync_duration_ms = None, lag_entries = 0\<rparr>"

definition push_at :: "u64 \<Rightarrow> string \<Rightarrow> wal_entry" where
  "push_at now v = \<lparr>timestamp = now, operation = WalRPush ''q'' [v]\<rparr>"

definition any_clock :: sync_clock where
  "any_clock = \<lparr>entry_time = (\<lambda>_. 9), finish_time = 9, elapsed_ms = 1\<rparr>"

lemma concrete_facts:
  "replica_new (Inr []) kv_new [] = Inr fresh_replica"
  "verify_auth open_master (bearer_token no_headers)"
  "last_applied_index fresh_replica = of_nat 0" "applied_entry_timestamps fresh_replica = {}"
  by (simp_all add: replica_new_def fresh_replica_def open_master_def master_new_def verify_auth_def)

lemma push_fresh:
  "kv_rpush kv_new ''q'' [v] = (Inr 1, update_lru ''q'' (create_entry ''q'' (VList [v]) kv_new))"
  by (simp add: kv_rpush_def kv_new_def with_config_def validate_key_def default_config_def config_default_defs)


theorem same_second_write_lost_witness:
  "\<forall>R :: nat runtime. lag_entries (snd (snd (sync_rounds R keep_entry no_headers ''r1'' [push_at 1 ''x'', push_at 1 ''y'']
      [(9, any_clock), (10, any_clock), (11, any_clock)] (open_master, fresh_replica)))) = 1"
proof -
  have "lag_entries (snd (snd (sync_rounds R keep_entry no_headers ''r1'' [push_at 1 ''x'', push_at 1 ''y'']
      [(9, any_clock), (10, any_clock), (11, any_clock)] (open_master, fresh_replica)))) = 1" for R :: "nat runtime"
  proof -
    let ?es = "[push_at 1 ''x'', push_at 1 ''y'']"
    obtain r1 where a: "apply_wal_entry R keep_entry (entry_time any_clock 0) (push_at 1 ''x'') fresh_replica = (Inr (), r1)"
      by (simp add: apply_wal_entry_def push_at_def ignored_def keep_entry_def)
    have f: "length ?es < 2 ^ 63" "drop 0 ?es = [push_at 1 ''x'', push_at 1 ''y'']"
      "timestamp (push_at 1 ''x'') = timestamp (push_at 1 ''y'')"
      "timestamp (push_at 1 ''x'') \<notin> applied_entry_timestamps fresh_replica"
      by (simp_all add: push_at_def fresh_replica_def)
    from same_second_write_lost[OF concrete_facts(2) f(1) concrete_facts(3) f(2-4) a, of "''r1''" 9 "[(10, any_clock), (11, any_clock)]"]
    show ?thesis by simp
  qed
  then show ?thesis by blast
qed

theorem rejected_incr_blocks_replicas_witness:
  "\<forall>R :: nat runtime. \<exists>m1. sync_rounds R keep_entry no_headers ''r1''
      (map snd (sv_wal (snd (handle (env_at None R 5) no_headers (RIncr ''n'')
         \<lparr>sv_store = kv_new, sv_wal = [], sv_pubsub = pubsub_new\<rparr>))) @ [push_at 6 ''x''])
      [(9, any_clock), (10, any_clock)] (open_master, fresh_replica)
    = ([Inl (KeyNotFound ''n''), Inl (KeyNotFound ''n'')], m1, fresh_replica)"
proof -
  have "\<exists>m1. sync_rounds R keep_entry no_headers ''r1''
      (map snd (sv_wal (snd (handle (env_at None R 5) no_headers (RIncr ''n'')
         \<lparr>sv_store = kv_new, sv_wal = [], sv_pubsub = pubsub_new\<rparr>))) @ [push_at 6 ''x''])
      [(9, any_clock), (10, any_clock)] (open_master, fresh_replica)
    = ([Inl (KeyNotFound ''n''), Inl (KeyNotFound ''n'')], m1, fresh_replica)" for R :: "nat runtime"
  proof -
    let ?sv = "\<lparr>sv_store = kv_new, sv_wal = [], sv_pubsub = pubsub_new\<rparr> :: ideal_log server"
    have f: "require_api_key None no_headers = None" "fst (kv_incr (sv_store ?sv) ''n'') = Inl (KeyNotFound ''n'')"
      "last_applied_index fresh_replica = of_nat (length (sv_wal ?sv))"
      "fst (kv_incr (rp_store fresh_replica) ''n'') = Inl (KeyNotFound ''n'')"
      "5 \<notin> applied_entry_timestamps fresh_replica" "length (sv_wal ?sv) + length [push_at 6 ''x''] + 1 < 2 ^ 63"
      by (simp_all add: require_api_key_def kv_incr_def kv_new_def with_config_def fresh_replica_def)
    from rejected_incr_blocks_replicas[OF f(1,2) concrete_facts(2) f(3-6), of R keep_entry "''r1''" "[(9, any_clock), (10, any_clock)]"]
    show ?thesis by (simp del: handle.simps sync_rounds.simps)
  qed
  then show ?thesis by blast
qed

theorem master_serves_pages_witness:
  "replication_get_wal (Inr [push_at 1 ''x'']) no_headers 0 None (master_new 30 (Some ''secret'')) = Unauthorized"
  using master_serves_pages[of "[]" 0 0 "master_new 30 (Some ''secret'')" no_headers "Inr [push_at 1 ''x'']" None 0 "''r1''" 0]
  by (simp add: master_new_def bearer_token_def no_headers_def)

end
