(* ===== verification/Pitr_Recovery.thy ===== *)
theory Pitr_Recovery
  imports Replication
begin

section \<open>Point-in-time recovery (pitr.rs and its endpoints in api.rs)\<close>

text \<open>
  Snapshots are files of one directory (a \<open>disk\<close>, as for the store's own file); recovery loads the
  newest one not later than the target and applies the log's entries up to the target. The JSON
  and compression codecs and the outcomes of the file operations are fields of \<open>pitr_env\<close>, the
  result of \<open>Wal::read_all\<close> an argument.
\<close>

datatype snapshot_compression = SnapNone | SnapGzip | SnapZstd

record pitr_env =
  compression :: snapshot_compression
  lib :: crypto_lib
  at_rest_key :: "string option"
  snap_encode :: "snapshot_compression \<Rightarrow> image \<Rightarrow> string result"
  snap_decode :: "snapshot_compression \<Rightarrow> string \<Rightarrow> image result"
  write_error :: "(string \<times> string) option"
  open_dir_error :: "string option"
  dir_entry_error :: "(nat \<times> string) option"
  read_error :: "string \<Rightarrow> string option"
  remove_error :: "string \<Rightarrow> string option"

subsection \<open>File names\<close>

text \<open>\<open>to_lowercase\<close> on the ASCII letters; no other character's lower case is one of the matched ones.\<close>

definition ascii_lower :: "char \<Rightarrow> char" where
  "ascii_lower c = (if byte_in 65 90 c then char_of (of_char c + 32 :: nat) else c)"

definition compression_from_env :: "string option \<Rightarrow> snapshot_compression" where
  "compression_from_env var =
     (let v = map ascii_lower (case var of Some t \<Rightarrow> t | None \<Rightarrow> ''none'') in
      if v = ''gzip'' \<or> v = ''gz'' then SnapGzip
      else if v = ''zstd'' \<or> v = ''zst'' then SnapZstd else SnapNone)"

fun file_suffix :: "snapshot_compression \<Rightarrow> string" where
  "file_suffix SnapNone = ''.json''"
| "file_suffix SnapGzip = ''.json.gz''"
| "file_suffix SnapZstd = ''.json.zst''"

definition encrypted_suffix :: "pitr_env \<Rightarrow> string" where
  "encrypted_suffix P =
     (let suffix = file_suffix (compression P) in
      if enabled (lib P) (at_rest_key P) then suffix @ ''.enc'' else suffix)"

definition ends_with :: "string \<Rightarrow> string \<Rightarrow> bool" where
  "ends_with suf s \<longleftrightarrow> length suf \<le> length s \<and> drop (length s - length suf) s = suf"

definition strip_suffix :: "string \<Rightarrow> string \<Rightarrow> string option" where
  "strip_suffix suf s = (if ends_with suf s then Some (take (length s - length suf) s) else None)"

definition without_enc :: "string \<Rightarrow> string" where
  "without_enc f = (case strip_suffix ''.enc'' f of Some g \<Rightarrow> g | None \<Rightarrow> f)"

definition from_snapshot_filename :: "string \<Rightarrow> snapshot_compression option" where
  "from_snapshot_filename name =
     (let f = without_enc name in
      if ends_with ''.json'' f then Some SnapNone
      else if ends_with ''.json.gz'' f then Some SnapGzip
      else if ends_with ''.json.zst'' f then Some SnapZstd
      else None)"

definition extract_snapshot_timestamp :: "string \<Rightarrow> u64 option" where
  "extract_snapshot_timestamp name =
     Option.bind (strip_prefix ''snapshot_'' (without_enc name)) (\<lambda>rest.
     Option.bind
       (case strip_suffix ''.json'' rest of Some c \<Rightarrow> Some c | None \<Rightarrow>
        case strip_suffix ''.json.gz'' rest of Some c \<Rightarrow> Some c | None \<Rightarrow> strip_suffix ''.json.zst'' rest) (\<lambda>core.
     parse_u64 (takeWhile (\<lambda>c. c \<noteq> CHR ''_'') core)))"

text \<open>The name tried at step \<open>n\<close> of the loop of \<open>create_snapshot\<close>; step 0 has no suffix number.\<close>

definition snapshot_name :: "u64 \<Rightarrow> string \<Rightarrow> nat \<Rightarrow> string" where
  "snapshot_name ts ext n =
     ''snapshot_'' @ show_u64 ts @ (if n = 0 then [] else CHR ''_'' # show_nat n) @ ext"

lemma snapshot_name_inj: "snapshot_name ts ext n = snapshot_name ts ext m \<longleftrightarrow> n = m"
proof
  assume "snapshot_name ts ext n = snapshot_name ts ext m"
  then have "(if n = 0 then [] else CHR ''_'' # show_nat n) = (if m = 0 then [] else CHR ''_'' # show_nat m)"
    by (simp add: snapshot_name_def)
  then show "n = m" by (metis list.distinct(1) list.inject option.inject parse_nat_show_nat)
qed simp

lemma names_taken_finite: "finite {m. snapshot_name ts ext m \<in> set names}"
  using finite_vimageI[of "set names" "snapshot_name ts ext"] by (simp add: inj_def snapshot_name_inj vimage_def)

text \<open>
  The loop stops because the names tried are distinct and the directory is finite. The counter is
  a \<open>u64\<close> in the code; it would wrap only in a directory of \<open>2^64\<close> such files.
\<close>

function free_name :: "u64 \<Rightarrow> string \<Rightarrow> string list \<Rightarrow> nat \<Rightarrow> string" where
  "free_name ts ext names n =
     (if snapshot_name ts ext n \<in> set names then free_name ts ext names (n + 1) else snapshot_name ts ext n)"
  by pat_completeness auto
termination
proof (relation "measure (\<lambda>(ts, ext, names, n). card {m. n \<le> m \<and> snapshot_name ts ext m \<in> set names})", simp)
  fix ts ext names n
  assume taken: "snapshot_name ts ext n \<in> set names"
  have "finite {m. n \<le> m \<and> snapshot_name ts ext m \<in> set names}"
    by (rule finite_subset[OF _ names_taken_finite[of ts ext names]]) auto
  moreover have "{m. n + 1 \<le> m \<and> snapshot_name ts ext m \<in> set names} \<subset> {m. n \<le> m \<and> snapshot_name ts ext m \<in> set names}"
  proof (rule psubsetI)
    have "n \<in> {m. n \<le> m \<and> snapshot_name ts ext m \<in> set names}"
      "n \<notin> {m. n + 1 \<le> m \<and> snapshot_name ts ext m \<in> set names}" using taken by simp_all
    then show "{m. n + 1 \<le> m \<and> snapshot_name ts ext m \<in> set names} \<noteq> {m. n \<le> m \<and> snapshot_name ts ext m \<in> set names}"
      by blast
  qed auto
  ultimately show "((ts, ext, names, n + 1), ts, ext, names, n)
      \<in> measure (\<lambda>(ts, ext, names, n). card {m. n \<le> m \<and> snapshot_name ts ext m \<in> set names})"
    using psubset_card_mono by simp
qed

declare free_name.simps [simp del]

subsection \<open>Snapshots\<close>

record snapshot_metadata =
  snap_timestamp :: u64
  num_keys :: nat
  num_operations :: u64
  snapshot_file :: string

definition create_snapshot ::
  "pitr_env \<Rightarrow> string option \<Rightarrow> nat \<Rightarrow> u64 \<Rightarrow> wal_entry list result \<Rightarrow> kv_store \<Rightarrow> disk \<Rightarrow> snapshot_metadata result \<times> disk" where
  "create_snapshot P nonce mtime ts read_log s d =
     (let name = free_name ts (encrypted_suffix P) (hm_keys d) 0 in
      case snap_encode P (compression P) (image_of s) of Inl e \<Rightarrow> (Inl e, d) | Inr compressed \<Rightarrow>
      case encrypt (lib P) (at_rest_key P) nonce compressed of Inl e \<Rightarrow> (Inl (OperationFailed e), d) | Inr snapshot_bytes \<Rightarrow>
      case write_error P of Some (partial, e) \<Rightarrow> (Inl (IoError e), write_file mtime name partial d) | None \<Rightarrow>
      (let d1 = write_file mtime name snapshot_bytes d in
       case read_log of
         Inl e \<Rightarrow> (Inl e, d1)
       | Inr entries \<Rightarrow>
           (Inr \<lparr>snap_timestamp = ts, num_keys = kv_len s, num_operations = of_nat (length entries),
                 snapshot_file = name\<rparr>, d1)))"

text \<open>What the iteration over \<open>read_dir\<close> yields: the file names, up to an entry that fails.\<close>

definition dir_entries :: "pitr_env \<Rightarrow> disk \<Rightarrow> (string + string) list" where
  "dir_entries P d =
     (case dir_entry_error P of
        None \<Rightarrow> map Inr (hm_keys d)
      | Some (n, e) \<Rightarrow> map Inr (take n (hm_keys d)) @ [Inl e])"

definition snapshot_time :: "string \<Rightarrow> u64 option" where
  "snapshot_time f =
     (if utf8_ok f \<and> starts_with ''snapshot_'' f then extract_snapshot_timestamp f else None)"

fun collect_snapshots :: "(string + string) list \<Rightarrow> snapshot_metadata list result" where
  "collect_snapshots [] = Inr []"
| "collect_snapshots (Inl e # rest) = Inl (IoError e)"
| "collect_snapshots (Inr f # rest) =
     (case snapshot_time f of
        None \<Rightarrow> collect_snapshots rest
      | Some ts \<Rightarrow>
          map_sum id (\<lambda>ms. \<lparr>snap_timestamp = ts, num_keys = 0, num_operations = 0, snapshot_file = f\<rparr> # ms)
            (collect_snapshots rest))"

definition list_snapshots :: "pitr_env \<Rightarrow> disk \<Rightarrow> snapshot_metadata list result" where
  "list_snapshots P d =
     (case open_dir_error P of
        Some e \<Rightarrow> Inl (IoError e)
      | None \<Rightarrow> map_sum id (sort_key (\<lambda>m. - int (unat (snap_timestamp m)))) (collect_snapshots (dir_entries P d)))"

subsection \<open>Recovery\<close>

text \<open>The same calls as the replica's, without the append.\<close>

definition pitr_apply_wal_entry :: "'f runtime \<Rightarrow> u64 \<Rightarrow> kv_store \<Rightarrow> wal_entry \<Rightarrow> unit result \<times> kv_store" where
  "pitr_apply_wal_entry R now s entry = apply_op R now s (operation entry)"

text \<open>Serde fills the skipped fields with their defaults: the default configuration, an empty LRU list.\<close>

definition deserialized :: "image \<Rightarrow> kv_store" where
  "deserialized img = \<lparr> store = fst img, stats = snd img, config = default_config,
     lru_order = [], transaction_queue = None, pending_keyspace_events = [] \<rparr>"

definition load_snapshot :: "pitr_env \<Rightarrow> string \<Rightarrow> disk \<Rightarrow> kv_store result" where
  "load_snapshot P name d =
     (case (read_error P name, hm_get d name) of
        (Some e, _) \<Rightarrow> Inl (IoError e)
      | (None, None) \<Rightarrow> Inl (IoError ''No such file or directory (os error 2)'')
      | (None, Some f) \<Rightarrow>
          (case decrypt (lib P) (at_rest_key P) (file_bytes f) of Inl e \<Rightarrow> Inl (OperationFailed e) | Inr snapshot_bytes \<Rightarrow>
           case from_snapshot_filename name of
             None \<Rightarrow> Inl (OperationFailed (''Unsupported snapshot extension: '' @ name))
           | Some c \<Rightarrow> map_sum id deserialized (snap_decode P c snapshot_bytes)))"

text \<open>Errors of single entries are logged and skipped; the first later entry ends the replay.\<close>

fun replay_until :: "'f runtime \<Rightarrow> u64 \<Rightarrow> kv_store \<Rightarrow> (u64 \<times> wal_entry) list \<Rightarrow> kv_store" where
  "replay_until R target s [] = s"
| "replay_until R target s ((now, entry) # rest) =
     (if timestamp entry > target then s
      else replay_until R target (snd (pitr_apply_wal_entry R now s entry)) rest)"

definition recover_to_timestamp ::
  "'f runtime \<Rightarrow> pitr_env \<Rightarrow> (nat \<Rightarrow> u64) \<Rightarrow> wal_entry list result \<Rightarrow> disk \<Rightarrow> u64 \<Rightarrow> kv_store result" where
  "recover_to_timestamp R P clock read_log d target =
     (case list_snapshots P d of Inl e \<Rightarrow> Inl e | Inr snapshots \<Rightarrow>
      case (case find (\<lambda>m. snap_timestamp m \<le> target) snapshots of
              Some m \<Rightarrow> load_snapshot P (snapshot_file m) d
            | None \<Rightarrow> Inr kv_new) of Inl e \<Rightarrow> Inl e | Inr s \<Rightarrow>
      case read_log of Inl e \<Rightarrow> Inl e | Inr entries \<Rightarrow>
      Inr (replay_until R target s (zip (map clock [0..<length entries]) entries)))"

definition recover_to_latest_snapshot ::
  "'f runtime \<Rightarrow> pitr_env \<Rightarrow> (nat \<Rightarrow> u64) \<Rightarrow> wal_entry list result \<Rightarrow> disk \<Rightarrow> kv_store result" where
  "recover_to_latest_snapshot R P clock read_log d =
     (case list_snapshots P d of
        Inl e \<Rightarrow> Inl e
      | Inr [] \<Rightarrow> Inl (OperationFailed ''No snapshots available for recovery'')
      | Inr (latest # _) \<Rightarrow> recover_to_timestamp R P clock read_log d (snap_timestamp latest))"

subsection \<open>Clean-up and statistics\<close>

fun remove_old :: "pitr_env \<Rightarrow> u64 \<Rightarrow> (string + string) list \<Rightarrow> nat \<Rightarrow> disk \<Rightarrow> nat result \<times> disk" where
  "remove_old P cutoff [] deleted d = (Inr deleted, d)"
| "remove_old P cutoff (Inl e # rest) deleted d = (Inl (IoError e), d)"
| "remove_old P cutoff (Inr f # rest) deleted d =
     (case snapshot_time f of
        None \<Rightarrow> remove_old P cutoff rest deleted d
      | Some ts \<Rightarrow>
          if ts < cutoff then
            (case remove_error P f of
               Some e \<Rightarrow> (Inl (IoError e), d)
             | None \<Rightarrow> remove_old P cutoff rest (deleted + 1) (hm_remove f d))
          else remove_old P cutoff rest deleted d)"

definition cleanup_old_snapshots :: "pitr_env \<Rightarrow> u64 \<Rightarrow> u64 \<Rightarrow> disk \<Rightarrow> nat result \<times> disk" where
  "cleanup_old_snapshots P now max_age_secs d =
     (case open_dir_error P of
        Some e \<Rightarrow> (Inl (IoError e), d)
      | None \<Rightarrow> remove_old P (saturating_sub_u64 now max_age_secs) (dir_entries P d) 0 d)"

record recovery_stats =
  total_snapshots :: nat
  total_wal_entries :: u64
  earliest_recovery_point :: "u64 option"
  latest_recovery_point :: "u64 option"
  wal_file_size :: u64

definition get_recovery_stats :: "pitr_env \<Rightarrow> wal_entry list result \<Rightarrow> u64 result \<Rightarrow> disk \<Rightarrow> recovery_stats result" where
  "get_recovery_stats P read_log wal_size_read d =
     (case list_snapshots P d of Inl e \<Rightarrow> Inl e | Inr snapshots \<Rightarrow>
      case read_log of Inl e \<Rightarrow> Inl e | Inr entries \<Rightarrow>
      case wal_size_read of Inl e \<Rightarrow> Inl e | Inr n \<Rightarrow>
      Inr \<lparr>total_snapshots = length snapshots, total_wal_entries = of_nat (length entries),
           earliest_recovery_point = (case entries of [] \<Rightarrow> None | e # _ \<Rightarrow> Some (timestamp e)),
           latest_recovery_point = (if entries = [] then None else Some (timestamp (last entries))),
           wal_file_size = n\<rparr>)"

subsection \<open>Endpoints\<close>

text \<open>The recovered store replaces the server's; the log and the snapshots stay.\<close>

definition recover_response :: "json \<Rightarrow> kv_store result \<Rightarrow> 'w server \<Rightarrow> response \<times> 'w server" where
  "recover_response detail r sv =
     (case r of
        Inr s \<Rightarrow> (ok_json detail, sv\<lparr>sv_store := s\<rparr>)
      | Inl e \<Rightarrow> (\<lparr>status = 400, body = Json (JObj [(''status'', JStr ''ERROR''), (''error'', JStr (show_error e))])\<rparr>, sv))"

definition pitr_recover_to_timestamp ::
  "('w, 'f) request_env \<Rightarrow> pitr_env \<Rightarrow> (nat \<Rightarrow> u64) \<Rightarrow> ('w \<Rightarrow> wal_entry list result) \<Rightarrow> disk \<Rightarrow> headers \<Rightarrow> u64 \<Rightarrow>
   'w server \<Rightarrow> response \<times> 'w server" where
  "pitr_recover_to_timestamp cx P clock read d h target sv = guarded cx h sv (\<lambda>sv.
     recover_response (JObj [(''status'', JStr ''OK''), (''recovered_to'', json_nat (unat target))])
       (recover_to_timestamp (rt cx) P clock (read (sv_wal sv)) d target) sv)"

definition pitr_recover_latest_snapshot ::
  "('w, 'f) request_env \<Rightarrow> pitr_env \<Rightarrow> (nat \<Rightarrow> u64) \<Rightarrow> ('w \<Rightarrow> wal_entry list result) \<Rightarrow> disk \<Rightarrow> headers \<Rightarrow>
   'w server \<Rightarrow> response \<times> 'w server" where
  "pitr_recover_latest_snapshot cx P clock read d h sv = guarded cx h sv (\<lambda>sv.
     recover_response (status_json ''Recovered to latest snapshot'')
       (recover_to_latest_snapshot (rt cx) P clock (read (sv_wal sv)) d) sv)"

subsection \<open>Lemmas on names\<close>

lemma show_nat_digits: "c \<in> set (show_nat n) \<Longrightarrow> digit_val c \<noteq> None"
proof (induction n rule: show_nat.induct)
  case (1 n)
  then show ?case by (subst (asm) show_nat.simps) (auto split: if_splits)
qed

lemma digit_facts: "digit_val c \<noteq> None \<Longrightarrow> c \<noteq> CHR ''_'' \<and> byte_in 0 127 c"
  by (auto simp: digit_val_def byte_in_def Let_def split: if_splits)

lemma utf8_ascii: "\<forall>c \<in> set s. byte_in 0 127 c \<Longrightarrow> utf8_ok s"
  by (induction s) simp_all

lemma ends_with_append[simp]: "ends_with suf (x @ suf)"
  by (simp add: ends_with_def)

lemma strip_suffix_append[simp]: "strip_suffix suf (x @ suf) = Some x"
  by (simp add: strip_suffix_def)

lemma ends_with_longer: "length suf \<le> length a \<Longrightarrow> ends_with suf (x @ a) = ends_with suf a"
  by (simp add: ends_with_def)

lemma strip_prefix_append[simp]: "strip_prefix p (p @ s) = Some s"
  by (simp add: strip_prefix_def)

lemma without_enc_name:
  "without_enc (x @ file_suffix c @ ''.enc'') = x @ file_suffix c" "without_enc (x @ file_suffix c) = x @ file_suffix c"
proof -
  have "strip_suffix ''.enc'' ((x @ file_suffix c) @ ''.enc'') = Some (x @ file_suffix c)" by (rule strip_suffix_append)
  then show "without_enc (x @ file_suffix c @ ''.enc'') = x @ file_suffix c" by (simp add: without_enc_def)
  have "\<not> ends_with ''.enc'' (x @ file_suffix c)"
    by (cases c) (simp_all add: ends_with_longer, simp_all add: ends_with_def)
  then show "without_enc (x @ file_suffix c) = x @ file_suffix c" by (simp add: without_enc_def strip_suffix_def)
qed

lemma suffix_cases:
  "ends_with ''.json'' (x @ file_suffix c) \<longleftrightarrow> c = SnapNone"
  "ends_with ''.json.gz'' (x @ file_suffix SnapGzip)" "\<not> ends_with ''.json.gz'' (x @ file_suffix SnapZstd)"
  "ends_with ''.json.zst'' (x @ file_suffix SnapZstd)"
proof -
  show "ends_with ''.json'' (x @ file_suffix c) \<longleftrightarrow> c = SnapNone"
    by (cases c) (simp_all only: file_suffix.simps ends_with_append, simp_all add: ends_with_longer, simp_all add: ends_with_def)
  show "ends_with ''.json.gz'' (x @ file_suffix SnapGzip)" "ends_with ''.json.zst'' (x @ file_suffix SnapZstd)"
    by (simp_all only: file_suffix.simps ends_with_append)
  show "\<not> ends_with ''.json.gz'' (x @ file_suffix SnapZstd)"
    by (simp add: ends_with_longer) (simp add: ends_with_def)
qed

lemma strip_json: "(case strip_suffix ''.json'' (x @ file_suffix c) of Some y \<Rightarrow> Some y | None \<Rightarrow>
    case strip_suffix ''.json.gz'' (x @ file_suffix c) of Some y \<Rightarrow> Some y | None \<Rightarrow> strip_suffix ''.json.zst'' (x @ file_suffix c)) = Some x"
proof (cases c)
  case SnapNone
  then show ?thesis using strip_suffix_append[of "''.json''" x] by simp
next
  case SnapGzip
  then have "strip_suffix ''.json'' (x @ file_suffix c) = None" using suffix_cases(1)[of x c] by (simp add: strip_suffix_def)
  moreover have "strip_suffix ''.json.gz'' (x @ file_suffix c) = Some x" using SnapGzip strip_suffix_append[of "''.json.gz''" x] by simp
  ultimately show ?thesis by simp
next
  case SnapZstd
  then have "strip_suffix ''.json'' (x @ file_suffix c) = None" "strip_suffix ''.json.gz'' (x @ file_suffix c) = None"
    using suffix_cases(1)[of x c] suffix_cases(3)[of x] by (simp_all add: strip_suffix_def)
  moreover have "strip_suffix ''.json.zst'' (x @ file_suffix c) = Some x" using SnapZstd strip_suffix_append[of "''.json.zst''" x] by simp
  ultimately show ?thesis by simp
qed

text \<open>The part of a snapshot's name between the prefix and the extension.\<close>

definition name_core :: "u64 \<Rightarrow> nat \<Rightarrow> string" where
  "name_core ts n = show_u64 ts @ (if n = 0 then [] else CHR ''_'' # show_nat n)"

lemma snapshot_name_core: "snapshot_name ts ext n = ''snapshot_'' @ name_core ts n @ ext"
  by (simp add: snapshot_name_def name_core_def)

lemma core_timestamp: "parse_u64 (takeWhile (\<lambda>c. c \<noteq> CHR ''_'') (name_core ts n)) = Some ts"
proof -
  have "\<forall>c \<in> set (show_u64 ts). c \<noteq> CHR ''_''"
    using show_nat_digits digit_facts unfolding show_u64_def by blast
  then have "takeWhile (\<lambda>c. c \<noteq> CHR ''_'') (name_core ts n) = show_u64 ts"
    by (simp add: name_core_def takeWhile_append2)
  then show ?thesis by simp
qed

lemma core_ascii: "c \<in> set (name_core ts n) \<Longrightarrow> byte_in 0 127 c"
  using show_nat_digits digit_facts unfolding name_core_def show_u64_def
  by (auto split: if_splits simp: byte_in_def) 

lemma encrypted_suffix_cases:
  obtains "encrypted_suffix P = file_suffix (compression P)" | "encrypted_suffix P = file_suffix (compression P) @ ''.enc''"
proof -
  have "encrypted_suffix P = file_suffix (compression P) \<or> encrypted_suffix P = file_suffix (compression P) @ ''.enc''"
    by (cases "enabled (lib P) (at_rest_key P)") (simp_all add: encrypted_suffix_def)
  then show ?thesis using that by blast
qed

lemma without_enc_snapshot:
  "without_enc (snapshot_name ts (encrypted_suffix P) n) = ''snapshot_'' @ name_core ts n @ file_suffix (compression P)"
  using without_enc_name[of "''snapshot_'' @ name_core ts n" "compression P"]
  by (cases rule: encrypted_suffix_cases[of P]) (simp_all add: snapshot_name_core)

lemma name_reads_back:
  "snapshot_time (snapshot_name ts (encrypted_suffix P) n) = Some ts"
  "from_snapshot_filename (snapshot_name ts (encrypted_suffix P) n) = Some (compression P)"
proof -
  let ?f = "snapshot_name ts (encrypted_suffix P) n"
  have "\<forall>c \<in> set (file_suffix k). byte_in 0 127 c" for k by (cases k) (simp_all add: byte_in_def)
  then have "\<forall>c \<in> set (encrypted_suffix P). byte_in 0 127 c"
    by (cases rule: encrypted_suffix_cases[of P]) (auto simp: byte_in_def)
  then have "utf8_ok ?f"
    using core_ascii by (intro utf8_ascii) (auto simp: snapshot_name_core byte_in_def)
  moreover have "starts_with ''snapshot_'' ?f" unfolding snapshot_name_core by (rule starts_with_append)
  moreover have "extract_snapshot_timestamp ?f = Some ts"
    unfolding extract_snapshot_timestamp_def without_enc_snapshot strip_prefix_append
    by (simp only: bind.bind_lunit strip_json core_timestamp)
  ultimately show "snapshot_time ?f = Some ts" by (simp add: snapshot_time_def)
  show "from_snapshot_filename ?f = Some (compression P)"
    using suffix_cases[of "''snapshot_'' @ name_core ts n"]
    unfolding from_snapshot_filename_def without_enc_snapshot Let_def append_assoc
    by (cases "compression P") (simp_all del: file_suffix.simps)
qed

lemma free_name_free: "free_name ts ext names n \<notin> set names \<and> (\<exists>m. free_name ts ext names n = snapshot_name ts ext m)"
proof (induction ts ext names n rule: free_name.induct)
  case (1 ts ext names n)
  then show ?case by (subst (1 2) free_name.simps) auto
qed

subsection \<open>Lemmas on listings and replay\<close>

lemma find_sort_key:
  fixes f :: "'a \<Rightarrow> 'b :: linorder"
  assumes "x \<in> set xs" "P x" "\<And>y. y \<in> set xs \<Longrightarrow> P y \<Longrightarrow> y = x \<or> f x < f y"
  shows "find P (sort_key f xs) = Some x"
proof -
  obtain z where z: "find P (sort_key f xs) = Some z"
    using assms(1,2) by (cases "find P (sort_key f xs)") (auto simp: find_None_iff)
  from z obtain i where i: "i < length (sort_key f xs)" "P (sort_key f xs ! i)" "z = sort_key f xs ! i"
    "\<forall>j<i. \<not> P (sort_key f xs ! j)"
    by (auto simp: find_Some_iff)
  from assms(1) obtain j where j: "j < length (sort_key f xs)" "sort_key f xs ! j = x"
    by (metis in_set_conv_nth set_sort)
  with assms(2) i(4) have "i \<le> j" by (metis not_le)
  then have "f z \<le> f x"
    using sorted_sort_key[of f xs] i(1,3) j by (metis (no_types, lifting) length_map nth_map sorted_nth_mono)
  moreover have "z \<in> set xs" using i(1,3) by (metis nth_mem set_sort)
  ultimately show ?thesis using assms(3)[of z] i(2,3) z by auto
qed

definition snap_of :: "string \<Rightarrow> snapshot_metadata option" where
  "snap_of f = map_option (\<lambda>ts. \<lparr>snap_timestamp = ts, num_keys = 0, num_operations = 0, snapshot_file = f\<rparr>) (snapshot_time f)"

lemma collect_all: "collect_snapshots (map Inr fs) = Inr (List.map_filter snap_of fs)"
  by (induction fs) (simp_all add: snap_of_def map_filter_simps split: option.splits)

definition dir_ok :: "pitr_env \<Rightarrow> bool" where
  "dir_ok P \<longleftrightarrow> open_dir_error P = None \<and> dir_entry_error P = None"

lemma list_snapshots_ok:
  "dir_ok P \<Longrightarrow> list_snapshots P d = Inr (sort_key (\<lambda>m. - int (unat (snap_timestamp m))) (List.map_filter snap_of (hm_keys d)))"
  by (simp add: list_snapshots_def dir_ok_def dir_entries_def collect_all del: map_map)

lemma mem_map_filter: "y \<in> set (List.map_filter f xs) \<longleftrightarrow> (\<exists>x \<in> set xs. f x = Some y)"
  by (induction xs) (auto simp: map_filter_simps split: option.splits)

lemma in_listing:
  "m \<in> set (List.map_filter snap_of fs) \<longleftrightarrow>
     (\<exists>f \<in> set fs. \<exists>t. snapshot_time f = Some t
        \<and> m = \<lparr>snap_timestamp = t, num_keys = 0, num_operations = 0, snapshot_file = f\<rparr>)"
  by (auto simp: mem_map_filter snap_of_def)

lemma replay_until_fold:
  "replay_until R target s l =
     fold (\<lambda>(now, e) t. snd (pitr_apply_wal_entry R now t e)) (takeWhile (\<lambda>(now, e). timestamp e \<le> target) l) s"
  by (induction R target s l rule: replay_until.induct) auto

lemma replay_until_resume:
  "t1 \<le> t2 \<Longrightarrow> replay_until R t2 s l
     = replay_until R t2 (replay_until R t1 s l) (dropWhile (\<lambda>(now, e). timestamp e \<le> t1) l)"
  by (induction R t1 s l rule: replay_until.induct) auto

definition snapshot_codec_ok :: "pitr_env \<Rightarrow> bool" where
  "snapshot_codec_ok P \<longleftrightarrow> (\<forall>c img b. snap_encode P c img = Inr b \<longrightarrow> snap_decode P c b = Inr img \<and> \<not> starts_with enc_prefix b)"

lemma created_snapshot:
  assumes "create_snapshot P nonce mtime ts rl s d = (Inr meta, d')" "snapshot_codec_ok P" "crypto_lib_ok (lib P)"
    "\<And>n. nonce = Some n \<Longrightarrow> length n = nonce_size" "read_error P = (\<lambda>_. None)"
  shows "\<exists>f content. f \<notin> set (hm_keys d) \<and> snapshot_time f = Some ts \<and> d' = write_file mtime f content d
    \<and> load_snapshot P f d' = Inr (deserialized (image_of s))"
proof -
  let ?f = "free_name ts (encrypted_suffix P) (hm_keys d) 0"
  have f: "?f \<notin> set (hm_keys d)" "snapshot_time ?f = Some ts" "from_snapshot_filename ?f = Some (compression P)"
    using free_name_free[of ts "encrypted_suffix P" "hm_keys d" 0] name_reads_back[of ts P] by metis+
  from assms(1) obtain b out where b: "snap_encode P (compression P) (image_of s) = Inr b"
    "encrypt (lib P) (at_rest_key P) nonce b = Inr out" "d' = write_file mtime ?f out d"
    by (auto simp: create_snapshot_def Let_def split: sum.splits option.splits)
  from assms(2) b(1) have c: "snap_decode P (compression P) b = Inr (image_of s)" "\<not> starts_with enc_prefix b"
    unfolding snapshot_codec_ok_def by blast+
  have "decrypt (lib P) (at_rest_key P) out = Inr b" by (rule decrypt_encrypt[OF assms(3) b(2) assms(4) c(2)])
  then have "load_snapshot P ?f d' = Inr (deserialized (image_of s))"
    using assms(5) f(3) c(1) by (simp add: load_snapshot_def b(3) write_file_def)
  with f b(3) show ?thesis by blast
qed

lemma recover_created:
  assumes "create_snapshot P nonce mtime ts rl s d = (Inr meta, d')" "snapshot_codec_ok P" "crypto_lib_ok (lib P)"
    "\<And>n. nonce = Some n \<Longrightarrow> length n = nonce_size" "read_error P = (\<lambda>_. None)" "dir_ok P"
    "\<forall>f \<in> set (hm_keys d). \<forall>t. snapshot_time f = Some t \<longrightarrow> t < ts"
  shows "recover_to_latest_snapshot R P clock (Inr es) d'
      = Inr (replay_until R ts (deserialized (image_of s)) (zip (map clock [0..<length es]) es))
    \<and> store (deserialized (image_of s)) = store s \<and> stats (deserialized (image_of s)) = stats s
    \<and> config (deserialized (image_of s)) = default_config \<and> lru_order (deserialized (image_of s)) = []"
proof -
  from created_snapshot[OF assms(1-5)] obtain f content where f: "f \<notin> set (hm_keys d)" "snapshot_time f = Some ts"
    "d' = write_file mtime f content d" "load_snapshot P f d' = Inr (deserialized (image_of s))" by blast
  let ?m = "\<lparr>snap_timestamp = ts, num_keys = 0, num_operations = 0, snapshot_file = f\<rparr>"
  let ?l = "List.map_filter snap_of (hm_keys d')" and ?k = "\<lambda>m. - int (unat (snap_timestamp m))"
  have keys: "set (hm_keys d') = insert f (set (hm_keys d))"
    unfolding f(3) write_file_def by (simp add: hm_insert_keys)
  have m: "?m \<in> set ?l" unfolding in_listing using keys f(2) by auto
  have older: "y = ?m \<or> ?k ?m < ?k y" if "y \<in> set ?l" for y
  proof -
    from that obtain g t where g: "g = f \<or> g \<in> set (hm_keys d)" "snapshot_time g = Some t"
      "y = \<lparr>snap_timestamp = t, num_keys = 0, num_operations = 0, snapshot_file = g\<rparr>"
      unfolding in_listing keys by blast
    show ?thesis
    proof (cases "g = f")
      case False
      with g(1,2) assms(7) have "t < ts" by blast
      then show ?thesis using g(3) by (simp add: word_less_def)
    qed (use g f(2) in simp)
  qed
  have find: "find (\<lambda>m. snap_timestamp m \<le> ts) (sort_key ?k ?l) = Some ?m"
    using m older by (intro find_sort_key) auto
  have first: "find (\<lambda>m. True) (sort_key ?k ?l) = Some ?m"
    using m older by (intro find_sort_key) auto
  then obtain rest where "sort_key ?k ?l = ?m # rest" by (cases "sort_key ?k ?l") auto
  then show ?thesis
    using find f(4) by (simp add: recover_to_latest_snapshot_def recover_to_timestamp_def list_snapshots_ok[OF assms(6)]
        deserialized_def image_of_def)
qed

text \<open>With no snapshot at or before the target, recovery starts from an empty store.\<close>

lemma recover_without_snapshot:
  assumes "dir_ok P" "\<forall>f \<in> set (hm_keys d). \<forall>u. snapshot_time f = Some u \<longrightarrow> t < u"
  shows "recover_to_timestamp R P clock (Inr es) d t = Inr (replay_until R t kv_new (zip (map clock [0..<length es]) es))"
proof -
  have "\<not> snap_timestamp m \<le> t" if "m \<in> set (List.map_filter snap_of (hm_keys d))" for m
  proof -
    from that obtain f u where f: "f \<in> set (hm_keys d)" "snapshot_time f = Some u"
      "m = \<lparr>snap_timestamp = u, num_keys = 0, num_operations = 0, snapshot_file = f\<rparr>"
      unfolding in_listing by blast
    with assms(2) have "t < u" by blast
    with f(3) show ?thesis by simp
  qed
  then have "find (\<lambda>m. snap_timestamp m \<le> t) (sort_key (\<lambda>m. - int (unat (snap_timestamp m))) (List.map_filter snap_of (hm_keys d))) = None"
    by (simp add: find_None_iff)
  then show ?thesis by (simp add: recover_to_timestamp_def list_snapshots_ok[OF assms(1)])
qed

subsection \<open>Properties\<close>

text \<open>C30: Every snapshot gets a name of its own. Whatever the directory holds, the search for a free name
  ends in one that no file has, so no snapshot is overwritten; the name reads back as the
  snapshot's timestamp and the codec it was written with, encrypted or not.\<close>

theorem snapshot_names_are_fresh:
  "let f = free_name ts (encrypted_suffix P) (hm_keys d) 0 in
     f \<notin> set (hm_keys d) \<and> snapshot_time f = Some ts \<and> from_snapshot_filename f = Some (compression P)
     \<and> (\<forall>g \<in> set (hm_keys d). hm_get (write_file mtime f content d) g = hm_get d g)"
proof -
  let ?f = "free_name ts (encrypted_suffix P) (hm_keys d) 0"
  have "?f \<notin> set (hm_keys d)" "snapshot_time ?f = Some ts" "from_snapshot_filename ?f = Some (compression P)"
    using free_name_free[of ts "encrypted_suffix P" "hm_keys d" 0] name_reads_back[of ts P] by metis+
  moreover from this(1) have "\<forall>g \<in> set (hm_keys d). g \<noteq> ?f" by blast
  ultimately show ?thesis unfolding Let_def write_file_def by (metis update_conv' fun_upd_apply)
qed

text \<open>C31: What recovery to a point gives. Without a snapshot at or before the target it is the empty store
  after the log's entries up to the first one later than the target; and recovering to a later
  target is recovering to the earlier one and then applying the entries in between.\<close>

theorem recovery_is_log_prefix:
  fixes clock :: "nat \<Rightarrow> u64" and es :: "wal_entry list"
  assumes "dir_ok P" "\<forall>f \<in> set (hm_keys d). \<forall>t. snapshot_time f = Some t \<longrightarrow> t2 < t" "t1 \<le> t2"
  defines "timed_log \<equiv> zip (map clock [0..<length es]) es"
  shows "recover_to_timestamp R P clock (Inr es) d t2 =
      Inr (fold (\<lambda>(now, e) s. snd (pitr_apply_wal_entry R now s e)) (takeWhile (\<lambda>(now, e). timestamp e \<le> t2) timed_log) kv_new)
    \<and> (\<exists>s1. recover_to_timestamp R P clock (Inr es) d t1 = Inr s1
        \<and> recover_to_timestamp R P clock (Inr es) d t2
            = Inr (replay_until R t2 s1 (dropWhile (\<lambda>(now, e). timestamp e \<le> t1) timed_log)))"
proof -
  have rec: "recover_to_timestamp R P clock (Inr es) d t = Inr (replay_until R t kv_new timed_log)" if "t \<le> t2" for t
    unfolding timed_log_def using assms(2) that by (intro recover_without_snapshot[OF assms(1)]) (meson le_less_trans)
  have "recover_to_timestamp R P clock (Inr es) d t2
      = Inr (replay_until R t2 (replay_until R t1 kv_new timed_log) (dropWhile (\<lambda>(now, e). timestamp e \<le> t1) timed_log))"
    unfolding rec[OF order_refl] by (simp only: replay_until_resume[OF assms(3), symmetric])
  then show ?thesis
    using rec[OF assms(3)] rec[OF order_refl, unfolded replay_until_fold] by blast
qed

text \<open>A snapshot is recovered, then the log is applied to it. After a successful \<open>create_snapshot\<close> newer than
  all others, \<open>recover_to_latest_snapshot\<close> starts from exactly the saved data and statistics and
  applies the whole log up to the snapshot's time; the configuration and the LRU list are not part
  of the snapshot, so the store comes back with the default limits and no key to evict.\<close>

theorem snapshot_then_recover:
  assumes "create_snapshot P nonce mtime ts rl s d = (Inr meta, d')" "snapshot_codec_ok P" "crypto_lib_ok (lib P)"
    "\<And>n. nonce = Some n \<Longrightarrow> length n = nonce_size" "read_error P = (\<lambda>_. None)" "dir_ok P"
    "\<forall>f \<in> set (hm_keys d). \<forall>t. snapshot_time f = Some t \<longrightarrow> t < ts"
  shows "recover_to_latest_snapshot R P clock (Inr es) d'
      = Inr (replay_until R ts (deserialized (image_of s)) (zip (map clock [0..<length es]) es))
    \<and> store (deserialized (image_of s)) = store s \<and> stats (deserialized (image_of s)) = stats s
    \<and> config (deserialized (image_of s)) = default_config \<and> lru_order (deserialized (image_of s)) = []"
  by (rule recover_created[OF assms])

text \<open>What the snapshot already holds is applied again. The log is not cut when a snapshot is taken, and
  snapshots are stamped in nanoseconds, the log in seconds; so recovering the latest snapshot
  repeats every logged write, here an LPUSH the snapshot contains. The recovered store breaks the
  store's invariant as soon as it holds another key: that key is missing from the LRU list.\<close>

theorem recovery_repeats_logged_writes:
  assumes "create_snapshot P nonce mtime ts rl s d = (Inr meta, d')" "snapshot_codec_ok P" "crypto_lib_ok (lib P)"
    "\<And>n. nonce = Some n \<Longrightarrow> length n = nonce_size" "read_error P = (\<lambda>_. None)" "dir_ok P"
    "\<forall>f \<in> set (hm_keys d). \<forall>t. snapshot_time f = Some t \<longrightarrow> t < ts"
    "list_at s key = Some xs" "key \<noteq> []" "length key \<le> 1024" "e = \<lparr>timestamp = t, operation = WalLPush key vs\<rparr>" "t \<le> ts"
  shows "\<exists>s'. recover_to_latest_snapshot R P clock (Inr [e]) d' = Inr s'
    \<and> list_at s' key = Some (rev vs @ xs)
    \<and> (\<forall>k \<in> fst ` set (store s). k \<noteq> key \<longrightarrow> k \<notin> set (lru_order s') \<and> \<not> kv_inv s')"
proof -
  let ?r = "deserialized (image_of s)"
  have val: "validate_key ?r key = Inr ()"
    using assms(9,10) by (simp add: validate_key_ok_iff deserialized_def default_config_def default_max_key_size_def)
  have "list_at ?r key = Some xs" using assms(8) by (simp add: list_at_def deserialized_def image_of_def)
  from kl.view_lpush[OF val this, of vs] have list: "list_at (snd (kv_lpush ?r key vs)) key = Some (rev vs @ xs)" by blast
  have rec: "recover_to_latest_snapshot R P clock (Inr [e]) d' = Inr (snd (kv_lpush ?r key vs))"
    using recover_created[OF assms(1-7), of R clock "[e]"] assms(11,12)
    by (simp add: pitr_apply_wal_entry_def ignored_def)
  have lru: "set (lru_order (snd (kv_lpush ?r key vs))) \<subseteq> {key}"
    by (auto simp: kv_lpush_def deserialized_def update_lru_def touch_def create_entry_def count_write_def set_value_def Let_def
        split: sum.splits option.splits kv_value.splits)
  have keys: "k \<in> fst ` set (store (snd (kv_lpush ?r key vs)))" if "k \<in> fst ` set (store s)" for k
    using that
    by (auto simp: kv_lpush_def deserialized_def image_of_def create_entry_def count_write_def set_value_def Let_def hm_insert_keys
        split: sum.splits option.splits kv_value.splits)
  have "k \<notin> set (lru_order (snd (kv_lpush ?r key vs))) \<and> \<not> kv_inv (snd (kv_lpush ?r key vs))"
    if "k \<in> fst ` set (store s)" "k \<noteq> key" for k
  proof -
    have "k \<notin> set (lru_order (snd (kv_lpush ?r key vs)))" using lru that(2) by blast
    then show ?thesis using keys[OF that(1)] unfolding kv_inv_def parts_inv_def by blast
  qed
  with rec list show ?thesis by blast
qed

lemma remove_old_all:
  "remove_error P = (\<lambda>_. None) \<Longrightarrow>
   remove_old P cutoff (map Inr fs) n d =
     (Inr (n + length (filter (\<lambda>f. \<exists>t. snapshot_time f = Some t \<and> t < cutoff) fs)),
      fold hm_remove (filter (\<lambda>f. \<exists>t. snapshot_time f = Some t \<and> t < cutoff) fs) d)"
  by (induction fs arbitrary: n d) (auto split: option.splits)

text \<open>Clean-up removes exactly the snapshots stamped before \<open>now - max_age\<close> and counts them; other files
  stay. Since \<open>now\<close> is in seconds and \<open>create_snapshot\<close> stamps nanoseconds, a directory of such
  snapshots, all stamped later than \<open>now\<close>, is never cleaned, whatever the age asked for.\<close>

theorem snapshot_cleanup_exact:
  fixes now max_age :: u64
  assumes "dir_ok P" "remove_error P = (\<lambda>_. None)"
  defines "old \<equiv> \<lambda>f. \<exists>t. snapshot_time f = Some t \<and> t < saturating_sub_u64 now max_age"
  shows "cleanup_old_snapshots P now max_age d =
      (Inr (length (filter (\<lambda>(f, _). old f) d)), filter (\<lambda>(f, _). \<not> old f) d)
    \<and> ((\<forall>f \<in> set (hm_keys d). \<forall>t. snapshot_time f = Some t \<longrightarrow> now \<le> t) \<longrightarrow>
        cleanup_old_snapshots P now max_age d = (Inr 0, d))"
proof -
  have "cleanup_old_snapshots P now max_age d =
      (Inr (length (filter old (hm_keys d))), fold hm_remove (filter old (hm_keys d)) d)"
    using assms(1) remove_old_all[OF assms(2), of "saturating_sub_u64 now max_age" "hm_keys d" 0 d]
    by (simp add: cleanup_old_snapshots_def dir_ok_def dir_entries_def old_def del: map_map)
  moreover have "length (filter old (hm_keys d)) = length (filter (\<lambda>(f, _). old f) d)"
    by (simp add: filter_map comp_def case_prod_unfold)
  moreover have "fold hm_remove (filter old (hm_keys d)) d = filter (\<lambda>(f, _). \<not> old f) d"
    unfolding fold_hm_remove by (intro filter_cong) (auto simp: image_iff)
  ultimately have c: "cleanup_old_snapshots P now max_age d =
      (Inr (length (filter (\<lambda>(f, _). old f) d)), filter (\<lambda>(f, _). \<not> old f) d)" by simp
  moreover have "cleanup_old_snapshots P now max_age d = (Inr 0, d)"
    if new: "\<forall>f \<in> set (hm_keys d). \<forall>t. snapshot_time f = Some t \<longrightarrow> now \<le> t"
  proof -
    have "saturating_sub_u64 now max_age \<le> now"
      by (simp add: word_le_nat_alt unat_saturating_sub_u64)
    then have "\<not> old (fst p)" if "p \<in> set d" for p
      using new that unfolding old_def by fastforce
    then show ?thesis unfolding c by (auto simp: filter_empty_conv filter_id_conv case_prod_unfold)
  qed
  ultimately show ?thesis by blast
qed

subsection \<open>Concrete snapshots\<close>

text \<open>A directory that works, and a codec that serialises one store.\<close>

definition toy_pitr :: "kv_store \<Rightarrow> pitr_env" where
  "toy_pitr s = \<lparr>compression = SnapNone, lib = text_lib, at_rest_key = None,
     snap_encode = (\<lambda>c img. if img = image_of s then Inr ''{}'' else Inl (SerializationError ''unsupported'')),
     snap_decode = (\<lambda>c b. if b = ''{}'' then Inr (image_of s) else Inl (SerializationError ''unsupported'')),
     write_error = None, open_dir_error = None, dir_entry_error = None,
     read_error = (\<lambda>_. None), remove_error = (\<lambda>_. None)\<rparr>"

lemma toy_pitr_facts:
  "snapshot_codec_ok (toy_pitr s)" "crypto_lib_ok (lib (toy_pitr s))" "read_error (toy_pitr s) = (\<lambda>_. None)"
  "remove_error (toy_pitr s) = (\<lambda>_. None)" "dir_ok (toy_pitr s)" "encrypted_suffix (toy_pitr s) = ''.json''"
proof -
  have "\<not> starts_with enc_prefix ''{}''" by code_simp
  then show "snapshot_codec_ok (toy_pitr s)" unfolding snapshot_codec_ok_def toy_pitr_def by simp
qed (simp_all add: toy_pitr_def dir_ok_def text_lib_ok encrypted_suffix_def enabled_def key_from_env_def)

lemma toy_create:
  "\<exists>meta d'. create_snapshot (toy_pitr s) None 0 ts (Inr []) s [] = (Inr meta, d')"
  by (simp add: create_snapshot_def toy_pitr_def encrypt_def key_from_env_def Let_def)

theorem snapshot_names_are_fresh_witness:
  "free_name 5 ''.json'' [''snapshot_5.json''] 0 \<noteq> ''snapshot_5.json''"
  using snapshot_names_are_fresh[of 5 "toy_pitr kv_new" "[(''snapshot_5.json'', \<lparr>file_bytes = [], modified = 0\<rparr>)]" 0 "[]"]
  by (simp add: toy_pitr_facts Let_def)

theorem recovery_is_log_prefix_witness:
  "\<forall>R :: nat runtime. recover_to_timestamp R (toy_pitr kv_new) (\<lambda>_. 9) (Inr [push_at 1 ''x'', push_at 7 ''y'']) [] 5
     = Inr (snd (pitr_apply_wal_entry R 9 kv_new (push_at 1 ''x'')))"
proof -
  have "recover_to_timestamp R (toy_pitr kv_new) (\<lambda>_. 9) (Inr [push_at 1 ''x'', push_at 7 ''y'']) [] 5
     = Inr (snd (pitr_apply_wal_entry R 9 kv_new (push_at 1 ''x'')))" for R :: "nat runtime"
    using recovery_is_log_prefix[OF toy_pitr_facts(5)[of kv_new], where d = "[]" and ?t2.0 = 5 and ?t1.0 = 5
        and R = R and clock = "\<lambda>_. 9" and es = "[push_at 1 ''x'', push_at 7 ''y'']"]
    by (simp add: push_at_def upt_conv_Cons del: upt_Suc)
  then show ?thesis by blast
qed

theorem snapshot_then_recover_witness:
  "\<forall>R :: nat runtime. \<exists>meta d'. create_snapshot (toy_pitr sample_store) None 0 100 (Inr []) sample_store [] = (Inr meta, d')
     \<and> recover_to_latest_snapshot R (toy_pitr sample_store) (\<lambda>_. 9) (Inr []) d' = Inr (deserialized (image_of sample_store))"
proof -
  have "\<exists>meta d'. create_snapshot (toy_pitr sample_store) None 0 100 (Inr []) sample_store [] = (Inr meta, d')
     \<and> recover_to_latest_snapshot R (toy_pitr sample_store) (\<lambda>_. 9) (Inr []) d' = Inr (deserialized (image_of sample_store))"
    for R :: "nat runtime"
  proof -
    from toy_create[of sample_store 100] obtain meta d' where
      c: "create_snapshot (toy_pitr sample_store) None 0 100 (Inr []) sample_store [] = (Inr meta, d')" by blast
    have n: "\<And>n. None = Some n \<Longrightarrow> length n = nonce_size" by simp
    have e: "\<forall>f \<in> set (hm_keys []). \<forall>t. snapshot_time f = Some t \<longrightarrow> t < 100" by simp
    note snapshot_then_recover[OF c toy_pitr_facts(1,2) n toy_pitr_facts(3,5) e, of R "\<lambda>_. 9" "[]"]
    with c show ?thesis by simp
  qed
  then show ?thesis by blast
qed

theorem recovery_repeats_logged_writes_witness:
  "\<forall>R :: nat runtime. \<exists>s meta d' s'. s = snd (kv_lpush sample_store ''l'' [''x''])
     \<and> create_snapshot (toy_pitr s) None 0 100 (Inr []) s [] = (Inr meta, d')
     \<and> recover_to_latest_snapshot R (toy_pitr s) (\<lambda>_. 9) (Inr [\<lparr>timestamp = 7, operation = WalLPush ''l'' [''x'']\<rparr>]) d' = Inr s'
     \<and> list_at s' ''l'' = Some [''x'', ''x'']"
proof -
  have "\<exists>s meta d' s'. s = snd (kv_lpush sample_store ''l'' [''x''])
     \<and> create_snapshot (toy_pitr s) None 0 100 (Inr []) s [] = (Inr meta, d')
     \<and> recover_to_latest_snapshot R (toy_pitr s) (\<lambda>_. 9) (Inr [\<lparr>timestamp = 7, operation = WalLPush ''l'' [''x'']\<rparr>]) d' = Inr s'
     \<and> list_at s' ''l'' = Some [''x'', ''x'']" for R :: "nat runtime"
  proof -
    let ?s = "snd (kv_lpush sample_store ''l'' [''x''])"
    have "validate_key sample_store ''l'' = Inr ()" "list_at sample_store ''l'' = Some []"
      by (simp_all add: validate_key_def list_at_def sample_defs)
    from kl.view_lpush[OF this, of "[''x'']"] have l: "list_at ?s ''l'' = Some [''x'']" by simp
    from toy_create[of ?s 100] obtain meta d' where c: "create_snapshot (toy_pitr ?s) None 0 100 (Inr []) ?s [] = (Inr meta, d')"
      by blast
    have n: "\<And>n. None = Some n \<Longrightarrow> length n = nonce_size" by simp
    have e: "\<forall>f \<in> set (hm_keys []). \<forall>t. snapshot_time f = Some t \<longrightarrow> t < 100" by simp
    have k: "''l'' \<noteq> []" "length ''l'' \<le> 1024" "(7 :: u64) \<le> 100" by simp_all
    from recovery_repeats_logged_writes[OF c toy_pitr_facts(1,2) n toy_pitr_facts(3,5) e l k(1,2) refl k(3), of R "\<lambda>_. 9" "[''x'']"]
    obtain s' where "recover_to_latest_snapshot R (toy_pitr ?s) (\<lambda>_. 9) (Inr [\<lparr>timestamp = 7, operation = WalLPush ''l'' [''x'']\<rparr>]) d' = Inr s'"
      "list_at s' ''l'' = Some [''x'', ''x'']" by auto
    with c show ?thesis by blast
  qed
  then show ?thesis by blast
qed

theorem snapshot_cleanup_exact_witness:
  "cleanup_old_snapshots (toy_pitr kv_new) 100 10 [(''readme'', \<lparr>file_bytes = [], modified = 0\<rparr>)]
     = (Inr 0, [(''readme'', \<lparr>file_bytes = [], modified = 0\<rparr>)])"
proof -
  have "snapshot_time ''readme'' = None" by (simp add: snapshot_time_def starts_with_def)
  then show ?thesis
    using snapshot_cleanup_exact[OF toy_pitr_facts(5)[of kv_new] toy_pitr_facts(4), of 100 10 "[(''readme'', \<lparr>file_bytes = [], modified = 0\<rparr>)]"]
    by simp
qed

end
