(* ===== verification/Lua_Scripts.thy ===== *)
theory Lua_Scripts
  imports Http_Recovery
begin

section \<open>Lua scripts (lua.rs and its endpoint in api.rs)\<close>

text \<open>
  A script runs under the store's write lock and reaches the server only through the helpers
  registered by \<open>execute_script\<close>. The interpreter (\<open>mlua\<close>) is a parameter that turns a script's
  text into what it does next: finish with values, raise an error, or call a helper and go on with
  the reply. A helper's error is a reply too, since the script may catch it. A \<open>lua_script\<close> is
  well founded: a script that never returns holds the lock for ever and has no result here.
\<close>

datatype lua_value = LNil | LBool bool | LInteger i64 | LNumber u64 | LString string | LComplex

datatype lua_call =
    LGet string
  | LSet string string
  | LSetEx string string u64
  | LDelete string
  | LIncr string
  | LExists string
  | LTtl string
  | LPttl string
  | LHSet string string string
  | LHGet string string
  | LHDel string string
  | LHGetAll string
  | LPrint string

datatype lua_reply =
    ReplyText "string option"
  | ReplyBool bool
  | ReplyInt i64
  | ReplyTable "(string, string) hmap"
  | ReplyUnit
  | ReplyError string

datatype lua_script =
    Finish "lua_value list"
  | Raise string
  | Call lua_call "lua_reply \<Rightarrow> lua_script"

fun lua_value_to_string :: "'f runtime \<Rightarrow> lua_value \<Rightarrow> string" where
  "lua_value_to_string R LNil = ''nil''"
| "lua_value_to_string R (LBool b) = (if b then ''true'' else ''false'')"
| "lua_value_to_string R (LInteger i) = show_i64 i"
| "lua_value_to_string R (LNumber x) = show_float R x"
| "lua_value_to_string R (LString s) = (if utf8_ok s then s else ''<binary>'')"
| "lua_value_to_string R LComplex = ''<complex>''"

text \<open>What a running script changes: the store, the log, the collected output.\<close>

record 'w lua_state =
  lua_store :: kv_store
  lua_wal :: 'w
  lua_output :: string

text \<open>\<open>wal: Option<&Wal>\<close>: without a log nothing is written; a failed append raises before the store is touched.\<close>

definition lua_logging ::
  "(wal_operation \<Rightarrow> 'w \<Rightarrow> unit result \<times> 'w) option \<Rightarrow> wal_operation \<Rightarrow> 'w lua_state \<Rightarrow>
   ('w lua_state \<Rightarrow> lua_reply \<times> 'w lua_state) \<Rightarrow> lua_reply \<times> 'w lua_state" where
  "lua_logging wal op st k =
     (case wal of
        None \<Rightarrow> k st
      | Some lg \<Rightarrow>
          (case lg op (lua_wal st) of
             (Inl e, w) \<Rightarrow> (ReplyError (show_error e), st\<lparr>lua_wal := w\<rparr>)
           | (Inr _, w) \<Rightarrow> k (st\<lparr>lua_wal := w\<rparr>)))"

definition lua_result :: "('a \<Rightarrow> lua_reply) \<Rightarrow> 'a result \<times> kv_store \<Rightarrow> 'w lua_state \<Rightarrow> lua_reply \<times> 'w lua_state" where
  "lua_result f r st =
     ((case fst r of Inr x \<Rightarrow> f x | Inl e \<Rightarrow> ReplyError (show_error e)), st\<lparr>lua_store := snd r\<rparr>)"

definition append_line :: "string \<Rightarrow> string \<Rightarrow> string" where
  "append_line out t = (if out = [] then t else out @ nl # t)"

fun lua_helper ::
  "'f runtime \<Rightarrow> (wal_operation \<Rightarrow> 'w \<Rightarrow> unit result \<times> 'w) option \<Rightarrow> u64 \<Rightarrow> lua_call \<Rightarrow> 'w lua_state \<Rightarrow>
   lua_reply \<times> 'w lua_state" where
  "lua_helper R wal now (LGet key) st =
     (ReplyText (map_option (display R) (kv_get now (lua_store st) key)), st)"
| "lua_helper R wal now (LSet key v) st =
     lua_logging wal (WalSet key (json_of_value R (VStr v)) None) st (\<lambda>st.
       lua_result (\<lambda>_. ReplyBool True) (kv_set now (lua_store st) key (VStr v)) st)"
| "lua_helper R wal now (LSetEx key v ttl_secs) st =
     lua_logging wal (WalSet key (json_of_value R (VStr v)) (Some ttl_secs)) st (\<lambda>st.
       lua_result (\<lambda>_. ReplyBool True) (kv_set_with_ttl now (lua_store st) key (VStr v) ttl_secs) st)"
| "lua_helper R wal now (LDelete key) st =
     lua_logging wal (WalDelete key) st (\<lambda>st.
       let (r, s) = kv_delete now (lua_store st) key in (ReplyBool (r \<noteq> None), st\<lparr>lua_store := s\<rparr>))"
| "lua_helper R wal now (LIncr key) st =
     lua_logging wal (WalIncr key) st (\<lambda>st. lua_result ReplyInt (kv_incr (lua_store st) key) st)"
| "lua_helper R wal now (LExists key) st = (ReplyBool (kv_exists now (lua_store st) key), st)"
| "lua_helper R wal now (LTtl key) st = (ReplyInt (ttl_seconds now (lua_store st) key), st)"
| "lua_helper R wal now (LPttl key) st = (ReplyInt (pttl_millis now (lua_store st) key), st)"
| "lua_helper R wal now (LHSet key field v) st =
     (let (r, s) = kv_hset (lua_store st) key [(field, v)] in (ReplyBool (is_ok r), st\<lparr>lua_store := s\<rparr>))"
| "lua_helper R wal now (LHGet key field) st =
     (ReplyText (case kv_hget now (lua_store st) key field of Inr v \<Rightarrow> v | Inl _ \<Rightarrow> None), st)"
| "lua_helper R wal now (LHDel key field) st =
     (let (r, s) = kv_hdel (lua_store st) key [field] in
      (ReplyBool (case r of Inr n \<Rightarrow> n > 0 | Inl _ \<Rightarrow> False), st\<lparr>lua_store := s\<rparr>))"
| "lua_helper R wal now (LHGetAll key) st =
     (ReplyTable (case kv_hgetall now (lua_store st) key of Inr m \<Rightarrow> m | Inl _ \<Rightarrow> []), st)"
| "lua_helper R wal now (LPrint t) st = (ReplyUnit, st\<lparr>lua_output := append_line (lua_output st) t\<rparr>)"

text \<open>The script's calls one after the other; \<open>clock n\<close> is the reading at the \<open>n\<close>-th.\<close>

primrec lua_run ::
  "'f runtime \<Rightarrow> (wal_operation \<Rightarrow> 'w \<Rightarrow> unit result \<times> 'w) option \<Rightarrow> (nat \<Rightarrow> u64) \<Rightarrow> nat \<Rightarrow> lua_script \<Rightarrow> 'w lua_state \<Rightarrow>
   (string + lua_value list) \<times> 'w lua_state" where
  "lua_run R wal clock n (Finish vs) st = (Inr vs, st)"
| "lua_run R wal clock n (Raise e) st = (Inl e, st)"
| "lua_run R wal clock n (Call c k) st =
     (let (r, st1) = lua_helper R wal (clock n) c st in lua_run R wal clock (n + 1) (k r) st1)"

fun join_with :: "string \<Rightarrow> string list \<Rightarrow> string" where
  "join_with sep [] = []"
| "join_with sep [x] = x"
| "join_with sep (x # y # xs) = x @ sep @ join_with sep (y # xs)"

definition execute_script ::
  "'f runtime \<Rightarrow> (string \<Rightarrow> lua_script) \<Rightarrow> (wal_operation \<Rightarrow> 'w \<Rightarrow> unit result \<times> 'w) option \<Rightarrow> (nat \<Rightarrow> u64) \<Rightarrow> string \<Rightarrow>
   kv_store \<Rightarrow> 'w \<Rightarrow> string result \<times> kv_store \<times> 'w" where
  "execute_script R interp wal clock script s w =
     (let (res, st) = lua_run R wal clock 0 (interp script) \<lparr>lua_store = s, lua_wal = w, lua_output = []\<rparr> in
      ((case res of
          Inl e \<Rightarrow> Inl (OperationFailed (''Lua setup failed: Lua execution failed: '' @ e))
        | Inr vs \<Rightarrow>
            Inr (if vs = [] then lua_output st
                 else append_line (lua_output st) (join_with '' '' (map (lua_value_to_string R) vs)))),
       lua_store st, lua_wal st))"

text \<open>The endpoint. \<open>settings\<close> are \<open>lua_enabled\<close> and \<open>max_lua_script_bytes\<close>, absent without a runtime configuration.\<close>

definition api_lua_exec ::
  "('w, 'f) request_env \<Rightarrow> (string \<Rightarrow> lua_script) \<Rightarrow> (nat \<Rightarrow> u64) \<Rightarrow> (bool \<times> nat) option \<Rightarrow> headers \<Rightarrow> string \<Rightarrow>
   'w server \<Rightarrow> response \<times> 'w server" where
  "api_lua_exec cx interp clock settings h script sv = guarded cx h sv (\<lambda>sv.
     case (case settings of
             None \<Rightarrow> None
           | Some (lua_enabled, max_bytes) \<Rightarrow>
               if \<not> lua_enabled then Some \<lparr>status = 403, body = Body ''Lua execution is disabled''\<rparr>
               else if length script > max_bytes then
                 Some \<lparr>status = 413, body = Body (''Lua script exceeds max size of '' @ show_nat max_bytes @ '' bytes'')\<rparr>
               else None) of
       Some r \<Rightarrow> (r, sv)
     | None \<Rightarrow>
         if in_transaction (sv_store sv) then
           (\<lparr>status = 409, body = Body ''Cannot execute Lua while a transaction is in progress''\<rparr>, sv)
         else
           (let (r, s, w) = execute_script (rt cx) interp (Some (log cx)) clock script (sv_store sv) (sv_wal sv) in
            ((case r of
                Inr out \<Rightarrow> ok_json (JObj [(''output'', JStr out)])
              | Inl e \<Rightarrow> bad_request (show_error e)),
             sv\<lparr>sv_store := s, sv_wal := w\<rparr>)))"

subsection \<open>Lemmas\<close>

lemma lua_helper_inv: "kv_inv (lua_store st) \<Longrightarrow> kv_inv (lua_store (snd (lua_helper R wal now c st)))"
  by (cases c)
     (auto simp: lua_logging_def lua_result_def operation_invs split_beta split: option.splits sum.splits prod.splits)

lemma lua_run_inv: "kv_inv (lua_store st) \<Longrightarrow> kv_inv (lua_store (snd (lua_run R wal clock n p st)))"
proof (induction p arbitrary: n st)
  case (Call c k)
  obtain r st1 where h: "lua_helper R wal (clock n) c st = (r, st1)" by fastforce
  with lua_helper_inv[OF Call.prems, of R wal "clock n" c] have "kv_inv (lua_store st1)" by simp
  with Call.IH[of "k r" st1 "n + 1"] h show ?case by simp
qed simp_all

lemma execute_script_inv: "kv_inv s \<Longrightarrow> kv_inv (fst (snd (execute_script R interp wal clock script s w)))"
  using lua_run_inv[of "\<lparr>lua_store = s, lua_wal = w, lua_output = []\<rparr>" R wal clock 0 "interp script"]
  by (simp add: execute_script_def split_beta)

text \<open>The calls a script makes with the replies it gets.\<close>

primrec lua_trace ::
  "'f runtime \<Rightarrow> (wal_operation \<Rightarrow> 'w \<Rightarrow> unit result \<times> 'w) option \<Rightarrow> (nat \<Rightarrow> u64) \<Rightarrow> nat \<Rightarrow> lua_script \<Rightarrow> 'w lua_state \<Rightarrow>
   (lua_call \<times> lua_reply) list" where
  "lua_trace R wal clock n (Finish vs) st = []"
| "lua_trace R wal clock n (Raise e) st = []"
| "lua_trace R wal clock n (Call c k) st =
     (let (r, st1) = lua_helper R wal (clock n) c st in (c, r) # lua_trace R wal clock (n + 1) (k r) st1)"

text \<open>A call whose effect replay repeats: not a hash write, and not a refused SET.\<close>

fun lua_replayable :: "lua_call \<times> lua_reply \<Rightarrow> bool" where
  "lua_replayable (LHSet _ _ _, _) = False"
| "lua_replayable (LHDel _ _, _) = False"
| "lua_replayable (LSet _ _, r) = (\<forall>e. r \<noteq> ReplyError e)"
| "lua_replayable (LSetEx _ _ _, r) = (\<forall>e. r \<noteq> ReplyError e)"
| "lua_replayable _ = True"

lemma lua_helper_replays:
  assumes "strings_read_back R" "lua_helper R (Some (ideal_append now)) now c st = (r, st1)" "lua_replayable (c, r)"
  shows "\<exists>new. lua_wal st1 = lua_wal st @ new \<and> replay_entries R (lua_store st) new = Inr (lua_store st1)"
proof -
  have none: "lua_wal st1 = lua_wal st \<Longrightarrow> lua_store st1 = lua_store st \<Longrightarrow> ?thesis"
    by (intro exI[of _ "[]"]) simp
  have one: "lua_wal st1 = lua_wal st @ [(now, wal_entry_new now op)] \<Longrightarrow>
      replay_op R now (lua_store st) op = Inr (lua_store st1) \<Longrightarrow> ?thesis" for op
    by (intro exI[of _ "[(now, wal_entry_new now op)]"]) (simp add: wal_entry_new_def)
  note ev = lua_logging_def lua_result_def ideal_append_def Let_def split_beta
  show ?thesis
  proof (cases c)
    case (LSet k v)
    with assms(2,3) have "fst (kv_set now (lua_store st) k (VStr v)) = Inr ()"
      by (auto simp: ev split: sum.splits)
    with LSet assms(1,2) show ?thesis
      by (intro one[of "WalSet k (json_of_value R (VStr v)) None"]) (auto simp: ev strings_read_back_def)
  next
    case (LSetEx k v ttl)
    with assms(2,3) have "fst (kv_set_with_ttl now (lua_store st) k (VStr v) ttl) = Inr ()"
      by (auto simp: ev split: sum.splits)
    with LSetEx assms(1,2) show ?thesis
      by (intro one[of "WalSet k (json_of_value R (VStr v)) (Some ttl)"]) (auto simp: ev strings_read_back_def)
  next
    case (LDelete k)
    with assms(2) show ?thesis by (intro one[of "WalDelete k"]) (auto simp: ev)
  next
    case (LIncr k)
    with assms(2) show ?thesis by (intro one[of "WalIncr k"]) (auto simp: ev)
  qed (use assms(2,3) in \<open>auto intro!: none simp: ev\<close>)
qed

lemma lua_run_replays:
  assumes "strings_read_back R"
  shows "list_all lua_replayable (lua_trace R (Some (ideal_append now)) (\<lambda>_. now) n p st) \<Longrightarrow>
    \<exists>new. lua_wal (snd (lua_run R (Some (ideal_append now)) (\<lambda>_. now) n p st)) = lua_wal st @ new
      \<and> replay_entries R (lua_store st) new = Inr (lua_store (snd (lua_run R (Some (ideal_append now)) (\<lambda>_. now) n p st)))"
proof (induction p arbitrary: n st)
  case (Call c k)
  obtain r st1 where h: "lua_helper R (Some (ideal_append now)) now c st = (r, st1)" by fastforce
  with Call.prems have tr: "lua_replayable (c, r)"
    "list_all lua_replayable (lua_trace R (Some (ideal_append now)) (\<lambda>_. now) (n + 1) (k r) st1)" by simp_all
  from lua_helper_replays[OF assms h tr(1)] obtain new1 where n1: "lua_wal st1 = lua_wal st @ new1"
    "replay_entries R (lua_store st) new1 = Inr (lua_store st1)" by blast
  from Call.IH[OF _ tr(2)] obtain new2 where n2:
    "lua_wal (snd (lua_run R (Some (ideal_append now)) (\<lambda>_. now) (n + 1) (k r) st1)) = lua_wal st1 @ new2"
    "replay_entries R (lua_store st1) new2 = Inr (lua_store (snd (lua_run R (Some (ideal_append now)) (\<lambda>_. now) (n + 1) (k r) st1)))"
    by blast
  with n1 h show ?case by (intro exI[of _ "new1 @ new2"]) (simp add: replay_entries_append)
qed simp_all

subsection \<open>Properties\<close>


text \<open>Scripts are not transactions, and their hash writes are not durable. A script that sets a key, sets
  a hash field and then raises answers 400, yet both writes stay in the store; the log holds the SET
  only, so a restart recovers the one and loses the other. A script is refused, with nothing changed,
  while a transaction is open, when Lua is disabled or when it is too long.\<close>

theorem lua_error_keeps_writes:
  fixes sv :: "ideal_log server" and now :: u64
  assumes "require_api_key key h = None" "strings_read_back R" "accepts (sv_store sv) k (VStr v)" "unlimited (sv_store sv)"
    "validate_key (sv_store sv) g = Inr ()" "hm_get (store (sv_store sv)) g = None" "g \<noteq> k"
    "interp script = Call (LSet k v) (\<lambda>_. Call (LHSet g f x) (\<lambda>_. Raise e))"
  defines "exec \<equiv> \<lambda>settings sv. api_lua_exec (env_at key R now) interp (\<lambda>_. now) settings h script sv"
  shows "status (fst (exec None sv)) = 400
    \<and> kv_get t (sv_store (snd (exec None sv))) k = Some (VStr v)
    \<and> kv_hget t (sv_store (snd (exec None sv))) g f = Inr (Some x)
    \<and> sv_wal (snd (exec None sv)) = sv_wal sv @ [(now, wal_entry_new now (WalSet k (json_of_value R (VStr v)) None))]
    \<and> (\<forall>n. snd (exec (Some (False, n)) sv) = sv \<and> (n < length script \<longrightarrow> snd (exec (Some (True, n)) sv) = sv))
    \<and> (\<forall>q. snd (exec None (sv\<lparr>sv_store := (sv_store sv)\<lparr>transaction_queue := Some q\<rparr>\<rparr>))
             = sv\<lparr>sv_store := (sv_store sv)\<lparr>transaction_queue := Some q\<rparr>\<rparr>)"
proof -
  let ?s = "sv_store sv" and ?op = "WalSet k (json_of_value R (VStr v)) None"
  let ?s1 = "snd (kv_set now ?s k (VStr v))"
  let ?s2 = "update_lru g (create_entry g (VHash [(f, x)]) ?s1)"
  have set: "kv_set now ?s k (VStr v) = (Inr (), ?s1)" by (simp add: kv_set_accepts[OF assms(3)])
  have st1: "store ?s1 = hm_insert k \<lparr>entry_value = VStr v, expires_at = None\<rparr> (store ?s)"
    by (simp add: kv_set_accepts[OF assms(3)] store_entry_fits[OF unlimited_fits[OF assms(4)]])
  have "config ?s1 = config ?s" by (simp add: kv_set_accepts[OF assms(3)])
  then have "validate_key ?s1 g = Inr ()" using assms(5) by (simp add: validate_key_ok_iff)
  then have hset: "kv_hset ?s1 g [(f, x)] = (Inr 1, ?s2)"
    using assms(6,7) by (simp add: kv_hset_def st1)
  have st2: "store ?s2 = hm_insert g \<lparr>entry_value = VHash [(f, x)], expires_at = None\<rparr> (store ?s1)"
    by (simp add: create_entry_def Let_def)
  have "\<not> in_transaction ?s" using assms(3) by (simp add: accepts_def)
  then have ex: "exec None sv = (bad_request (show_error (OperationFailed (''Lua setup failed: Lua execution failed: '' @ e))),
      sv\<lparr>sv_store := ?s2, sv_wal := sv_wal sv @ [(now, wal_entry_new now ?op)]\<rparr>)"
    using assms(1,8) set hset
    by (simp add: exec_def api_lua_exec_def guarded_def env_at_def execute_script_def lua_logging_def lua_result_def ideal_append_def)
  have get: "kv_get t ?s2 k = Some (VStr v)" "kv_hget t ?s2 g f = Inr (Some x)"
    using assms(7) by (simp_all add: kv_get_def kv_hget_def live_value_def st1 st2)
  have refused: "snd (exec (Some (False, n)) sv) = sv" "n < length script \<Longrightarrow> snd (exec (Some (True, n)) sv) = sv" for n
    using assms(1) by (simp_all add: exec_def api_lua_exec_def guarded_def env_at_def)
  have tx: "snd (exec None (sv\<lparr>sv_store := ?s\<lparr>transaction_queue := Some q\<rparr>\<rparr>)) = sv\<lparr>sv_store := ?s\<lparr>transaction_queue := Some q\<rparr>\<rparr>" for q
    using assms(1) by (simp add: exec_def api_lua_exec_def guarded_def env_at_def in_transaction_def)
  show ?thesis using get refused tx by (simp add: ex bad_request_def)
qed

text \<open>An interpreter for one text.\<close>

definition one_script :: "string \<Rightarrow> lua_script" where
  "one_script t = Call (LSet ''k'' ''v'') (\<lambda>_. Call (LHSet ''h'' ''f'' ''1'') (\<lambda>_. Raise ''boom''))"

theorem lua_error_keeps_writes_witness:
  "\<forall>F. kv_get 9 (sv_store (snd (api_lua_exec (env_at None (toy_runtime F) 5) one_script (\<lambda>_. 5) None no_headers ''run''
      \<lparr>sv_store = open_store, sv_wal = [], sv_pubsub = pubsub_new\<rparr>))) ''k'' = Some (VStr ''v'')"
proof -
  have "kv_get 9 (sv_store (snd (api_lua_exec (env_at None (toy_runtime F) 5) one_script (\<lambda>_. 5) None no_headers ''run''
      \<lparr>sv_store = open_store, sv_wal = [], sv_pubsub = pubsub_new\<rparr>))) ''k'' = Some (VStr ''v'')" for F
  proof -
    let ?sv = "\<lparr>sv_store = open_store, sv_wal = [], sv_pubsub = pubsub_new\<rparr> :: ideal_log server"
    have f: "require_api_key None no_headers = None" "accepts (sv_store ?sv) ''k'' (VStr ''v'')" "unlimited (sv_store ?sv)"
      "validate_key (sv_store ?sv) ''h'' = Inr ()" "hm_get (store (sv_store ?sv)) ''h'' = None" "''h'' \<noteq> ''k''"
      using open_store_facts
      by (simp_all add: require_api_key_def) (simp_all add: open_store_def with_config_def default_config_def validate_key_def config_default_defs)
    have i: "one_script ''run'' = Call (LSet ''k'' ''v'') (\<lambda>_. Call (LHSet ''h'' ''f'' ''1'') (\<lambda>_. Raise ''boom''))"
      by (simp add: one_script_def)
    note kept = lua_error_keeps_writes[where script = "''run''" and interp = one_script]
    from kept[OF f(1) toy_runtime_reads f(2-6) i, of F 5 9] show ?thesis by simp
  qed
  then show ?thesis by blast
qed


end
