(* ===== verification/Http_Endpoints.thy ===== *)
theory Http_Endpoints
  imports Pitr_Recovery Lua_Scripts
begin

section \<open>The remaining endpoints (api.rs)\<close>

text \<open>
  The reading handlers of the store, the pub/sub endpoints, the keyspace configuration and the
  snapshot and replication reports. A reading handler is a function from the server's state to a
  response; those that check the key are written with \<open>read_guarded\<close>, the others take no request.
  \<open>json_f64\<close> is serde's printing of a float; a panic of \<open>lrange\<close> would be \<open>None\<close>.
\<close>

definition not_found :: "body \<Rightarrow> response" where "not_found b = \<lparr>status = 404, body = b\<rparr>"

definition read_guarded :: "('w, 'f) request_env \<Rightarrow> headers \<Rightarrow> response \<Rightarrow> response" where
  "read_guarded cx h r = (case require_api_key (api_key cx) h of Some e \<Rightarrow> e | None \<Rightarrow> r)"

definition respond_read :: "('a \<Rightarrow> json) \<Rightarrow> 'a result \<Rightarrow> response" where
  "respond_read f r = (case r of Inr x \<Rightarrow> ok_json (f x) | Inl e \<Rightarrow> bad_request (show_error e))"

definition json_u64 :: "u64 \<Rightarrow> json" where "json_u64 w = JInt (uint w)"
definition json_strings :: "string list \<Rightarrow> json" where "json_strings xs = JArr (map JStr xs)"

definition json_option :: "('a \<Rightarrow> json) \<Rightarrow> 'a option \<Rightarrow> json" where
  "json_option f v = (case v of Some x \<Rightarrow> f x | None \<Rightarrow> JNull)"

subsection \<open>Health\<close>

definition health_response :: "string \<Rightarrow> bool option \<Rightarrow> response" where
  "health_response text lua_enabled =
     ok_json (JObj [(''status'', JStr text),
       (''lua_enabled'', JBool (case lua_enabled of Some b \<Rightarrow> b | None \<Rightarrow> True))])"

definition health_live :: "bool option \<Rightarrow> response" where "health_live = health_response ''ok''"
definition health_ready :: "bool option \<Rightarrow> response" where "health_ready = health_response ''ready''"

subsection \<open>Reading keys\<close>

definition get_value :: "'f runtime \<Rightarrow> u64 \<Rightarrow> kv_store \<Rightarrow> string \<Rightarrow> response" where
  "get_value R now s key =
     (case kv_get now s key of
        Some v \<Rightarrow> ok_json (JStr (display R v))
      | None \<Rightarrow> not_found (Body (''Key '' @ quoted key @ '' not found'')))"

definition list_keys :: "'f runtime \<Rightarrow> u64 \<Rightarrow> kv_store \<Rightarrow> response" where
  "list_keys R now s =
     (let entries = kv_iter now s in
      ok_json (JObj [(''keys'', json_strings (map fst entries)),
        (''values'', json_strings (map (\<lambda>(k, v). display R v) entries))]))"

text \<open>The handler takes the write lock and says that it tracks reads; \<open>mget\<close> changes nothing.\<close>

definition mget_values :: "'f runtime \<Rightarrow> u64 \<Rightarrow> kv_store \<Rightarrow> string list \<Rightarrow> response" where
  "mget_values R now s keys = ok_json (JArr (map (json_option (JStr \<circ> display R)) (kv_mget now s keys)))"

definition exists_key :: "u64 \<Rightarrow> kv_store \<Rightarrow> string \<Rightarrow> response" where
  "exists_key now s key = ok_json (JBool (kv_exists now s key))"

definition keys_pattern :: "u64 \<Rightarrow> kv_store \<Rightarrow> string \<Rightarrow> response" where
  "keys_pattern now s pattern = ok_json (json_strings (kv_keys now s pattern))"

definition get_ttl :: "u64 \<Rightarrow> kv_store \<Rightarrow> string \<Rightarrow> response" where
  "get_ttl now s key = ok_json (json_i64 (ttl_seconds now s key))"

definition get_pttl :: "u64 \<Rightarrow> kv_store \<Rightarrow> string \<Rightarrow> response" where
  "get_pttl now s key = ok_json (json_i64 (pttl_millis now s key))"

subsection \<open>Statistics\<close>

definition get_stats :: "'f f64_arith \<Rightarrow> ('f \<Rightarrow> json) \<Rightarrow> kv_store \<Rightarrow> response" where
  "get_stats F json_f64 s =
     (let st = stats s;
          rate = (if total_reads st > 0
                  then f_mul F (f_div F (f_of_nat F (hits st)) (f_of_nat F (total_reads st))) (f_lit F ''100.0'')
                  else f_lit F ''0.0'')
      in ok_json (JObj [(''total_keys'', json_nat (total_keys st)), (''expired_keys'', json_nat (expired_keys st)),
           (''total_reads'', json_nat (total_reads st)), (''total_writes'', json_nat (total_writes st)),
           (''total_deletes'', json_nat (total_deletes st)), (''hits'', json_nat (hits st)),
           (''misses'', json_nat (misses st)), (''hit_rate'', json_f64 rate)]))"

definition get_memory_profile :: "'f f64_arith \<Rightarrow> ('f \<Rightarrow> json) \<Rightarrow> nat \<Rightarrow> kv_store \<Rightarrow> response" where
  "get_memory_profile F json_f64 capacity s =
     (let p = kv_memory_profile F capacity s in
      ok_json (JObj [(''total_bytes'', json_nat (total_bytes p)), (''key_bytes'', json_nat (key_bytes p)),
        (''value_bytes'', json_nat (value_bytes p)), (''string_values'', json_nat (string_values p)),
        (''int_values'', json_nat (int_values p)), (''float_values'', json_nat (float_values p)),
        (''bool_values'', json_nat (bool_values p)), (''json_values'', json_nat (json_values p)),
        (''hyperloglog_values'', json_nat (hyperloglog_values p)), (''list_values'', json_nat (list_values p)),
        (''ttl_entries'', json_nat (ttl_entries p)),
        (''heap_fragmentation_ratio'', json_f64 (heap_fragmentation_ratio p))]))"

definition metric_line :: "string \<Rightarrow> string \<Rightarrow> string" where
  "metric_line name v = name @ '' '' @ v @ [nl]"

definition metrics :: "'f f64_arith \<Rightarrow> nat \<Rightarrow> kv_store \<Rightarrow> response" where
  "metrics F capacity s =
     (let st = stats s;
          p = kv_memory_profile F capacity s;
          rate = (if total_reads st > 0
                  then f_div F (f_of_nat F (hits st)) (f_of_nat F (total_reads st)) else f_lit F ''0.0'')
      in ok_body (concat
           [metric_line ''kv_total_keys'' (show_nat (total_keys st)),
            metric_line ''kv_total_reads'' (show_nat (total_reads st)),
            metric_line ''kv_total_writes'' (show_nat (total_writes st)),
            metric_line ''kv_total_deletes'' (show_nat (total_deletes st)),
            metric_line ''kv_cache_hits'' (show_nat (hits st)),
            metric_line ''kv_cache_misses'' (show_nat (misses st)),
            metric_line ''kv_hit_rate'' (f_show F rate),
            metric_line ''kv_memory_bytes'' (show_nat (total_bytes p)),
            metric_line ''kv_evictions'' (show_nat (evictions st))]))"

subsection \<open>Reading sketches, lists and hashes\<close>

definition hll_pfcount :: "'f f64_arith \<Rightarrow> u64 \<Rightarrow> kv_store \<Rightarrow> string \<Rightarrow> response" where
  "hll_pfcount F now s key =
     respond_read (\<lambda>n. JObj [(''key'', JStr key), (''count'', json_u64 n)]) (kv_pfcount F now s key)"

definition hll_info :: "'f f64_arith \<Rightarrow> u64 \<Rightarrow> kv_store \<Rightarrow> string \<Rightarrow> response" where
  "hll_info F now s key =
     respond_read (\<lambda>i. JObj [(''key'', JStr key), (''precision'', json_nat (info_precision i)),
         (''registers'', json_nat (info_registers i)), (''memory_bytes'', json_nat (info_memory_bytes i)),
         (''estimated_count'', json_u64 (info_estimated_count i))])
       (kv_hll_info F now s key)"

definition list_lrange ::
  "('w, 'f) request_env \<Rightarrow> headers \<Rightarrow> kv_store \<Rightarrow> string \<Rightarrow> i64 option \<Rightarrow> i64 option \<Rightarrow> response option" where
  "list_lrange cx h s key start stop =
     (case require_api_key (api_key cx) h of
        Some e \<Rightarrow> Some e
      | None \<Rightarrow>
          map_option (respond_read (\<lambda>vs. JObj [(''key'', JStr key), (''values'', json_strings vs)]))
            (kv_lrange (clock_now cx) s key (case start of Some i \<Rightarrow> i | None \<Rightarrow> 0)
              (case stop of Some i \<Rightarrow> i | None \<Rightarrow> -1)))"

definition list_llen :: "('w, 'f) request_env \<Rightarrow> headers \<Rightarrow> kv_store \<Rightarrow> string \<Rightarrow> response" where
  "list_llen cx h s key = read_guarded cx h
     (respond_read (\<lambda>n. JObj [(''key'', JStr key), (''length'', json_nat n)]) (kv_llen (clock_now cx) s key))"

definition hash_hget :: "('w, 'f) request_env \<Rightarrow> headers \<Rightarrow> kv_store \<Rightarrow> string \<Rightarrow> string \<Rightarrow> response" where
  "hash_hget cx h s key field = read_guarded cx h
     (case kv_hget (clock_now cx) s key field of
        Inr (Some v) \<Rightarrow> ok_json (JStr v)
      | Inr None \<Rightarrow> not_found Empty
      | Inl e \<Rightarrow> bad_request (show_error e))"

definition hash_hmget :: "('w, 'f) request_env \<Rightarrow> headers \<Rightarrow> kv_store \<Rightarrow> string \<Rightarrow> string list \<Rightarrow> response" where
  "hash_hmget cx h s key fs = read_guarded cx h
     (respond_read (JArr \<circ> map json_opt) (kv_hmget (clock_now cx) s key fs))"

definition hash_hgetall :: "('w, 'f) request_env \<Rightarrow> headers \<Rightarrow> kv_store \<Rightarrow> string \<Rightarrow> response" where
  "hash_hgetall cx h s key = read_guarded cx h
     (respond_read (JObj \<circ> map (map_prod id JStr)) (kv_hgetall (clock_now cx) s key))"

definition hash_hkeys :: "('w, 'f) request_env \<Rightarrow> headers \<Rightarrow> kv_store \<Rightarrow> string \<Rightarrow> response" where
  "hash_hkeys cx h s key = read_guarded cx h (respond_read json_strings (kv_hkeys (clock_now cx) s key))"

definition hash_hvals :: "('w, 'f) request_env \<Rightarrow> headers \<Rightarrow> kv_store \<Rightarrow> string \<Rightarrow> response" where
  "hash_hvals cx h s key = read_guarded cx h
     (respond_read (\<lambda>vs. JObj [(''key'', JStr key), (''values'', json_strings vs)]) (kv_hvals (clock_now cx) s key))"

definition hash_hlen :: "('w, 'f) request_env \<Rightarrow> headers \<Rightarrow> kv_store \<Rightarrow> string \<Rightarrow> response" where
  "hash_hlen cx h s key = read_guarded cx h (respond_read json_nat (kv_hlen (clock_now cx) s key))"

definition hash_hexists :: "('w, 'f) request_env \<Rightarrow> headers \<Rightarrow> kv_store \<Rightarrow> string \<Rightarrow> string \<Rightarrow> response" where
  "hash_hexists cx h s key field = read_guarded cx h
     (respond_read (\<lambda>b. JObj [(''key'', JStr key), (''field'', JStr field), (''exists'', JBool b)])
       (kv_hexists (clock_now cx) s key field))"

subsection \<open>Keyspace notifications\<close>

definition keyspace_json :: "bool \<Rightarrow> response" where
  "keyspace_json b = ok_json (JObj [(''keyspace_notifications_enabled'', JBool b)])"

definition get_keyspace_config :: "('w, 'f) request_env \<Rightarrow> headers \<Rightarrow> kv_store \<Rightarrow> response" where
  "get_keyspace_config cx h s = read_guarded cx h (keyspace_json (keyspace_notifications_enabled (config s)))"

definition set_keyspace_config :: "('w, 'f) request_env \<Rightarrow> headers \<Rightarrow> bool \<Rightarrow> 'w server \<Rightarrow> response \<times> 'w server" where
  "set_keyspace_config cx h enable sv = guarded cx h sv (\<lambda>sv.
     (keyspace_json enable, sv\<lparr>sv_store := set_keyspace_notifications_enabled enable (sv_store sv)\<rparr>))"

subsection \<open>Pub/Sub\<close>

definition respond_pubsub :: "('a \<Rightarrow> json) \<Rightarrow> 'a result \<times> pub_sub \<Rightarrow> 'w server \<Rightarrow> response \<times> 'w server" where
  "respond_pubsub f r sv = (respond_read f (fst r), sv\<lparr>sv_pubsub := snd r\<rparr>)"

text \<open>\<open>fresh_id\<close> is the generated UUID.\<close>

definition pubsub_subscribe :: "('w, 'f) request_env \<Rightarrow> string \<Rightarrow> headers \<Rightarrow> string \<Rightarrow> 'w server \<Rightarrow> response \<times> 'w server" where
  "pubsub_subscribe cx fresh_id h channel sv = guarded cx h sv (\<lambda>sv.
     respond_pubsub (\<lambda>_. JObj [(''subscriber_id'', JStr fresh_id)]) (subscribe (sv_pubsub sv) channel fresh_id) sv)"

definition pubsub_unsubscribe :: "('w, 'f) request_env \<Rightarrow> headers \<Rightarrow> string \<Rightarrow> string \<Rightarrow> 'w server \<Rightarrow> response \<times> 'w server" where
  "pubsub_unsubscribe cx h channel sid sv = guarded cx h sv (\<lambda>sv.
     respond_pubsub (\<lambda>_. JObj [(''status'', JStr ''unsubscribed'')]) (unsubscribe (sv_pubsub sv) channel sid) sv)"

definition pubsub_publish :: "('w, 'f) request_env \<Rightarrow> headers \<Rightarrow> string \<Rightarrow> string \<Rightarrow> 'w server \<Rightarrow> response \<times> 'w server" where
  "pubsub_publish cx h channel text sv = guarded cx h sv (\<lambda>sv.
     respond_pubsub (\<lambda>n. JObj [(''channel'', JStr channel), (''subscribers_count'', json_nat n)])
       (publish (clock_now cx) (sv_pubsub sv) channel text) sv)"

text \<open>The only state-changing endpoint of the engine without a key check: whoever polls takes the messages.\<close>

definition message_json :: "message \<Rightarrow> json" where
  "message_json m = JObj [(''channel'', JStr (msg_channel m)), (''message'', JStr (msg_text m)),
     (''timestamp'', json_u64 (msg_timestamp m))]"

definition poll_limit :: "string option \<Rightarrow> nat" where
  "poll_limit q = (case Option.bind q parse_u64 of Some n \<Rightarrow> unat n | None \<Rightarrow> 10)"

definition pubsub_poll_messages :: "string \<Rightarrow> string option \<Rightarrow> 'w server \<Rightarrow> response \<times> 'w server" where
  "pubsub_poll_messages sid limit sv =
     respond_pubsub (\<lambda>ms. JObj [(''messages'', JArr (map message_json ms))])
       (poll_messages (sv_pubsub sv) sid (poll_limit limit)) sv"

definition pubsub_list_channels :: "pub_sub \<Rightarrow> response" where
  "pubsub_list_channels p =
     (case list_channels p of
        Inr cs \<Rightarrow> ok_json (JObj [(''channels'', json_strings cs)])
      | Inl e \<Rightarrow> internal_error (show_error e))"

definition pubsub_list_subscribers :: "pub_sub \<Rightarrow> string \<Rightarrow> response" where
  "pubsub_list_subscribers p channel =
     respond_read (\<lambda>ids. JObj [(''channel'', JStr channel), (''subscribers'', json_strings ids)])
       (list_subscribers p channel)"

subsection \<open>Snapshots\<close>

definition respond_or_500 :: "('a \<Rightarrow> json) \<Rightarrow> 'a result \<Rightarrow> response" where
  "respond_or_500 f r = (case r of Inr x \<Rightarrow> ok_json (f x) | Inl e \<Rightarrow> internal_error (show_error e))"

definition metadata_json :: "snapshot_metadata \<Rightarrow> json" where
  "metadata_json m = JObj [(''timestamp'', json_u64 (snap_timestamp m)), (''num_keys'', json_nat (num_keys m)),
     (''num_operations'', json_u64 (num_operations m)), (''snapshot_file'', JStr (snapshot_file m))]"

definition pitr_create_snapshot ::
  "('w, 'f) request_env \<Rightarrow> pitr_env \<Rightarrow> string option \<Rightarrow> nat \<Rightarrow> u64 \<Rightarrow> wal_entry list result \<Rightarrow> headers \<Rightarrow>
   kv_store \<Rightarrow> disk \<Rightarrow> response \<times> disk" where
  "pitr_create_snapshot cx P nonce mtime ts read_log h s d =
     (case require_api_key (api_key cx) h of
        Some e \<Rightarrow> (e, d)
      | None \<Rightarrow> map_prod (respond_or_500 metadata_json) id (create_snapshot P nonce mtime ts read_log s d))"

definition pitr_list_snapshots :: "pitr_env \<Rightarrow> disk \<Rightarrow> response" where
  "pitr_list_snapshots P d = respond_or_500 (JArr \<circ> map metadata_json) (list_snapshots P d)"

definition pitr_stats :: "pitr_env \<Rightarrow> wal_entry list result \<Rightarrow> u64 result \<Rightarrow> disk \<Rightarrow> response" where
  "pitr_stats P read_log size_read d =
     respond_or_500
       (\<lambda>st. JObj [(''total_snapshots'', json_nat (total_snapshots st)), (''total_wal_entries'', json_u64 (total_wal_entries st)),
          (''earliest_recovery_point'', json_option json_u64 (earliest_recovery_point st)),
          (''latest_recovery_point'', json_option json_u64 (latest_recovery_point st)),
          (''wal_file_size'', json_u64 (wal_file_size st))])
       (get_recovery_stats P read_log size_read d)"

definition pitr_cleanup_old_snapshots ::
  "('w, 'f) request_env \<Rightarrow> pitr_env \<Rightarrow> headers \<Rightarrow> u64 \<Rightarrow> disk \<Rightarrow> response \<times> disk" where
  "pitr_cleanup_old_snapshots cx P h max_age d =
     (case require_api_key (api_key cx) h of
        Some e \<Rightarrow> (e, d)
      | None \<Rightarrow>
          map_prod (respond_or_500 (\<lambda>n. JObj [(''status'', JStr ''OK''), (''deleted_snapshots'', json_nat n)])) id
            (cleanup_old_snapshots P (clock_now cx) max_age d))"

subsection \<open>Replication reports and the manual sync\<close>

fun show_replica_status :: "replica_status \<Rightarrow> string" where
  "show_replica_status Healthy = ''healthy''"
| "show_replica_status Lagging = ''lagging''"
| "show_replica_status Disconnected = ''disconnected''"

definition replica_info_json :: "replica_info \<Rightarrow> json" where
  "replica_info_json ri = JObj [(''replica_id'', JStr (replica_id ri)),
     (''last_applied_index'', json_u64 (reported_index ri)), (''last_heartbeat'', json_u64 (last_heartbeat ri)),
     (''lag'', json_u64 (lag ri)), (''status'', JStr (show_replica_status (replica_status ri)))]"

definition replication_list_replicas :: "u64 \<Rightarrow> master \<Rightarrow> response \<times> master" where
  "replication_list_replicas now m =
     (let (rs, m') = get_replicas_info now m in
      (ok_json (JObj [(''replicas'', JArr (map replica_info_json rs)), (''count'', json_nat (length rs))]), m'))"

definition replication_sync ::
  "'f runtime \<Rightarrow> 'w append_entry \<Rightarrow> sync_clock \<Rightarrow> (u64 \<Rightarrow> unit reply) \<Rightarrow> (u64 \<Rightarrow> (wal_entry list \<times> u64) reply) \<Rightarrow>
   'w replica \<Rightarrow> response \<times> 'w replica" where
  "replication_sync R lg T send_heartbeat fetch r =
     (let (res, r') = sync R lg T send_heartbeat fetch r in
      ((case res of
          Inr n \<Rightarrow> ok_json (JObj [(''status'', JStr ''OK''), (''applied_entries'', json_nat n),
                     (''message'', JStr (''Synced '' @ show_nat n @ '' entries from master''))])
        | Inl e \<Rightarrow> \<lparr>status = 500, body = Json (JObj [(''status'', JStr ''ERROR''), (''error'', JStr (show_error e))])\<rparr>),
       r'))"

definition replication_status :: "string \<Rightarrow> string \<Rightarrow> 'w replica \<Rightarrow> response" where
  "replication_status rid master_url r =
     (let st = get_status r in
      ok_json (JObj [(''replica_id'', JStr rid), (''master_url'', JStr master_url),
        (''last_applied_index'', json_u64 (st_last_applied st)), (''lag_entries'', json_u64 (st_lag_entries st)),
        (''last_successful_sync_unix_secs'', json_option json_u64 (st_last_sync st)),
        (''last_sync_duration_ms'', json_option json_u64 (st_duration st))]))"

subsection \<open>The server as a state machine\<close>

text \<open>
  Every request that can change the store, the log or the queues; a recovery to a snapshot is left
  out, since it installs a store that need not satisfy the invariant (see \<open>Pitr_Recovery\<close>).
\<close>

datatype 'f server_request =
    Write request
  | HashFloat string string 'f
  | Subscribe string string
  | Unsubscribe string string
  | PublishText string string
  | Poll string "string option"
  | SetKeyspace bool
  | RunLua string

record ('w, 'f) serve_env =
  env_of :: "('w, 'f) request_env"
  float_json :: "'f \<Rightarrow> json"
  interpreter :: "string \<Rightarrow> lua_script"
  lua_clock :: "nat \<Rightarrow> u64"
  lua_settings :: "(bool \<times> nat) option"

fun serve :: "('w, 'f) serve_env \<Rightarrow> headers \<Rightarrow> 'f server_request \<Rightarrow> 'w server \<Rightarrow> response \<times> 'w server" where
  "serve E h (Write req) = handle (env_of E) h req"
| "serve E h (HashFloat key field amount) = api_hash_hincrbyfloat (env_of E) (float_json E) h key field amount"
| "serve E h (Subscribe channel fresh_id) = pubsub_subscribe (env_of E) fresh_id h channel"
| "serve E h (Unsubscribe channel sid) = pubsub_unsubscribe (env_of E) h channel sid"
| "serve E h (PublishText channel text) = pubsub_publish (env_of E) h channel text"
| "serve E h (Poll sid limit) = pubsub_poll_messages sid limit"
| "serve E h (SetKeyspace enable) = set_keyspace_config (env_of E) h enable"
| "serve E h (RunLua script) = api_lua_exec (env_of E) (interpreter E) (lua_clock E) (lua_settings E) h script"

text \<open>A decoded field map has distinct names.\<close>

fun request_ok :: "'f server_request \<Rightarrow> bool" where
  "request_ok (Write (RHSet key fds)) = hm_wf fds"
| "request_ok _ = True"

inductive server_reachable :: "'f runtime \<Rightarrow> 'w server \<Rightarrow> bool" for R :: "'f runtime" where
  started: "kv_inv s \<Longrightarrow> server_reachable R \<lparr>sv_store = s, sv_wal = w, sv_pubsub = pubsub_new\<rparr>"
| served: "server_reachable R sv \<Longrightarrow> request_ok req \<Longrightarrow> rt (env_of E) = R \<Longrightarrow>
    server_reachable R (snd (serve E h req sv))"

definition server_inv :: "'w server \<Rightarrow> bool" where
  "server_inv sv \<longleftrightarrow> kv_inv (sv_store sv) \<and> pubsub_inv (sv_pubsub sv)"

lemma guarded_inv: "server_inv sv \<Longrightarrow> (server_inv sv \<Longrightarrow> server_inv (snd (k sv))) \<Longrightarrow> server_inv (snd (guarded cx h sv k))"
  by (simp add: guarded_def split: option.splits)

lemma logged_first_inv:
  "server_inv sv \<Longrightarrow> (\<And>w. server_inv (sv\<lparr>sv_wal := w\<rparr>) \<Longrightarrow> server_inv (snd (k (sv\<lparr>sv_wal := w\<rparr>)))) \<Longrightarrow>
   server_inv (snd (logged_first cx prefix op sv k))"
  by (auto simp: logged_first_def server_inv_def split: prod.splits sum.splits)

lemma respond_inv: "server_inv sv \<Longrightarrow> kv_inv (snd r) \<Longrightarrow> server_inv (snd (respond f r sv))"
  "server_inv sv \<Longrightarrow> kv_inv (snd r) \<Longrightarrow> server_inv (snd (respond_json g r sv))"
  by (simp_all add: respond_def respond_json_def server_inv_def)

lemma publish_event_inv: "pubsub_inv p \<Longrightarrow> pubsub_inv (publish_event ev now p)"
  by (simp add: publish_event_def Let_def publish_inv)

lemma fold_publish_event_inv: "pubsub_inv p \<Longrightarrow> pubsub_inv (fold (\<lambda>ev. publish_event ev now) evs p)"
  by (induction evs arbitrary: p) (simp_all add: publish_event_inv)

lemma publishing_inv: "server_inv (snd r) \<Longrightarrow> server_inv (snd (publishing now r))"
  using drain_inv[of "sv_store (snd r)"]
  by (simp add: publishing_def publish_keyspace_events_def server_inv_def drain_keyspace_events_def fold_publish_event_inv)

lemma store_update_inv: "server_inv sv \<Longrightarrow> kv_inv s \<Longrightarrow> server_inv (sv\<lparr>sv_store := s\<rparr>)"
  by (simp add: server_inv_def)

lemma pubsub_update_inv: "server_inv sv \<Longrightarrow> pubsub_inv (snd r) \<Longrightarrow> server_inv (snd (respond_pubsub f r sv))"
  by (simp add: server_inv_def respond_pubsub_def)

lemma server_invD: "server_inv sv \<Longrightarrow> kv_inv (sv_store sv)" "server_inv sv \<Longrightarrow> pubsub_inv (sv_pubsub sv)"
  by (simp_all add: server_inv_def)

lemma server_inv_sets:
  "server_inv (sv\<lparr>sv_wal := w, sv_store := s\<rparr>) \<longleftrightarrow> kv_inv s \<and> pubsub_inv (sv_pubsub sv)"
  "server_inv (sv\<lparr>sv_store := s, sv_wal := w\<rparr>) \<longleftrightarrow> kv_inv s \<and> pubsub_inv (sv_pubsub sv)"
  by (simp_all add: server_inv_def)

lemmas serving_intros = guarded_inv logged_first_inv respond_inv publishing_inv store_update_inv pubsub_update_inv

lemma pipeline_run_inv: "kv_inv s \<Longrightarrow> kv_inv (snd (pipeline_run R now s cmd))"
  by (cases cmd) (auto simp: p_result_def operation_invs split_beta Let_def split: option.splits)

lemma pipeline_execute_inv: "kv_inv s \<Longrightarrow> kv_inv (snd (pipeline_execute R now s cmds))"
proof (induction R now s cmds rule: pipeline_execute.induct)
  case (2 R now s cmd err rest)
  obtain r s1 where h: "(case err of Some e \<Rightarrow> (p_err (''WAL error: '' @ e), s) | None \<Rightarrow> pipeline_run R now s cmd) = (r, s1)"
    by (metis surj_pair)
  have "kv_inv s1"
    using h 2(2) pipeline_run_inv[OF 2(2), of R now cmd] by (cases err) auto
  with 2(1)[OF h[symmetric] refl] h show ?case by (simp add: split_beta)
qed simp

lemma pipeline_inv: "server_inv sv \<Longrightarrow> server_inv (snd (api_pipeline_exec cx h cmds sv))"
  unfolding api_pipeline_exec_def
  by (intro guarded_inv) (auto intro!: publishing_inv pipeline_execute_inv simp: split_beta Let_def server_inv_sets intro: server_invD)

lemma lua_exec_inv: "server_inv sv \<Longrightarrow> server_inv (snd (api_lua_exec cx interp clock settings h script sv))"
  unfolding api_lua_exec_def
  by (intro guarded_inv)
     (auto simp: split_beta Let_def server_inv_sets server_invD execute_script_inv split: option.splits)

lemma handle_inv:
  assumes "server_inv sv" "request_ok (Write req)"
  shows "server_inv (snd (handle cx h req sv))"
proof (cases "\<exists>cmds. req = RPipeline cmds")
  case True
  with assms(1) show ?thesis by (auto simp: pipeline_inv)
next
  case False
  with assms show ?thesis
    by (cases req)
       (auto intro!: serving_intros simp: handler_defs operation_invs server_invD split_beta Let_def split: option.splits)
qed

lemma serve_inv: "server_inv sv \<Longrightarrow> request_ok req \<Longrightarrow> server_inv (snd (serve E h req sv))"
proof (cases req)
  case (Write r)
  then show "server_inv sv \<Longrightarrow> request_ok req \<Longrightarrow> ?thesis" by (simp add: handle_inv)
next
  case (HashFloat key field amount)
  then show "server_inv sv \<Longrightarrow> request_ok req \<Longrightarrow> ?thesis"
    by (auto intro!: guarded_inv logged_first_inv
        simp: api_hash_hincrbyfloat_def operation_invs server_invD server_inv_sets store_update_inv split_beta Let_def split: sum.splits)
qed (auto intro!: guarded_inv pubsub_update_inv lua_exec_inv store_update_inv
    simp: pubsub_subscribe_def pubsub_unsubscribe_def pubsub_publish_def pubsub_poll_messages_def set_keyspace_config_def
      subscribe_inv unsubscribe_inv publish_inv poll_messages_inv config_steps_inv server_invD)

lemma server_reachable_inv: "server_reachable R sv \<Longrightarrow> server_inv sv"
  by (induction rule: server_reachable.induct) (auto intro!: serve_inv, simp add: server_inv_def pubsub_inv_new)

subsection \<open>What the reading endpoints have in common\<close>

lemma kv_iter_map:
  assumes "distinct (map fst (store s))"
  shows "map_of (kv_iter now s) = kv_get now s"
proof
  fix k :: string
  have "map_of (List.map_filter (\<lambda>(k, e). map_option (\<lambda>v. (k, v)) (live_value now e)) m) k
      = Option.bind (map_of m k) (live_value now)" if "distinct (map fst m)" for m
    using that
  proof (induction m)
    case (Cons ke m)
    obtain j e where "ke = (j, e)" by (cases ke)
    moreover from Cons.prems calculation have "j = k \<Longrightarrow> map_of m k = None" by (simp add: map_of_eq_None_iff)
    ultimately show ?case
      using Cons by (cases "live_value now e") (auto simp: map_filter_simps)
  qed (simp add: map_filter_simps)
  with assms show "map_of (kv_iter now s) k = kv_get now s k" by (simp add: kv_iter_def kv_get_def)
qed

lemma globs_any: "globs [star] tcs"
  unfolding globs_star by (intro exI[of _ "length tcs"]) simp

lemma matches_star: "matches_glob k ''*''"
proof -
  have c: "chars ''*'' = [star]" by (simp add: is_continuation_def star_def)
  show ?thesis unfolding matches_glob_globs c by (rule globs_any)
qed

lemma kv_keys_iter:
  assumes "distinct (map fst (store s))"
  shows "kv_keys now s ''*'' = map fst (kv_iter now s)"
proof -
  have "filter (\<lambda>k. kv_get now s k \<noteq> None) (map fst m) =
      map fst (List.map_filter (\<lambda>(k, e). map_option (\<lambda>v. (k, v)) (live_value now e)) m)"
    if "\<forall>(k, e) \<in> set m. kv_get now s k = live_value now e" for m
    using that by (induction m) (auto simp: map_filter_simps split: option.splits)
  moreover have "\<forall>(k, e) \<in> set (store s). kv_get now s k = live_value now e"
    using assms by (auto simp: kv_get_def)
  moreover have "kv_keys now s ''*'' = filter (\<lambda>k. kv_get now s k \<noteq> None) (hm_keys (store s))"
    unfolding kv_keys_def
    by (intro filter_cong refl) (auto simp: matches_star kv_get_def live_value_def intro: weak_map_of_SomeI split: option.splits)
  ultimately show ?thesis by (simp add: kv_iter_def)
qed

lemma ttl_missing: "ttl_seconds now s key = -2 \<longleftrightarrow> kv_get now s key = None"
proof -
  have "min d (word_of_int i64_MAX) \<noteq> (-2 :: u64)" for d :: u64
  proof -
    have "min d (word_of_int i64_MAX) \<le> (word_of_int i64_MAX :: u64)" by simp
    moreover have "(word_of_int i64_MAX :: u64) < -2" by (simp add: i64_MAX_def word_less_def)
    ultimately show ?thesis by (metis leD)
  qed
  then show ?thesis by (auto simp: ttl_seconds_def kv_get_def live_value_def split: option.splits if_splits)
qed

subsection \<open>Properties\<close>




definition plain_env :: "'f runtime \<Rightarrow> (ideal_log, 'f) serve_env" where
  "plain_env R = \<lparr>env_of = env_at None R 5, float_json = (\<lambda>_. JNull), interpreter = (\<lambda>_. Finish []),
     lua_clock = (\<lambda>_. 5), lua_settings = None\<rparr>"


text \<open>Polling takes messages without the key. A request without the configured key gets 401 from
  subscribe, unsubscribe, publish and the configuration and changes nothing; but a poll is
  answered to anyone who names the subscriber: it returns the oldest messages, removes them, and
  the subscriber's own next poll sees only the rest.\<close>

theorem poll_needs_no_key:
  assumes "require_api_key (api_key cx) h \<noteq> None" "hm_get (subscribers (sv_pubsub sv)) i = Some q"
  shows "snd (pubsub_subscribe cx j h c sv) = sv \<and> status (fst (pubsub_subscribe cx j h c sv)) = 401
    \<and> snd (pubsub_unsubscribe cx h c j sv) = sv \<and> status (fst (pubsub_unsubscribe cx h c j sv)) = 401
    \<and> snd (pubsub_publish cx h c t sv) = sv \<and> status (fst (pubsub_publish cx h c t sv)) = 401
    \<and> snd (set_keyspace_config cx h b sv) = sv \<and> status (fst (set_keyspace_config cx h b sv)) = 401
    \<and> fst (pubsub_poll_messages i (Some (show_u64 n)) sv) =
        ok_json (JObj [(''messages'', JArr (map message_json (take (unat n) q)))])
    \<and> fst (pubsub_poll_messages i lim (snd (pubsub_poll_messages i (Some (show_u64 n)) sv))) =
        ok_json (JObj [(''messages'', JArr (map message_json (take (poll_limit lim) (drop (unat n) q))))])"
proof -
  obtain r where r: "require_api_key (api_key cx) h = Some r" using assms(1) by blast
  then have "status r = 401" by (auto simp: require_api_key_def Let_def split: option.splits if_splits)
  moreover have "poll_limit (Some (show_u64 n)) = unat n" by (simp add: poll_limit_def)
  moreover have "poll_messages (sv_pubsub sv) i m =
      (Inr (take m q), (sv_pubsub sv)\<lparr>subscribers := hm_insert i (drop m q) (subscribers (sv_pubsub sv))\<rparr>)" for m
    using assms(2) by (simp add: poll_messages_def pop_messages_eq)
  ultimately show ?thesis
    by (simp add: pubsub_subscribe_def pubsub_unsubscribe_def pubsub_publish_def set_keyspace_config_def guarded_def r
        pubsub_poll_messages_def respond_pubsub_def respond_read_def poll_messages_def pop_messages_eq)
qed

text \<open>C36: Keyspace notifications. With notifications on, an accepted PUT tells every subscriber of
  \<open>__keyevent__:set\<close> the key and then every subscriber of \<open>__keyspace__:k\<close> the event, in that order and
  once per subscription. An APPEND that creates the key records the same event but tells nobody:
  it stays pending until some other request publishes.\<close>

theorem keyspace_events_reach_subscribers:
  fixes sv :: "ideal_log server" and now :: u64 and R :: "'f runtime"
  assumes "require_api_key key h = None" "keyspace_notifications_enabled (config (sv_store sv))"
    "pending_keyspace_events (sv_store sv) = []" "accepts (sv_store sv) k (VStr v)" "fits (sv_store sv) (VStr v)"
    "hm_get (subscribers (sv_pubsub sv)) i = Some q"
  defines "p \<equiv> sv_pubsub sv" and "put \<equiv> snd (handle (env_at key R now) h (RSet k v None) sv)"
    and "app \<equiv> snd (handle (env_at key R now) h (RAppend k v) sv)"
    and "by_event \<equiv> message_new now ''__keyevent__:set'' k" and "by_key \<equiv> message_new now (''__keyspace__:'' @ k) ''set''"
  shows "pending_keyspace_events (sv_store put) = []
    \<and> hm_get (subscribers (sv_pubsub put)) i =
        Some ((enqueue (max_messages p) by_key ^^ count_list (ids_of p (''__keyspace__:'' @ k)) i)
             ((enqueue (max_messages p) by_event ^^ count_list (ids_of p ''__keyevent__:set'') i) q))
    \<and> (hm_get (store (sv_store sv)) k = None \<longrightarrow>
        sv_pubsub app = p
        \<and> pending_keyspace_events (sv_store app) = [\<lparr>event_kind = EvSet, event_key = k, event_timestamp = now\<rparr>])"
proof -
  let ?s = "sv_store sv" and ?ev = "\<lparr>event_kind = EvSet, event_key = k, event_timestamp = now\<rparr>"
  have ev: "pending_keyspace_events (store_entry now k (VStr v) None ?s) = [?ev]"
    using assms(2,3,5)
    by (auto simp: store_entry_def Let_def fits_def enforce_memory_limit_def evict_loop_under emit_keyspace_event_def update_lru_def)
  note run = env_at_def guarded_def logged_first_def ideal_append_def respond_def assms(1)
  have put: "put = publish_keyspace_events now
      (sv\<lparr>sv_wal := sv_wal sv @ [(now, wal_entry_new now (WalSet k (json_of_value R (VStr v)) None))],
          sv_store := store_entry now k (VStr v) None ?s\<rparr>)"
    by (simp add: put_def api_set_value_def publishing_def run kv_set_accepts[OF assms(4)])
  have p: "pending_keyspace_events (sv_store put) = []" "sv_pubsub put = publish_event ?ev now p"
    unfolding put by (simp_all add: publish_keyspace_events_def drain_keyspace_events_def ev p_def)
  moreover have "hm_get (subscribers (publish_event ?ev now p)) i =
        Some ((enqueue (max_messages p) by_key ^^ count_list (ids_of p (''__keyspace__:'' @ k)) i)
             ((enqueue (max_messages p) by_event ^^ count_list (ids_of p ''__keyevent__:set'') i) q))"
  proof -
    let ?p1 = "snd (publish now p ''__keyevent__:set'' k)"
    have "hm_get (subscribers ?p1) i =
        Some ((enqueue (max_messages p) by_event ^^ count_list (ids_of p ''__keyevent__:set'') i) q)"
      using assms(6) by (simp add: publish_queue p_def by_event_def)
    from publish_queue[OF _ this] show ?thesis by (simp add: publish_event_def Let_def by_key_def)
  qed
  moreover have "sv_pubsub app = p \<and> pending_keyspace_events (sv_store app) = [?ev]"
    if "hm_get (store ?s) k = None"
    using that ev
    by (simp add: app_def api_append_value_def run kv_append_def kv_set_accepts[OF assms(4)] p_def)
  ultimately show ?thesis by simp
qed

text \<open>A server with one subscriber \<open>i\<close> of the key \<open>k\<close>'s channel, and a message waiting for it.\<close>

definition watched :: "ideal_log server" where
  "watched = \<lparr>sv_store = set_keyspace_notifications_enabled True open_store, sv_wal = [],
     sv_pubsub = \<lparr>channels = [(''__keyspace__:k'', [''i''])],
       subscribers = [(''i'', [message_new 1 ''c'' ''t'', message_new 2 ''c'' ''u''])], max_messages = 1000\<rparr>\<rparr>"

theorem poll_needs_no_key_witness:
  "\<forall>R. fst (pubsub_poll_messages ''i'' None (snd (pubsub_poll_messages ''i'' (Some (show_u64 1)) watched))) =
      ok_json (JObj [(''messages'', JArr [message_json (message_new 2 ''c'' ''u'')])])
    \<and> snd (pubsub_publish (env_at (Some ''secret'') R 5) no_headers ''c'' ''t'' watched) = watched"
proof -
  have "fst (pubsub_poll_messages ''i'' None (snd (pubsub_poll_messages ''i'' (Some (show_u64 1)) watched))) =
      ok_json (JObj [(''messages'', JArr [message_json (message_new 2 ''c'' ''u'')])])
    \<and> snd (pubsub_publish (env_at (Some ''secret'') R 5) no_headers ''c'' ''t'' watched) = watched" for R :: "'f runtime"
  proof -
    have "require_api_key (api_key (env_at (Some ''secret'') R 5)) no_headers \<noteq> None"
      by (simp add: env_at_def require_api_key_def no_headers_def)
    moreover have "hm_get (subscribers (sv_pubsub watched)) ''i'' = Some [message_new 1 ''c'' ''t'', message_new 2 ''c'' ''u'']"
      by (simp add: watched_def)
    ultimately show ?thesis
      using poll_needs_no_key[of "env_at (Some ''secret'') R 5" no_headers watched "''i''" _ "''j''" "''c''" "''t''" False 1 None]
      by (simp add: poll_limit_def)
  qed
  then show ?thesis by blast
qed

theorem keyspace_events_reach_subscribers_witness:
  "\<forall>R. hm_get (subscribers (sv_pubsub (snd (handle (env_at None R 5) no_headers (RSet ''k'' ''v'' None) watched)))) ''i''
      = Some [message_new 1 ''c'' ''t'', message_new 2 ''c'' ''u'', message_new 5 ''__keyspace__:k'' ''set'']
    \<and> sv_pubsub (snd (handle (env_at None R 5) no_headers (RAppend ''k'' ''v'') watched)) = sv_pubsub watched"
proof -
  have "hm_get (subscribers (sv_pubsub (snd (handle (env_at None R 5) no_headers (RSet ''k'' ''v'' None) watched)))) ''i''
      = Some [message_new 1 ''c'' ''t'', message_new 2 ''c'' ''u'', message_new 5 ''__keyspace__:k'' ''set'']
    \<and> sv_pubsub (snd (handle (env_at None R 5) no_headers (RAppend ''k'' ''v'') watched)) = sv_pubsub watched" for R :: "'f runtime"
  proof -
    have w: "require_api_key None no_headers = None" "keyspace_notifications_enabled (config (sv_store watched))"
      "pending_keyspace_events (sv_store watched) = []" "accepts (sv_store watched) ''k'' (VStr ''v'')"
      "fits (sv_store watched) (VStr ''v'')"
      "hm_get (subscribers (sv_pubsub watched)) ''i'' = Some [message_new 1 ''c'' ''t'', message_new 2 ''c'' ''u'']"
      "hm_get (store (sv_store watched)) ''k'' = None"
      by (simp_all add: config_default_defs watched_def require_api_key_def set_keyspace_notifications_enabled_def open_store_def with_config_def
          fits_def default_config_def accepts_def validate_key_def validate_value_def in_transaction_def)
    have "max_messages (sv_pubsub watched) = 1000"
      "count_list (ids_of (sv_pubsub watched) (''__keyspace__:'' @ ''k'')) ''i'' = 1"
      "count_list (ids_of (sv_pubsub watched) ''__keyevent__:set'') ''i'' = 0"
      by (simp_all add: watched_def ids_of_def)
    with keyspace_events_reach_subscribers[OF w(1-6), of R 5] w(7) show ?thesis by (simp add: enqueue_def)
  qed
  then show ?thesis by blast
qed

end
