(* ===== verification/Cli_Main.thy ===== *)
theory Cli_Main
  imports Lua_Scripts
begin

section \<open>The command line (cli.rs, main.rs)\<close>

text \<open>
  One run of the program: load the store's file if it exists, execute one command, print, and save
  with three backups unless the command only reads. A run is a function on the disk; what it prints
  is a list of lines with their stream. Argument parsing (clap), the debug form of a path, the texts
  of file errors, the benchmark process and the reading of a pipeline file are fields of \<open>cli_env\<close>.
  \<open>cli_clock n\<close> is the clock at the \<open>n\<close>-th step of a command of several steps.
\<close>

datatype pipe_cmd =
    PipeGet string
  | PipeSet string string
  | PipeDelete string
  | PipeIncr string
  | PipeDecr string
  | PipeIncrBy string i64
  | PipeAppend string string
  | PipeGetSet string string
  | PipeExists string
  | PipeLPush string "string list"
  | PipeRPush string "string list"
  | PipeLPop string
  | PipeRPop string
  | PipeLRange string "i64 option" "i64 option"
  | PipeLLen string

datatype store_command =
    CSet string string
  | CSetTTL string string u64
  | CGet string
  | CDelete string
  | CList
  | CIncr string
  | CDecr string
  | CIncrBy string i64
  | CAppend string string
  | CGetSet string string
  | CMGet "string list"
  | CMSet "string list"
  | CExists "string list"
  | CKeys string
  | CStats
  | CCleanup
  | CMulti
  | CExec
  | CDiscard
  | CPfAdd string "string list"
  | CPfCount string
  | CPfMerge string "string list"
  | CLua string
  | CBenchmark
  | CLPush string "string list"
  | CRPush string "string list"
  | CLPop string
  | CRPop string
  | CLRange string i64 i64
  | CLLen string
  | CPipeline string

text \<open>\<open>Commands\<close>: the two that work on the file itself are kept apart from those on the store.\<close>

datatype cli_command = CSave nat | CLoad | COnStore store_command

datatype out_line = OutLine string | ErrLine string

datatype pipe_file = Unreadable string | Unparsable string | Parsed "pipe_cmd list"

datatype bench_outcome = BenchOk | BenchFailed string | BenchNotStarted string

record 'f cli_env =
  cli_rt :: "'f runtime"
  cli_codec :: codec
  cli_io :: io
  cli_clock :: "nat \<Rightarrow> u64"
  cli_mtime :: nat
  cli_epoch :: u64
  show_percent :: "'f \<Rightarrow> string"
  debug_path :: "string \<Rightarrow> string"
  load_failure :: string
  save_failure :: string
  cli_interpreter :: "string \<Rightarrow> lua_script"
  bench :: bench_outcome
  pipeline_file :: "string \<Rightarrow> pipe_file"

subsection \<open>Printing results\<close>

definition report :: "('a \<Rightarrow> string) \<Rightarrow> 'a result \<Rightarrow> out_line list" where
  "report f r = [case r of Inr x \<Rightarrow> OutLine (f x) | Inl e \<Rightarrow> ErrLine (''Error: '' @ show_error e)]"

definition key_is :: "string \<Rightarrow> string \<Rightarrow> string" where "key_is key t = key @ '' = '' @ t"
definition key_shows :: "string \<Rightarrow> string \<Rightarrow> string" where "key_shows key t = key @ '': '' @ t"

definition unique_values :: "string \<Rightarrow> u64 \<Rightarrow> string" where
  "unique_values key n = key @ '' '' @ approx_sign @ '' '' @ show_u64 n @ '' unique values''"

definition numbered :: "string \<Rightarrow> string \<Rightarrow> string list \<Rightarrow> out_line list" where
  "numbered indent sep xs =
     map (\<lambda>(i, v). OutLine (indent @ show_nat (i + 1) @ sep @ v)) (zip [0..<length xs] xs)"

fun pairs_of :: "string list \<Rightarrow> (string \<times> string) list" where
  "pairs_of (k # v # rest) = (k, v) # pairs_of rest"
| "pairs_of _ = []"

definition stats_lines :: "'f f64_arith \<Rightarrow> ('f \<Rightarrow> string) \<Rightarrow> store_stats \<Rightarrow> out_line list" where
  "stats_lines F percent st =
     map OutLine
       ([''=== Store Statistics ==='', ''Total keys: '' @ show_nat (total_keys st),
         ''Expired keys cleaned: '' @ show_nat (expired_keys st), ''Total reads: '' @ show_nat (total_reads st),
         ''Total writes: '' @ show_nat (total_writes st), ''Total deletes: '' @ show_nat (total_deletes st),
         ''Cache hits: '' @ show_nat (hits st), ''Cache misses: '' @ show_nat (misses st)]
        @ (if total_reads st > 0
           then [''Hit rate: '' @ percent (f_mul F (f_div F (f_of_nat F (hits st)) (f_of_nat F (total_reads st)))
                   (f_lit F ''100.0'')) @ ''%'']
           else []))"

subsection \<open>Pipelines from a file\<close>

definition pipe_line :: "nat \<Rightarrow> string \<Rightarrow> string" where
  "pipe_line idx t = ''  '' @ show_nat idx @ '') '' @ t"

definition pipe_report :: "nat \<Rightarrow> string \<Rightarrow> ('a \<Rightarrow> string) \<Rightarrow> 'a result \<Rightarrow> out_line list" where
  "pipe_report idx cmd f r =
     [case r of Inr x \<Rightarrow> OutLine (pipe_line idx (cmd @ f x)) | Inl e \<Rightarrow> ErrLine (pipe_line idx (cmd @ '' Error: '' @ show_error e))]"

definition or_nil :: "string option \<Rightarrow> string" where
  "or_nil v = (case v of Some t \<Rightarrow> t | None \<Rightarrow> ''(nil)'')"

fun pipe_step :: "'f runtime \<Rightarrow> u64 \<Rightarrow> nat \<Rightarrow> kv_store \<Rightarrow> pipe_cmd \<Rightarrow> out_line list \<times> kv_store" where
  "pipe_step R now idx s (PipeGet key) =
     ([OutLine (pipe_line idx (''GET '' @ key_is key (or_nil (map_option (display R) (kv_get now s key)))))], s)"
| "pipe_step R now idx s (PipeSet key v) =
     map_prod (pipe_report idx (''SET '' @ key) (\<lambda>_. '' OK'')) id (kv_set now s key (VStr v))"
| "pipe_step R now idx s (PipeDelete key) =
     map_prod (\<lambda>r. [OutLine (pipe_line idx (''DELETE '' @ key @ (if r \<noteq> None then '' OK'' else '' (not found)'')))]) id
       (kv_delete now s key)"
| "pipe_step R now idx s (PipeIncr key) =
     map_prod (pipe_report idx (''INCR '' @ key) (\<lambda>v. '' = '' @ show_i64 v)) id (kv_incr s key)"
| "pipe_step R now idx s (PipeDecr key) =
     map_prod (pipe_report idx (''DECR '' @ key) (\<lambda>v. '' = '' @ show_i64 v)) id (kv_decr s key)"
| "pipe_step R now idx s (PipeIncrBy key amount) =
     map_prod (pipe_report idx (''INCRBY '' @ key) (\<lambda>v. '' '' @ show_i64 amount @ '' = '' @ show_i64 v)) id (kv_incrby s key amount)"
| "pipe_step R now idx s (PipeAppend key v) =
     map_prod (pipe_report idx (''APPEND '' @ key) (\<lambda>n. '' len='' @ show_nat n)) id (kv_append now s key v)"
| "pipe_step R now idx s (PipeGetSet key v) =
     map_prod (pipe_report idx (''GETSET '' @ key) (\<lambda>old. '' old='' @ or_nil (map_option (display R) old))) id
       (kv_getset now s key (VStr v))"
| "pipe_step R now idx s (PipeExists key) =
     ([OutLine (pipe_line idx (''EXISTS '' @ key_is key (if kv_exists now s key then ''true'' else ''false'')))], s)"
| "pipe_step R now idx s (PipeLPush key vs) =
     map_prod (pipe_report idx (''LPUSH '' @ key) (\<lambda>n. '' len='' @ show_nat n)) id (kv_lpush s key vs)"
| "pipe_step R now idx s (PipeRPush key vs) =
     map_prod (pipe_report idx (''RPUSH '' @ key) (\<lambda>n. '' len='' @ show_nat n)) id (kv_rpush s key vs)"
| "pipe_step R now idx s (PipeLPop key) =
     map_prod (pipe_report idx (''LPOP '' @ key) (\<lambda>v. '' = '' @ or_nil v)) id (kv_lpop s key)"
| "pipe_step R now idx s (PipeRPop key) =
     map_prod (pipe_report idx (''RPOP '' @ key) (\<lambda>v. '' = '' @ or_nil v)) id (kv_rpop s key)"
| "pipe_step R now idx s (PipeLRange key start stop) =
     ((case kv_lrange now s key (case start of Some i \<Rightarrow> i | None \<Rightarrow> 0) (case stop of Some i \<Rightarrow> i | None \<Rightarrow> -1) of
         Some (Inr vals) \<Rightarrow> OutLine (pipe_line idx (''LRANGE '' @ key @ '':'')) # numbered ''       '' '') '' vals
       | Some (Inl e) \<Rightarrow> [ErrLine (pipe_line idx (''LRANGE '' @ key @ '' Error: '' @ show_error e))]
       | None \<Rightarrow> []), s)"
| "pipe_step R now idx s (PipeLLen key) =
     (pipe_report idx (''LLEN '' @ key) (\<lambda>n. '' = '' @ show_nat n) (kv_llen now s key), s)"

fun pipe_run :: "'f runtime \<Rightarrow> (nat \<Rightarrow> u64) \<Rightarrow> nat \<Rightarrow> kv_store \<Rightarrow> pipe_cmd list \<Rightarrow> out_line list \<times> kv_store" where
  "pipe_run R clock i s [] = ([], s)"
| "pipe_run R clock i s (cmd # cmds) =
     (let (ls, s1) = pipe_step R (clock i) (i + 1) s cmd; (rest, s2) = pipe_run R clock (i + 1) s1 cmds
      in (ls @ rest, s2))"

subsection \<open>One command\<close>

text \<open>The lines printed, the store afterwards, and \<open>should_save\<close> (\<open>return\<close> also skips the save).\<close>

definition saved :: "out_line list \<times> kv_store \<Rightarrow> out_line list \<times> kv_store \<times> bool" where
  "saved r = (fst r, snd r, True)"

definition only_read :: "out_line list \<Rightarrow> kv_store \<Rightarrow> out_line list \<times> kv_store \<times> bool" where
  "only_read ls s = (ls, s, False)"

definition cli_pfadd :: "'f cli_env \<Rightarrow> string \<Rightarrow> string list \<Rightarrow> kv_store \<Rightarrow> out_line list \<times> kv_store \<times> bool" where
  "cli_pfadd E key vs s =
     saved (map_prod (report (unique_values key)) id (kv_pfadd (arith (cli_rt E)) (hash_fn (cli_rt E)) s key vs))"

definition cli_pfcount :: "'f cli_env \<Rightarrow> string \<Rightarrow> kv_store \<Rightarrow> out_line list \<times> kv_store \<times> bool" where
  "cli_pfcount E key s =
     only_read (report (unique_values key) (kv_pfcount (arith (cli_rt E)) (cli_clock E 0) s key)) s"

definition cli_pfmerge :: "'f cli_env \<Rightarrow> string \<Rightarrow> string list \<Rightarrow> kv_store \<Rightarrow> out_line list \<times> kv_store \<times> bool" where
  "cli_pfmerge E dest srcs s =
     saved (map_prod (report (\<lambda>n. unique_values dest n @ '' after merge'')) id (kv_pfmerge (arith (cli_rt E)) s dest srcs))"

definition cli_lua :: "'f cli_env \<Rightarrow> string \<Rightarrow> kv_store \<Rightarrow> out_line list \<times> kv_store \<times> bool" where
  "cli_lua E script s =
     (let (r, s', _) = execute_script (cli_rt E) (cli_interpreter E) None (cli_clock E) script s ()
      in saved (report (\<lambda>out. if out = [] then ''Lua script executed (no output)'' else out) r, s'))"

definition cli_benchmark :: "'f cli_env \<Rightarrow> kv_store \<Rightarrow> out_line list \<times> kv_store \<times> bool" where
  "cli_benchmark E s =
     only_read (OutLine ''Running performance benchmarks...'' #
       [case bench E of
          BenchOk \<Rightarrow> OutLine ''Benchmark completed successfully''
        | BenchFailed code \<Rightarrow> ErrLine (''Benchmark failed with exit code: '' @ code)
        | BenchNotStarted e \<Rightarrow> ErrLine (''Failed to execute benchmark: '' @ e)]) s"

definition cli_lpush :: "string \<Rightarrow> string list \<Rightarrow> kv_store \<Rightarrow> out_line list \<times> kv_store \<times> bool" where
  "cli_lpush key vs s =
     saved (map_prod (report (\<lambda>n. ''LPUSH '' @ quoted key @ '', new length: '' @ show_nat n)) id (kv_lpush s key vs))"

definition cli_rpush :: "string \<Rightarrow> string list \<Rightarrow> kv_store \<Rightarrow> out_line list \<times> kv_store \<times> bool" where
  "cli_rpush key vs s =
     saved (map_prod (report (\<lambda>n. ''RPUSH '' @ quoted key @ '', new length: '' @ show_nat n)) id (kv_rpush s key vs))"

definition cli_lpop :: "string \<Rightarrow> kv_store \<Rightarrow> out_line list \<times> kv_store \<times> bool" where
  "cli_lpop key s =
     saved (map_prod (report or_nil) id (kv_lpop s key))"

definition cli_rpop :: "string \<Rightarrow> kv_store \<Rightarrow> out_line list \<times> kv_store \<times> bool" where
  "cli_rpop key s =
     saved (map_prod (report or_nil) id (kv_rpop s key))"

definition cli_lrange :: "'f cli_env \<Rightarrow> string \<Rightarrow> i64 \<Rightarrow> i64 \<Rightarrow> kv_store \<Rightarrow> out_line list \<times> kv_store \<times> bool" where
  "cli_lrange E key start stop s =
     only_read (case kv_lrange (cli_clock E 0) s key start stop of
         Some (Inr values) \<Rightarrow> numbered [] '') '' values
       | Some (Inl e) \<Rightarrow> [ErrLine (''Error: '' @ show_error e)]
       | None \<Rightarrow> []) s"

definition cli_llen :: "'f cli_env \<Rightarrow> string \<Rightarrow> kv_store \<Rightarrow> out_line list \<times> kv_store \<times> bool" where
  "cli_llen E key s =
     only_read (report show_nat (kv_llen (cli_clock E 0) s key)) s"

definition cli_pipeline :: "'f cli_env \<Rightarrow> string \<Rightarrow> kv_store \<Rightarrow> out_line list \<times> kv_store \<times> bool" where
  "cli_pipeline E file s =
     (case pipeline_file E file of
        Unreadable e \<Rightarrow> only_read [ErrLine (''Error reading pipeline file '' @ debug_path E file @ '': '' @ e)] s
      | Unparsable e \<Rightarrow> only_read [ErrLine (''Error parsing pipeline JSON: '' @ e)] s
      | Parsed cmds \<Rightarrow>
          (let (ls, s') = pipe_run (cli_rt E) (cli_clock E) 0 s cmds
           in saved (OutLine (''Executing '' @ show_nat (length cmds) @ '' commands...'') # ls
                @ [OutLine (''Pipeline complete ('' @ show_nat (length cmds) @ '' commands)'')], s')))"

lemmas cli_command_defs[simp] =
  cli_pfadd_def cli_pfcount_def cli_pfmerge_def cli_lua_def cli_benchmark_def cli_lpush_def
  cli_rpush_def cli_lpop_def cli_rpop_def cli_lrange_def cli_llen_def cli_pipeline_def

fun run_command :: "'f cli_env \<Rightarrow> store_command \<Rightarrow> kv_store \<Rightarrow> out_line list \<times> kv_store \<times> bool" where
  "run_command E (CSet key v) s =
     saved (map_prod (report (\<lambda>_. ''Set '' @ quoted key @ '' successfully'')) id (kv_set (cli_clock E 0) s key (VStr v)))"
| "run_command E (CSetTTL key v ttl) s =
     saved (map_prod (report (\<lambda>_. ''Set '' @ quoted key @ '' successfully with '' @ show_u64 ttl @ ''s TTL'')) id
       (kv_set_with_ttl (cli_clock E 0) s key (VStr v) ttl))"
| "run_command E (CGet key) s =
     only_read [OutLine (case kv_get (cli_clock E 0) s key of
         Some v \<Rightarrow> key_shows key (display (cli_rt E) v) | None \<Rightarrow> ''Key '' @ quoted key @ '' not found'')] s"
| "run_command E (CDelete key) s =
     saved (map_prod (\<lambda>r. [OutLine (if r \<noteq> None then ''Deleted '' @ quoted key @ '' successfully''
                                  else ''Key '' @ quoted key @ '' not found'')]) id (kv_delete (cli_clock E 0) s key))"
| "run_command E CList s =
     only_read (if kv_is_empty s then [OutLine ''Store is empty'']
       else map (\<lambda>(k, v). OutLine (key_shows k (display (cli_rt E) v))) (kv_iter (cli_clock E 0) s)) s"
| "run_command E (CIncr key) s = saved (map_prod (report (key_is key \<circ> show_i64)) id (kv_incr s key))"
| "run_command E (CDecr key) s = saved (map_prod (report (key_is key \<circ> show_i64)) id (kv_decr s key))"
| "run_command E (CIncrBy key amount) s = saved (map_prod (report (key_is key \<circ> show_i64)) id (kv_incrby s key amount))"
| "run_command E (CAppend key v) s =
     saved (map_prod (report (\<lambda>n. ''Appended to '' @ quoted key @ '', new length: '' @ show_nat n)) id
       (kv_append (cli_clock E 0) s key v))"
| "run_command E (CGetSet key v) s =
     saved (map_prod (report (\<lambda>old. case old of
         Some x \<Rightarrow> ''Old value: '' @ display (cli_rt E) x @ '', Set '' @ quoted key @ '' to '' @ quoted v
       | None \<Rightarrow> ''Key '' @ quoted key @ '' was not set, now set to '' @ quoted v)) id
       (kv_getset (cli_clock E 0) s key (VStr v)))"
| "run_command E (CMGet keys) s =
     saved (map (\<lambda>(k, v). OutLine (key_shows k (or_nil (map_option (display (cli_rt E)) v))))
       (zip keys (kv_mget (cli_clock E 0) s keys)), s)"
| "run_command E (CMSet pairs) s =
     (if length pairs mod 2 \<noteq> 0
      then saved ([ErrLine ''Error: MSET requires an even number of arguments (key1 value1 key2 value2 ...)''], s)
      else saved (map_prod (report (\<lambda>_. ''Set '' @ show_nat (length pairs div 2) @ '' key-value pairs'')) id
        (kv_mset (cli_clock E 0) s (pairs_of pairs))))"
| "run_command E (CExists keys) s =
     only_read [OutLine (show_nat (exists_many (cli_clock E 0) s keys) @ '' key(s) exist'')] s"
| "run_command E (CKeys pattern) s =
     only_read (let ks = kv_keys (cli_clock E 0) s pattern in
       if ks = [] then [OutLine (''No keys match pattern '' @ quoted pattern)] else map OutLine ks) s"
| "run_command E CStats s = only_read (stats_lines (arith (cli_rt E)) (show_percent E) (stats s)) s"
| "run_command E CCleanup s =
     saved (map_prod (\<lambda>n. [OutLine (''Cleaned up '' @ show_nat n @ '' expired keys'')]) id (cleanup_expired (cli_clock E 0) s))"
| "run_command E CMulti s = saved (map_prod (report (\<lambda>_. ''Transaction started (MULTI)'')) id (kv_multi s))"
| "run_command E CExec s =
     saved (map_prod (\<lambda>r. case r of
         Inr rs \<Rightarrow> OutLine (''Executed '' @ show_nat (length rs) @ '' commands:'') # numbered ''  '' '': '' rs
       | Inl e \<Rightarrow> [ErrLine (''Error: '' @ show_error e)]) id (kv_exec s))"
| "run_command E CDiscard s = saved (map_prod (report (\<lambda>_. ''Transaction discarded'')) id (kv_discard s))"
| "run_command E (CPfAdd key vs) s = cli_pfadd E key vs s"
| "run_command E (CPfCount key) s = cli_pfcount E key s"
| "run_command E (CPfMerge dest srcs) s = cli_pfmerge E dest srcs s"
| "run_command E (CLua script) s = cli_lua E script s"
| "run_command E CBenchmark s = cli_benchmark E s"
| "run_command E (CLPush key vs) s = cli_lpush key vs s"
| "run_command E (CRPush key vs) s = cli_rpush key vs s"
| "run_command E (CLPop key) s = cli_lpop key s"
| "run_command E (CRPop key) s = cli_rpop key s"
| "run_command E (CLRange key start stop) s = cli_lrange E key start stop s"
| "run_command E (CLLen key) s = cli_llen E key s"
| "run_command E (CPipeline file) s = cli_pipeline E file s"

subsection \<open>A run of the program\<close>

definition load_at_start :: "'f cli_env \<Rightarrow> string \<Rightarrow> disk \<Rightarrow> out_line list \<times> kv_store" where
  "load_at_start E file d =
     (if hm_get d file = None then ([], kv_new)
      else case load_from_file (cli_codec E) file d of
        Some loaded \<Rightarrow> ([], loaded)
      | None \<Rightarrow> ([ErrLine (''Error loading store: '' @ load_failure E)], kv_new))"

definition save_at :: "'f cli_env \<Rightarrow> string \<Rightarrow> nat \<Rightarrow> kv_store \<Rightarrow> disk \<Rightarrow> bool \<times> disk" where
  "save_at E file versions s d =
     save_with_version (cli_codec E) (cli_io E) (cli_mtime E) (cli_epoch E) file versions s d"

definition auto_save :: "'f cli_env \<Rightarrow> string \<Rightarrow> kv_store \<Rightarrow> disk \<Rightarrow> out_line list \<times> disk" where
  "auto_save E file s d =
     map_prod (\<lambda>ok. if ok then [] else [ErrLine (''Warning: Failed to auto-save store: '' @ save_failure E)]) id
       (save_at E file 3 s d)"

definition cli_main :: "'f cli_env \<Rightarrow> string \<Rightarrow> cli_command \<Rightarrow> disk \<Rightarrow> out_line list \<times> disk" where
  "cli_main E file cmd d =
     (let (start, s) = load_at_start E file d in
      case cmd of
        CSave versions \<Rightarrow>
          map_prod (\<lambda>ok. start @ [if ok then OutLine (''Store saved successfully to '' @ debug_path E file)
                               else ErrLine (''Error saving store: '' @ save_failure E)]) id
            (save_at E file versions s d)
      | CLoad \<Rightarrow>
          (start @ [case load_from_file (cli_codec E) file d of
              Some _ \<Rightarrow> OutLine (''Store loaded successfully from '' @ debug_path E file)
            | None \<Rightarrow> ErrLine (''Error loading store: '' @ load_failure E)], d)
      | COnStore c \<Rightarrow>
          (let (ls, s', should_save) = run_command E c s in
           if should_save then map_prod (\<lambda>w. start @ ls @ w) id (auto_save E file s' d)
           else (start @ ls, d)))"

subsection \<open>Runs one after the other\<close>

definition io_works :: "io \<Rightarrow> bool" where
  "io_works io \<longleftrightarrow> copy_ok io \<and> read_dir_ok io \<and> create_ok io \<and> write_fails io = None \<and> rename_ok io"

text \<open>The serialiser reads back what it wrote of this image (it may refuse another, as serde does a NaN).\<close>

definition reads_back :: "codec \<Rightarrow> image \<Rightarrow> bool" where
  "reads_back C img \<longleftrightarrow> (\<forall>c. decode C c (encode C c img) = Some img)"

definition cli_session :: "string \<Rightarrow> ('f cli_env \<times> cli_command) list \<Rightarrow> disk \<Rightarrow> disk" where
  "cli_session file runs d = foldl (\<lambda>d (E, cmd). snd (cli_main E file cmd d)) d runs"

text \<open>What a run does to the loaded store: the command, then what survives a save and a load.\<close>

definition cli_effect :: "'f cli_env \<Rightarrow> cli_command \<Rightarrow> kv_store \<Rightarrow> kv_store" where
  "cli_effect E cmd s =
     (case cmd of
        COnStore c \<Rightarrow> (let (ls, s', should_save) = run_command E c s in if should_save then restore (image_of s') else s)
      | _ \<Rightarrow> s)"

text \<open>Every image a session saves is read back.\<close>

definition result_store :: "'f cli_env \<Rightarrow> cli_command \<Rightarrow> kv_store \<Rightarrow> kv_store" where
  "result_store E cmd s = (case cmd of COnStore c \<Rightarrow> fst (snd (run_command E c s)) | _ \<Rightarrow> s)"

fun session_reads :: "codec \<Rightarrow> kv_store \<Rightarrow> ('f cli_env \<times> cli_command) list \<Rightarrow> bool" where
  "session_reads C s [] = True"
| "session_reads C s ((E, cmd) # runs) =
     (reads_back C (image_of (result_store E cmd s)) \<and> session_reads C (cli_effect E cmd s) runs)"

lemma restore_restored: "restore (image_of (restore img)) = restore img"
  by (simp add: restore_def image_of_def)

lemma loaded_restored: "load_from_file C file d = Some s \<Longrightarrow> \<exists>img. s = restore img"
  by (auto simp: load_from_file_def split: option.splits)

lemma save_works: "io_works io \<Longrightarrow> fst (save_with_version C io t epoch name n s d)"
  by (auto simp: io_works_def save_with_version_def backup_existing_def write_temp_def Let_def split: option.splits)

lemma save_then_load:
  assumes "io_works (cli_io E)" "reads_back (cli_codec E) (image_of s)"
  shows "load_from_file (cli_codec E) file (snd (save_at E file n s d)) = Some (restore (image_of s))"
proof -
  have "decode (cli_codec E) c (encode (cli_codec E) c (image_of s)) = Some (image_of s)" for c
    using assms(2) unfolding reads_back_def by blast
  then show ?thesis
    using assms(1) save_with_version_target[of "cli_codec E" "cli_io E" "cli_mtime E" "cli_epoch E" "file" n s d]
    by (simp add: save_at_def save_works load_from_file_def)
qed

lemma cli_step:
  assumes "load_from_file (cli_codec E) file d = Some s" "io_works (cli_io E)"
    "reads_back (cli_codec E) (image_of (result_store E cmd s))"
  shows "load_from_file (cli_codec E) file (snd (cli_main E file cmd d)) = Some (cli_effect E cmd s)"
proof -
  from assms(1) have "hm_get d file \<noteq> None" by (auto simp: load_from_file_def split: option.splits)
  with assms(1) have start: "load_at_start E file d = ([], s)" by (simp add: load_at_start_def del: not_None_eq)
  obtain img where "s = restore img" using loaded_restored[OF assms(1)] by blast
  then have "restore (image_of s) = s" by (simp add: restore_restored)
  with start assms(1) save_then_load[OF assms(2,3), of "file"] show ?thesis
    by (auto simp: cli_main_def cli_effect_def result_store_def auto_save_def split_beta Let_def split: cli_command.splits)
qed

lemma pipe_step_inv: "kv_inv s \<Longrightarrow> kv_inv (snd (pipe_step R now idx s cmd))"
  by (cases cmd) (simp_all add: operation_invs)

lemma pipe_run_inv: "kv_inv s \<Longrightarrow> kv_inv (snd (pipe_run R clock i s cmds))"
proof (induction cmds arbitrary: i s)
  case (Cons cmd cmds)
  from Cons.IH[OF pipe_step_inv[OF Cons.prems]] show ?case by (simp add: split_beta)
qed simp

lemma run_command_inv: "kv_inv s \<Longrightarrow> kv_inv (fst (snd (run_command E cmd s)))"
  by (cases cmd) (auto simp: saved_def only_read_def operation_invs execute_script_inv pipe_run_inv split_beta Let_def
      split: pipe_file.splits)

lemma cli_effect_inv: "kv_inv s \<Longrightarrow> kv_inv (cli_effect E cmd s)"
  using run_command_inv
  by (auto simp: cli_effect_def split_beta Let_def intro!: restore_image_inv kv_inv_image split: cli_command.splits)

lemma cli_session_load:
  "\<forall>(E, cmd) \<in> set runs. cli_codec E = C \<and> io_works (cli_io E) \<Longrightarrow> session_reads C s runs \<Longrightarrow>
   load_from_file C file d = Some s \<Longrightarrow>
   load_from_file C file (cli_session file runs d) = Some (foldl (\<lambda>s (E, cmd). cli_effect E cmd s) s runs)"
proof (induction runs arbitrary: d s)
  case (Cons r runs)
  obtain E cmd where r: "r = (E, cmd)" by (cases r)
  with Cons.prems have "cli_codec E = C" "io_works (cli_io E)" "reads_back C (image_of (result_store E cmd s))"
    "session_reads C (cli_effect E cmd s) runs" by simp_all
  with Cons.prems cli_step[of E "file" d s cmd]
  have "load_from_file C file (snd (cli_main E file cmd d)) = Some (cli_effect E cmd s)" by simp
  from Cons.IH[OF _ \<open>session_reads C (cli_effect E cmd s) runs\<close> this] Cons.prems(1) r show ?case by (simp add: cli_session_def)
qed (simp add: cli_session_def)

lemma cli_effects_inv: "kv_inv s \<Longrightarrow> kv_inv (foldl (\<lambda>s (E, cmd). cli_effect E cmd s) s runs)"
  by (induction runs arbitrary: s) (auto simp: cli_effect_inv)

lemma start_no_transaction: "transaction_queue (snd (load_at_start E file d)) = None"
  by (auto simp: load_at_start_def load_from_file_def kv_new_def with_config_def restore_def split: option.splits)

text \<open>The copy made before a save is kept when it is the only backup.\<close>

lemma first_backup_kept:
  assumes "io_works io" "hm_get d file = Some f" "backups_of file d = []" "0 < n"
  shows "hm_get (snd (save_with_version C io t epoch file n s d)) (backup_prefix file @ show_u64 epoch)
    = Some \<lparr>file_bytes = file_bytes f, modified = t\<rparr>"
proof -
  let ?b = "backup_prefix file @ show_u64 epoch"
  let ?P = "\<lambda>(k, _ :: disk_file). take (length (backup_prefix file)) k = backup_prefix file"
  have none: "\<forall>x \<in> set d. \<not> ?P x"
    using assms(3) by (metis (no_types, lifting) backups_of_def filter_empty_conv length_0_conv length_map length_sort)
  then have "filter ?P (hm_insert ?b x d) = [(?b, x)]" for x
    by (induction d) auto
  then have "backups_of file (write_file t ?b bytes d) = [?b]" for bytes
    by (simp add: backups_of_def write_file_def)
  moreover have "?b \<noteq> tmp_path file" by (simp add: tmp_path_eq backup_prefix_def)
  ultimately show ?thesis
    using assms(1,2,4)
    by (simp add: save_with_version_def backup_existing_def io_works_def write_temp_def write_file_def rename_file_def Let_def)
qed

subsection \<open>Properties\<close>

text \<open>C37: A session of runs is the fold of their effects. When files work and the serialiser reads back
  what it wrote, the store a run finds is the one the last run left, with the default
  configuration, its keys as LRU list, no open transaction and no pending event; a reading command,
  \<open>save\<close> and \<open>load\<close> leave it alone; and a well-formed store stays well formed.\<close>

theorem cli_session_refines:
  assumes "\<forall>(E, cmd) \<in> set runs. cli_codec E = C \<and> io_works (cli_io E)" "session_reads C s runs"
    "load_from_file C path d = Some s"
  shows "load_from_file C path (cli_session path runs d) = Some (foldl (\<lambda>s (E, cmd). cli_effect E cmd s) s runs)
    \<and> (kv_inv s \<longrightarrow> kv_inv (foldl (\<lambda>s (E, cmd). cli_effect E cmd s) s runs))"
  using cli_session_load[OF assms] cli_effects_inv by blast

text \<open>Transactions do not live from one run to the next. Whatever the disk holds and whatever ran
  before, MULTI reports success, and EXEC and DISCARD report that no transaction is in progress;
  a SET between them is applied at once, and DISCARD does not take it back.\<close>

theorem cli_transactions_end_with_the_run:
  fixes E :: "'f cli_env"
  assumes "io_works (cli_io E)" "load_from_file (cli_codec E) path d = Some s" "accepts s k (VStr v)" "fits s (VStr v)"
    "session_reads (cli_codec E) s [(E, COnStore CMulti), (E, COnStore (CSet k v)), (E, COnStore CDiscard)]"
  shows "(\<exists>w. fst (cli_main E path (COnStore CMulti) e) = fst (load_at_start E path e) @ OutLine ''Transaction started (MULTI)'' # w)
    \<and> (\<forall>c \<in> {CExec, CDiscard}. \<exists>w. fst (cli_main E path (COnStore c) e) =
          fst (load_at_start E path e) @ ErrLine ''Error: Operation failed: No transaction in progress'' # w)
    \<and> (\<exists>t. load_from_file (cli_codec E) path
          (cli_session path [(E, COnStore CMulti), (E, COnStore (CSet k v)), (E, COnStore CDiscard)] d) = Some t
        \<and> (\<forall>now. kv_get now t = (kv_get now s)(k \<mapsto> VStr v)))"
proof -
  have print: "fst (cli_main E path (COnStore c) e) = fst (load_at_start E path e)
      @ fst (run_command E c (snd (load_at_start E path e))) @ fst (auto_save E path (fst (snd (run_command E c (snd (load_at_start E path e))))) e)"
    if "c \<in> {CMulti, CExec, CDiscard}" for c
    using that by (auto simp: cli_main_def saved_def split_beta)
  have multi: "\<exists>w. fst (cli_main E path (COnStore CMulti) e) =
      fst (load_at_start E path e) @ OutLine ''Transaction started (MULTI)'' # w"
    using print[of CMulti] start_no_transaction[of E path e] by (simp add: saved_def kv_multi_def report_def)
  have ends: "\<exists>w. fst (cli_main E path (COnStore c) e) =
      fst (load_at_start E path e) @ ErrLine ''Error: Operation failed: No transaction in progress'' # w"
    if "c \<in> {CExec, CDiscard}" for c
    using that print[of c] start_no_transaction[of E path e] by (auto simp: saved_def kv_exec_def kv_discard_def report_def)
  obtain img where img: "s = restore img" using loaded_restored[OF assms(2)] by blast
  let ?s1 = "restore (image_of (store_entry (cli_clock E 0) k (VStr v) None s))"
  have "restore (image_of (s\<lparr>transaction_queue := Some []\<rparr>)) = s" by (simp add: img restore_def image_of_def)
  then have "cli_effect E (COnStore CMulti) s = s"
    using img by (simp add: cli_effect_def saved_def kv_multi_def restore_def)
  moreover have "cli_effect E (COnStore (CSet k v)) s = ?s1"
    by (simp add: cli_effect_def saved_def kv_set_accepts[OF assms(3)])
  moreover have "cli_effect E (COnStore CDiscard) ?s1 = ?s1"
    by (simp add: cli_effect_def saved_def kv_discard_def restore_def image_of_def)
  ultimately have "load_from_file (cli_codec E) path
      (cli_session path [(E, COnStore CMulti), (E, COnStore (CSet k v)), (E, COnStore CDiscard)] d) = Some ?s1"
    using cli_session_load[OF _ assms(5,2)]
      assms(1) by simp
  moreover have "kv_get now ?s1 = (kv_get now s)(k \<mapsto> VStr v)" for now
    using kv_get_set[OF assms(3,4), of now "cli_clock E 0"]
    by (simp add: kv_set_accepts[OF assms(3)] kv_get_def restore_def image_of_def fun_eq_iff)
  ultimately show ?thesis using multi ends by blast
qed

text \<open>A file that does not load is replaced. The load error is only printed: a SET then starts from the
  empty store and its auto-save overwrites the file, so afterwards the store holds that key alone.
  The unreadable bytes survive in the backup the save makes.\<close>

theorem cli_replaces_unreadable_file:
  assumes "hm_get d path = Some f" "load_from_file (cli_codec E) path d = None" "backups_of path d = []"
    "io_works (cli_io E)" "reads_back (cli_codec E) (image_of (snd (kv_set (cli_clock E 0) kv_new k (VStr v))))" "accepts kv_new k (VStr v)" "fits kv_new (VStr v)"
  defines "out \<equiv> cli_main E path (COnStore (CSet k v)) d"
  shows "fst out = [ErrLine (''Error loading store: '' @ load_failure E), OutLine (''Set '' @ quoted k @ '' successfully'')]
    \<and> (\<exists>t. load_from_file (cli_codec E) path (snd out) = Some t \<and> (\<forall>now. kv_get now t = [k \<mapsto> VStr v]))
    \<and> hm_get (snd out) (backup_prefix path @ show_u64 (cli_epoch E)) = Some \<lparr>file_bytes = file_bytes f, modified = cli_mtime E\<rparr>"
proof -
  let ?t = "store_entry (cli_clock E 0) k (VStr v) None kv_new"
  have start: "load_at_start E path d = ([ErrLine (''Error loading store: '' @ load_failure E)], kv_new)"
    using assms(1,2) by (simp add: load_at_start_def)
  have run: "run_command E (CSet k v) kv_new = ([OutLine (''Set '' @ quoted k @ '' successfully'')], ?t, True)"
    by (simp add: saved_def kv_set_accepts[OF assms(6)] report_def)
  have ok: "fst (save_at E path 3 ?t d)" by (simp add: save_at_def save_works[OF assms(4)])
  have out: "out = ([ErrLine (''Error loading store: '' @ load_failure E), OutLine (''Set '' @ quoted k @ '' successfully'')],
      snd (save_at E path 3 ?t d))"
    using start run ok by (simp add: out_def cli_main_def auto_save_def map_prod_def split_beta del: run_command.simps)
  have "kv_get now kv_new = Map.empty" for now by (simp add: kv_new_def with_config_def kv_get_def fun_eq_iff)
  then have "kv_get now ?t = [k \<mapsto> VStr v]" for now
    using kv_get_set[OF assms(6,7), of now "cli_clock E 0"] by (simp add: kv_set_accepts[OF assms(6)])
  then have "kv_get now (restore (image_of ?t)) = [k \<mapsto> VStr v]" for now
    by (simp add: kv_get_def restore_def image_of_def fun_eq_iff)
  with out save_then_load[OF assms(4), of ?t path 3 d] assms(5) kv_set_accepts[OF assms(6)] first_backup_kept[OF assms(4,1,3), of 3] show ?thesis
    by (simp add: save_at_def)
qed

text \<open>A value set from the command line is a string, so INCR refuses it: the example of FEATURES.md,
  \<open>set counter 10\<close> and then \<open>incr counter\<close>, prints a type error and changes nothing.\<close>

lemma cli_set_then_incr:
  assumes "io_works (cli_io E)" "reads_back (cli_codec E) (image_of (snd (kv_set (cli_clock E 0) s k (VStr v))))" "load_from_file (cli_codec E) path d = Some s"
    "accepts s k (VStr v)" "fits s (VStr v)"
  defines "d1 \<equiv> snd (cli_main E path (COnStore (CSet k v)) d)"
  shows "fst (cli_main E path (COnStore (CIncr k)) d1) = [ErrLine (''Error: '' @ show_error (type_mismatch k ''Int'' ''Str''))]"
proof -
  let ?s1 = "restore (image_of (store_entry (cli_clock E 0) k (VStr v) None s))"
  have eff: "cli_effect E (COnStore (CSet k v)) s = ?s1"
    by (simp add: cli_effect_def saved_def kv_set_accepts[OF assms(4)])
  have ld: "load_from_file (cli_codec E) path d1 = Some ?s1"
    using cli_step[OF assms(3,1), of "COnStore (CSet k v)"] assms(2)
    unfolding d1_def eff by (simp add: result_store_def saved_def)
  then have "hm_get d1 path \<noteq> None" by (auto simp: load_from_file_def split: option.splits)
  with ld have "load_at_start E path d1 = ([], ?s1)" by (simp add: load_at_start_def del: not_None_eq)
  moreover have "kv_incr ?s1 k = (Inl (type_mismatch k ''Int'' ''Str''), ?s1)"
    using store_entry_fits[OF assms(5), of "cli_clock E 0" k None] by (simp add: kv_incr_def restore_def image_of_def)
  ultimately show ?thesis
    by (simp add: cli_main_def saved_def report_def auto_save_def save_at_def save_works[OF assms(1)] split_beta)
qed

subsection \<open>Concrete runs\<close>

text \<open>A serialiser for two images, an environment whose files work, and a disk with an empty store.\<close>

definition two_images :: "image \<Rightarrow> image \<Rightarrow> codec" where
  "two_images a b = \<lparr>encode = (\<lambda>c img. if img = a then ''a'' else if img = b then ''b'' else []),
     decode = (\<lambda>c t. if t = ''a'' then Some a else if t = ''b'' then Some b else None)\<rparr>"

lemma two_images_read: "reads_back (two_images a b) a" "reads_back (two_images a b) b"
  by (simp_all add: two_images_def reads_back_def)

definition empty_loaded :: kv_store where "empty_loaded = restore ([], default_stats)"

definition with_k :: kv_store where "with_k = store_entry 5 ''k'' (VStr ''v'') None empty_loaded"

definition shell :: "'f runtime \<Rightarrow> 'f cli_env" where
  "shell R = \<lparr>cli_rt = R, cli_codec = two_images (image_of empty_loaded) (image_of with_k),
     cli_io = \<lparr>copy_ok = True, read_dir_ok = True, remove_ok = (\<lambda>_. True), create_ok = True, write_fails = None, rename_ok = True\<rparr>,
     cli_clock = (\<lambda>_. 5), cli_mtime = 5, cli_epoch = 5, show_percent = (\<lambda>_. ''0.00''), debug_path = quoted,
     load_failure = ''expected value'', save_failure = [], cli_interpreter = (\<lambda>_. Finish []), bench = BenchOk,
     pipeline_file = (\<lambda>_. Unreadable [])\<rparr>"

definition shell_disk :: "string \<Rightarrow> disk" where
  "shell_disk contents = [(''s'', \<lparr>file_bytes = contents, modified = 1\<rparr>)]"

lemma shell_facts:
  "io_works (cli_io (shell R))" "cli_codec (shell R) = two_images (image_of empty_loaded) (image_of with_k)"
  "cli_clock (shell R) = (\<lambda>_. 5)" "cli_epoch (shell R) = 5" "cli_mtime (shell R) = 5"
  "load_failure (shell R) = ''expected value''"
  by (simp_all add: shell_def io_works_def)

lemma empty_loaded_facts:
  "accepts empty_loaded ''k'' (VStr ''v'')" "fits empty_loaded (VStr ''v'')" "kv_inv empty_loaded"
  "load_from_file (cli_codec (shell R)) ''s'' (shell_disk ''a'') = Some empty_loaded"
  "store empty_loaded = store kv_new" "stats empty_loaded = stats kv_new"
  "config empty_loaded = config kv_new" "empty_loaded = kv_new"
  by (simp_all add: empty_loaded_def restore_def accepts_def fits_def validate_key_def validate_value_def in_transaction_def
      default_config_def config_default_defs default_stats_def kv_inv_def parts_inv_def shell_facts shell_disk_def
      load_from_file_def two_images_def kv_new_def with_config_def image_of_def)

lemma shell_set: "kv_set 5 empty_loaded ''k'' (VStr ''v'') = (Inr (), with_k)"
  by (simp add: kv_set_accepts[OF empty_loaded_facts(1)] with_k_def)

lemma shell_reads:
  "session_reads (cli_codec (shell R)) empty_loaded
     [(shell R, COnStore CMulti), (shell R, COnStore (CSet ''k'' ''v'')), (shell R, COnStore CDiscard)]"
  "session_reads (cli_codec (shell R)) empty_loaded [(shell R, COnStore (CSet ''k'' ''v'')), (shell R, COnStore (CGet ''k''))]"
proof -
  have m: "image_of (snd (kv_multi empty_loaded)) = image_of empty_loaded" "restore (image_of empty_loaded) = empty_loaded"
    by (simp_all add: kv_multi_def image_of_def empty_loaded_def restore_def)
  have d: "image_of (snd (kv_discard (restore (image_of with_k)))) = image_of with_k" "image_of (restore (image_of with_k)) = image_of with_k"
    by (simp_all add: kv_discard_def image_of_def restore_def)
  show "session_reads (cli_codec (shell R)) empty_loaded
     [(shell R, COnStore CMulti), (shell R, COnStore (CSet ''k'' ''v'')), (shell R, COnStore CDiscard)]"
    by (simp add: result_store_def cli_effect_def saved_def shell_facts shell_set two_images_read m d)
  show "session_reads (cli_codec (shell R)) empty_loaded [(shell R, COnStore (CSet ''k'' ''v'')), (shell R, COnStore (CGet ''k''))]"
    by (simp add: result_store_def cli_effect_def saved_def only_read_def shell_facts shell_set two_images_read d)
qed

theorem cli_session_refines_witness:
  "\<forall>R. \<exists>t. load_from_file (cli_codec (shell R)) ''s''
      (cli_session ''s'' [(shell R, COnStore (CSet ''k'' ''v'')), (shell R, COnStore (CGet ''k''))] (shell_disk ''a'')) = Some t \<and> kv_inv t"
proof -
  have "\<exists>t. load_from_file (cli_codec (shell R)) ''s''
      (cli_session ''s'' [(shell R, COnStore (CSet ''k'' ''v'')), (shell R, COnStore (CGet ''k''))] (shell_disk ''a'')) = Some t \<and> kv_inv t"
    for R :: "'f runtime"
    using cli_session_refines[OF _ shell_reads(2)[of R] empty_loaded_facts(4)[of R]] empty_loaded_facts(3) shell_facts(1)[of R]
    by simp
  then show ?thesis by blast
qed

theorem cli_transactions_end_with_the_run_witness:
  "\<forall>R. \<exists>t. load_from_file (cli_codec (shell R)) ''s'' (cli_session ''s''
      [(shell R, COnStore CMulti), (shell R, COnStore (CSet ''k'' ''v'')), (shell R, COnStore CDiscard)] (shell_disk ''a'')) = Some t
      \<and> kv_get 7 t ''k'' = Some (VStr ''v'')"
proof -
  have "\<exists>t. load_from_file (cli_codec (shell R)) ''s'' (cli_session ''s''
      [(shell R, COnStore CMulti), (shell R, COnStore (CSet ''k'' ''v'')), (shell R, COnStore CDiscard)] (shell_disk ''a'')) = Some t
      \<and> kv_get 7 t ''k'' = Some (VStr ''v'')" for R :: "'f runtime"
    using cli_transactions_end_with_the_run[OF shell_facts(1) empty_loaded_facts(4,1,2) shell_reads(1)] by fastforce
  then show ?thesis by blast
qed

theorem cli_replaces_unreadable_file_witness:
  "\<forall>R. let out = cli_main (shell R) ''s'' (COnStore (CSet ''k'' ''v'')) (shell_disk ''{'') in
     fst out = [ErrLine ''Error loading store: expected value'', OutLine (''Set '' @ quoted ''k'' @ '' successfully'')]
     \<and> hm_get (snd out) ''s.bak.5'' = Some \<lparr>file_bytes = ''{'', modified = 5\<rparr>"
proof -
  have "let out = cli_main (shell R) ''s'' (COnStore (CSet ''k'' ''v'')) (shell_disk ''{'') in
     fst out = [ErrLine ''Error loading store: expected value'', OutLine (''Set '' @ quoted ''k'' @ '' successfully'')]
     \<and> hm_get (snd out) ''s.bak.5'' = Some \<lparr>file_bytes = ''{'', modified = 5\<rparr>" for R :: "'f runtime"
  proof -
    have "hm_get (shell_disk ''{'') ''s'' = Some \<lparr>file_bytes = ''{'', modified = 1\<rparr>"
      "load_from_file (cli_codec (shell R)) ''s'' (shell_disk ''{'') = None" "backups_of ''s'' (shell_disk ''{'') = []"
      by (simp_all add: shell_disk_def load_from_file_def shell_facts two_images_def backups_of_def backup_prefix_def)
    note pre = this
    have set: "reads_back (cli_codec (shell R)) (image_of (snd (kv_set (cli_clock (shell R) 0) kv_new ''k'' (VStr ''v''))))"
      using shell_set by (simp add: shell_facts empty_loaded_facts(8) two_images_read)
    have "backup_prefix ''s'' @ show_u64 5 = ''s.bak.5''"
      unfolding backup_prefix_def show_u64_def by code_simp
    with cli_replaces_unreadable_file[OF pre shell_facts(1) set] empty_loaded_facts(1,2)
    show ?thesis by (simp add: empty_loaded_facts(8) shell_facts Let_def)
  qed
  then show ?thesis by blast
qed

end
