(* ===== verification/Server_Routes.thy ===== *)
theory Server_Routes
  imports Daikon_Prelude
begin

section \<open>The route table (server.rs)\<close>

text \<open>
  The routes of the scope \<open>/api\<close> with the names of their handlers. The HTTP library's router is a
  parameter: what the program relies on is that the first registered route that matches is taken.
\<close>

datatype http_method = GET | PUT | POST | DELETE

datatype segment = Lit string | Var string

type_synonym route = "http_method \<times> segment list \<times> string"

text \<open>The table of the scope \<open>/api\<close> in the order of registration, with the handler's name.\<close>

definition api_routes :: "route list" where
  "api_routes =
     [(GET, [Lit ''health'', Lit ''live''], ''health_live''),
      (GET, [Lit ''health'', Lit ''ready''], ''health_ready''),
      (GET, [Lit ''metrics''], ''metrics''),
      (GET, [Lit ''keys''], ''list_keys''),
      (GET, [Lit ''keys'', Var ''key''], ''get_value''),
      (PUT, [Lit ''keys'', Var ''key''], ''set_value''),
      (DELETE, [Lit ''keys'', Var ''key''], ''delete_value''),
      (POST, [Lit ''incr'', Var ''key''], ''incr_value''),
      (POST, [Lit ''decr'', Var ''key''], ''decr_value''),
      (POST, [Lit ''incrby'', Var ''key''], ''incrby_value''),
      (POST, [Lit ''append'', Var ''key''], ''append_value''),
      (POST, [Lit ''getset'', Var ''key''], ''getset_value''),
      (POST, [Lit ''mget''], ''mget_values''),
      (POST, [Lit ''mset''], ''mset_values''),
      (GET, [Lit ''exists'', Var ''key''], ''exists_key''),
      (GET, [Lit ''ttl'', Var ''key''], ''get_ttl''),
      (GET, [Lit ''pttl'', Var ''key''], ''get_pttl''),
      (PUT, [Lit ''expire'', Var ''key''], ''set_expire''),
      (DELETE, [Lit ''expire'', Var ''key''], ''persist_key''),
      (GET, [Lit ''keys'', Lit ''pattern'', Var ''pattern''], ''keys_pattern''),
      (GET, [Lit ''stats''], ''get_stats''),
      (POST, [Lit ''cleanup''], ''cleanup_expired''),
      (GET, [Lit ''memory''], ''get_memory_profile''),
      (POST, [Lit ''multi''], ''multi''),
      (POST, [Lit ''exec''], ''exec''),
      (POST, [Lit ''discard''], ''discard''),
      (POST, [Lit ''pitr'', Lit ''snapshot''], ''pitr_create_snapshot''),
      (GET, [Lit ''pitr'', Lit ''snapshots''], ''pitr_list_snapshots''),
      (POST, [Lit ''pitr'', Lit ''recover'', Var ''timestamp''], ''pitr_recover_to_timestamp''),
      (POST, [Lit ''pitr'', Lit ''recover'', Lit ''latest''], ''pitr_recover_latest_snapshot''),
      (GET, [Lit ''pitr'', Lit ''stats''], ''pitr_stats''),
      (POST, [Lit ''pitr'', Lit ''cleanup''], ''pitr_cleanup_old_snapshots''),
      (POST, [Lit ''replication'', Lit ''heartbeat''], ''replication_heartbeat''),
      (GET, [Lit ''replication'', Lit ''wal''], ''replication_get_wal''),
      (GET, [Lit ''replication'', Lit ''replicas''], ''replication_list_replicas''),
      (POST, [Lit ''replication'', Lit ''sync''], ''replication_sync''),
      (GET, [Lit ''replication'', Lit ''status''], ''replication_status''),
      (POST, [Lit ''pubsub'', Lit ''subscribe'', Var ''channel''], ''pubsub_subscribe''),
      (POST, [Lit ''pubsub'', Lit ''unsubscribe'', Var ''channel'', Var ''subscriber_id''], ''pubsub_unsubscribe''),
      (POST, [Lit ''pubsub'', Lit ''publish'', Var ''channel''], ''pubsub_publish''),
      (GET, [Lit ''pubsub'', Lit ''messages'', Var ''subscriber_id''], ''pubsub_poll_messages''),
      (GET, [Lit ''pubsub'', Lit ''channels''], ''pubsub_list_channels''),
      (GET, [Lit ''pubsub'', Lit ''channels'', Var ''channel'', Lit ''subscribers''], ''pubsub_list_subscribers''),
      (POST, [Lit ''hll'', Var ''key'', Lit ''reserve''], ''hll_pfreserve''),
      (POST, [Lit ''hll'', Var ''key'', Lit ''add''], ''hll_pfadd''),
      (GET, [Lit ''hll'', Var ''key'', Lit ''count''], ''hll_pfcount''),
      (GET, [Lit ''hll'', Var ''key'', Lit ''info''], ''hll_info''),
      (POST, [Lit ''hll'', Var ''destination'', Lit ''merge''], ''hll_pfmerge''),
      (POST, [Lit ''lua'', Lit ''exec''], ''lua_exec''),
      (POST, [Lit ''list'', Var ''key'', Lit ''lpush''], ''list_lpush''),
      (POST, [Lit ''list'', Var ''key'', Lit ''rpush''], ''list_rpush''),
      (POST, [Lit ''list'', Var ''key'', Lit ''lpop''], ''list_lpop''),
      (POST, [Lit ''list'', Var ''key'', Lit ''rpop''], ''list_rpop''),
      (GET, [Lit ''list'', Var ''key'', Lit ''lrange''], ''list_lrange''),
      (GET, [Lit ''list'', Var ''key'', Lit ''llen''], ''list_llen''),
      (PUT, [Lit ''hash'', Var ''key'', Lit ''hset''], ''hash_hset''),
      (GET, [Lit ''hash'', Var ''key'', Lit ''hget'', Var ''field''], ''hash_hget''),
      (POST, [Lit ''hash'', Var ''key'', Lit ''hmget''], ''hash_hmget''),
      (DELETE, [Lit ''hash'', Var ''key'', Lit ''hdel''], ''hash_hdel''),
      (GET, [Lit ''hash'', Var ''key'', Lit ''hgetall''], ''hash_hgetall''),
      (GET, [Lit ''hash'', Var ''key'', Lit ''hkeys''], ''hash_hkeys''),
      (GET, [Lit ''hash'', Var ''key'', Lit ''hvals''], ''hash_hvals''),
      (GET, [Lit ''hash'', Var ''key'', Lit ''hlen''], ''hash_hlen''),
      (GET, [Lit ''hash'', Var ''key'', Lit ''hexists'', Var ''field''], ''hash_hexists''),
      (POST, [Lit ''hash'', Var ''key'', Lit ''hincrby'', Var ''field''], ''hash_hincrby''),
      (POST, [Lit ''hash'', Var ''key'', Lit ''hincrbyfloat'', Var ''field''], ''hash_hincrbyfloat''),
      (POST, [Lit ''pipeline''], ''pipeline_exec''),
      (GET, [Lit ''keyspace'', Lit ''config''], ''get_keyspace_config''),
      (PUT, [Lit ''keyspace'', Lit ''config''], ''set_keyspace_config'')]"

fun segment_matches :: "segment \<Rightarrow> string \<Rightarrow> bool" where
  "segment_matches (Lit t) s = (s = t)"
| "segment_matches (Var x) s = (s \<noteq> [])"

definition route_matches :: "http_method \<Rightarrow> string list \<Rightarrow> route \<Rightarrow> bool" where
  "route_matches m path r = (case r of (m', pat, _) \<Rightarrow> m' = m \<and> list_all2 segment_matches pat path)"

text \<open>The documented contract of the router, and a path that a pattern matches.\<close>

definition takes_first :: "(route list \<Rightarrow> http_method \<Rightarrow> string list \<Rightarrow> route option) \<Rightarrow> bool" where
  "takes_first router \<longleftrightarrow> (\<forall>routes m path. router routes m path = find (route_matches m path) routes)"

fun sample_segment :: "segment \<Rightarrow> string" where
  "sample_segment (Lit t) = t"
| "sample_segment (Var x) = ''0''"

definition latest_route :: route where
  "latest_route = (POST, [Lit ''pitr'', Lit ''recover'', Lit ''latest''], ''pitr_recover_latest_snapshot'')"

definition timestamp_route :: route where
  "timestamp_route = (POST, [Lit ''pitr'', Lit ''recover'', Var ''timestamp''], ''pitr_recover_to_timestamp'')"

text \<open>A route is reached when a path of its own pattern is not taken by an earlier one.\<close>

definition reached :: "route \<Rightarrow> bool" where
  "reached r = (case r of (m, pat, h) \<Rightarrow> find (route_matches m (map sample_segment pat)) api_routes = Some r)"

definition reached_or_latest :: "route \<Rightarrow> bool" where
  "reached_or_latest r = (r = latest_route \<or> reached r)"

lemma list_all_cut: "list_all P (take n xs) \<Longrightarrow> list_all P (drop n xs) \<Longrightarrow> list_all P xs"
  by (metis append_take_drop_id list_all_append)

lemma routes_1_18: "list_all reached_or_latest (take 18 api_routes)" by code_simp
lemma routes_19_36: "list_all reached_or_latest (take 18 (drop 18 api_routes))" by code_simp
lemma routes_37_48: "list_all reached_or_latest (take 12 (drop 36 api_routes))" by code_simp
lemma routes_49_60: "list_all reached_or_latest (take 12 (drop 48 api_routes))" by code_simp
lemma routes_61_69: "list_all reached_or_latest (drop 60 api_routes)" by code_simp

lemma routes_reached: "r \<in> set api_routes \<Longrightarrow> r \<noteq> latest_route \<Longrightarrow> reached r"
proof -
  have "list_all reached_or_latest (drop 48 api_routes)"
    by (rule list_all_cut[OF routes_49_60]) (simp add: routes_61_69)
  then have "list_all reached_or_latest (drop 36 api_routes)"
    by (intro list_all_cut[OF routes_37_48]) simp
  then have "list_all reached_or_latest (drop 18 api_routes)"
    by (intro list_all_cut[OF routes_19_36]) simp
  then have "list_all reached_or_latest api_routes" by (rule list_all_cut[OF routes_1_18])
  then show "r \<in> set api_routes \<Longrightarrow> r \<noteq> latest_route \<Longrightarrow> reached r"
    by (auto simp: list_all_iff reached_or_latest_def)
qed

lemma shadowed: "find (route_matches POST [''pitr'', ''recover'', ''latest'']) api_routes = Some timestamp_route"
  by code_simp

lemma latest_unparsable: "parse_u64 ''latest'' = None"
  by code_simp

lemma timestamp_is_not_latest: "timestamp_route \<noteq> latest_route"
  by (simp add: timestamp_route_def latest_route_def)

lemma find_matches: "find P xs = Some x \<Longrightarrow> P x"
  by (induction xs) (auto split: if_splits)

subsection \<open>Properties\<close>

text \<open>C38: One route cannot be reached. The router takes the first registered route that matches, and the
  table registers \<open>recover/{timestamp}\<close> before \<open>recover/latest\<close>: a POST to the latter is served by
  the handler of the former, whose argument \<open>latest\<close> is not a number, and no request whatever
  reaches \<open>pitr_recover_latest_snapshot\<close>. Every other route of the table is reached.\<close>

theorem latest_recovery_is_shadowed:
  assumes "takes_first router"
  shows "router api_routes POST [''pitr'', ''recover'', ''latest''] = Some timestamp_route
    \<and> parse_u64 ''latest'' = None
    \<and> (\<forall>m path. router api_routes m path \<noteq> Some latest_route)
    \<and> (\<forall>(m, pat, h) \<in> set api_routes - {latest_route}. router api_routes m (map sample_segment pat) = Some (m, pat, h))"
proof -
  have router: "router api_routes m path = find (route_matches m path) api_routes" for m path
    using assms by (simp add: takes_first_def)
  have "find (route_matches m path) api_routes \<noteq> Some latest_route" for m path
  proof
    assume found: "find (route_matches m path) api_routes = Some latest_route"
    from find_matches[OF this] have "m = POST" "path = [''pitr'', ''recover'', ''latest'']"
      by (auto simp: route_matches_def latest_route_def list_all2_Cons1)
    with found shadowed timestamp_is_not_latest show False by simp
  qed
  moreover have "find (route_matches m (map sample_segment pat)) api_routes = Some (m, pat, h)"
    if "(m, pat, h) \<in> set api_routes - {latest_route}" for m pat h
    using routes_reached[of "(m, pat, h)"] that by (simp add: reached_def)
  ultimately show ?thesis unfolding router using shadowed latest_unparsable by blast
qed

theorem latest_recovery_is_shadowed_witness:
  "find (route_matches POST [''pitr'', ''recover'', ''0'']) api_routes \<noteq> Some latest_route
   \<and> find (route_matches POST [''pitr'', ''recover'', ''latest'']) api_routes = Some timestamp_route"
  using latest_recovery_is_shadowed[of "\<lambda>rs m p. find (route_matches m p) rs"] by (simp add: takes_first_def)

end
