(* ===== verification/Replica_State.thy ===== *)
theory Replica_State
  imports Pitr_Recovery
begin

section \<open>Master and replica together\<close>

text \<open>
  Requests served by a master, its log, and a replica that pulls that log: for which requests the
  replica's store becomes the master's, and for which it does not. A request is \<open>time_free\<close> when
  what its log entry does to a store depends neither on the clock nor on the JSON text of a value.
\<close>

fun op_of :: "request \<Rightarrow> wal_operation option" where
  "op_of (RDelete k) = Some (WalDelete k)"
| "op_of (RIncr k) = Some (WalIncr k)"
| "op_of (RDecr k) = Some (WalDecr k)"
| "op_of (RIncrBy k a) = Some (WalIncrBy k a)"
| "op_of (RAppend k v) = Some (WalAppend k v)"
| "op_of (RPersist k) = Some (WalPersist k)"
| "op_of (RLPush k vs) = Some (WalLPush k vs)"
| "op_of (RRPush k vs) = Some (WalRPush k vs)"
| "op_of (RLPop k) = Some (WalLPop k)"
| "op_of (RRPop k) = Some (WalRPop k)"
| "op_of (RHSet k fds) = Some (WalHSet k fds)"
| "op_of (RHDel k fs) = Some (WalHDel k fs)"
| "op_of (RHIncrBy k f a) = Some (WalHIncrBy k f a)"
| "op_of _ = None"

definition time_free :: "request \<Rightarrow> bool" where "time_free req \<longleftrightarrow> op_of req \<noteq> None"

text \<open>The requests whose failure would stop the replica at their entry.\<close>

fun passes_error_on :: "request \<Rightarrow> bool" where
  "passes_error_on (RIncr _) = True"
| "passes_error_on (RDecr _) = True"
| "passes_error_on (RIncrBy _ _) = True"
| "passes_error_on (RAppend _ _) = True"
| "passes_error_on _ = False"

subsection \<open>Operations of a quiet store do not look at the clock\<close>

lemma quiet_evict_key_clock: "quiet s \<Longrightarrow> evict_key now k s = evict_key now' k s"
  by (simp add: evict_key_def split: option.splits)

lemma quiet_evict_loop_clock: "quiet s \<Longrightarrow> evict_loop now s = evict_loop now' s"
proof (induction now s rule: evict_loop.induct)
  case (1 now s)
  have "evict_loop now ((evict_key now k s)\<lparr>lru_order := ks\<rparr>) = evict_loop now' ((evict_key now' k s)\<lparr>lru_order := ks\<rparr>)"
    if "memory_bytes (stats s) > max_memory_bytes (config s)" "lru_order s = k # ks" for k ks
    using 1(1)[OF that] 1(2) quiet_evict_key quiet_evict_key_clock[of s now k now'] by simp
  then show ?case
    by (subst (1 2) evict_loop.simps) (simp split: list.splits)
qed

lemma quiet_set_clock:
  assumes "quiet s"
  shows "kv_set now s k v = kv_set now' s k v"
proof -
  have "store_entry now k v None s = store_entry now' k v None s"
    using assms by (auto simp: store_entry_def Let_def enforce_memory_limit_def quiet_evict_loop intro: quiet_evict_loop_clock)
  then show ?thesis by (simp add: kv_set_def split: sum.split)
qed

lemma quiet_apply_clock:
  assumes "quiet s" "op_of req = Some op"
  shows "apply_op R now s op = apply_op R now' s op"
proof -
  have "kv_delete now s k = kv_delete now' s k" "kv_persist now s k = kv_persist now' s k"
    "kv_append now s k v = kv_append now' s k v" for k v
    using assms(1) quiet_set_clock[OF assms(1), of now k "VStr v" now']
    by (simp_all add: kv_delete_def kv_persist_def kv_append_def split: option.splits)
  with assms(2) show ?thesis by (cases req) auto
qed


subsection \<open>A run and its log on another store\<close>

lemma handle_time_free:
  assumes "quiet (sv_store sv)" "require_api_key key h = None" "op_of req = Some op"
    "handle (env_at key R now) h req sv = (r, sv')" "passes_error_on req \<Longrightarrow> status r = 200"
  shows "quiet (sv_store sv') \<and> sv_wal sv' = sv_wal sv @ [(now, wal_entry_new now op)]
    \<and> apply_op R now (sv_store sv) op = (Inr (), sv_store sv')"
proof -
  note ev = handler_defs guarded_def env_at_def logged_first_def ideal_append_def respond_def ignored_def
    publishing_def quiet_publish split_beta Let_def
  note q = quiet_ops[OF assms(1)]
  show ?thesis
    using assms(2-5) q by (cases req) (auto simp: ev unit_result_def bad_request_def split: sum.splits option.splits)
qed


definition logged_entries :: "(u64 \<times> request) list \<Rightarrow> wal_entry list" where
  "logged_entries reqs = map (\<lambda>(now, req). wal_entry_new now (the (op_of req))) reqs"

definition scalars_accepted :: "(u64 \<times> request) list \<Rightarrow> response list \<Rightarrow> bool" where
  "scalars_accepted reqs rs \<longleftrightarrow> list_all2 (\<lambda>(now, req) r. passes_error_on req \<longrightarrow> status r = 200) reqs rs"

lemma logged_entries_simps[simp]:
  "logged_entries [] = []"
  "logged_entries ((now, req) # reqs) = wal_entry_new now (the (op_of req)) # logged_entries reqs"
  "length (logged_entries reqs) = length reqs" "map timestamp (logged_entries reqs) = map fst reqs"
  by (auto simp: logged_entries_def wal_entry_new_def)

lemma apply_kept:
  "apply_op R now (rp_store r) (operation e) = (Inr (), s) \<Longrightarrow>
   apply_wal_entry R keep_entry now e r = (Inr (), r\<lparr>rp_store := s, rp_wal := rp_wal r @ [e]\<rparr>)"
  by (simp add: apply_wal_entry_def keep_entry_def)

lemma apply_kept_new:
  "apply_op R now (rp_store r) op = (Inr (), s) \<Longrightarrow>
   apply_wal_entry R keep_entry now (wal_entry_new t op) r
     = (Inr (), r\<lparr>rp_store := s, rp_wal := rp_wal r @ [wal_entry_new t op]\<rparr>)"
  by (simp add: apply_kept wal_entry_new_def)

lemma run_on_replica:
  assumes "require_api_key key h = None"
  shows "quiet (sv_store sv) \<Longrightarrow> list_all (\<lambda>(_, req). time_free req) reqs \<Longrightarrow>
    scalars_accepted reqs (fst (run key R h reqs sv)) \<Longrightarrow>
    length clk = length reqs \<Longrightarrow> rp_store r = sv_store sv \<Longrightarrow>
    map snd (sv_wal (snd (run key R h reqs sv))) = map snd (sv_wal sv) @ logged_entries reqs
    \<and> apply_seq R keep_entry (zip clk (logged_entries reqs)) r
        = (Inr (), r\<lparr>rp_store := sv_store (snd (run key R h reqs sv)), rp_wal := rp_wal r @ logged_entries reqs\<rparr>)"
proof (induction reqs arbitrary: sv r clk)
  case (Cons nr reqs)
  obtain now req where nr: "nr = (now, req)" by (cases nr)
  obtain t clk' where clk: "clk = t # clk'" "length clk' = length reqs" using Cons.prems(4) by (cases clk) auto
  obtain rsp sv1 where h: "handle (env_at key R now) h req sv = (rsp, sv1)" by fastforce
  from Cons.prems(2) nr obtain op where op: "op_of req = Some op" by (auto simp: time_free_def)
  from Cons.prems(2,3) nr h have ok: "passes_error_on req \<Longrightarrow> status rsp = 200"
    "list_all (\<lambda>(_, req). time_free req) reqs" "scalars_accepted reqs (fst (run key R h reqs sv1))"
    by (auto simp: scalars_accepted_def case_prod_unfold Let_def)
  note st = handle_time_free[OF Cons.prems(1) assms op h ok(1), simplified]
  let ?r = "r\<lparr>rp_store := sv_store sv1, rp_wal := rp_wal r @ [wal_entry_new now op]\<rparr>"
  have "apply_op R t (rp_store r) op = (Inr (), sv_store sv1)"
    using st quiet_apply_clock[OF Cons.prems(1) op] Cons.prems(5) by metis
  from apply_kept_new[OF this] have ap: "apply_wal_entry R keep_entry t (wal_entry_new now op) r = (Inr (), ?r)" .
  have "quiet (sv_store sv1)" "rp_store ?r = sv_store sv1" using st by simp_all
  from Cons.IH[OF this(1) ok(2,3) clk(2) this(2)] show ?case
    using nr h op clk ap st by (simp add: split_beta)
qed simp


subsection \<open>Properties\<close>

text \<open>C12: The replica's store becomes the master's. A master without pending events serves any requests that
  are time free, at most one per second, whose counter and append requests it accepts; a replica
  that starts from the same store, level with the log, then needs one sync per hundred requests.
  All of them succeed, and afterwards its store is exactly the master's, statistics and LRU order
  included, its log has grown by the master's new entries, and it has applied the whole log.\<close>

theorem replica_matches_master:
  fixes rid :: string
  assumes "require_api_key key h = None" "quiet (sv_store sv)" "list_all (\<lambda>(_, req). time_free req) reqs"
    "scalars_accepted reqs (fst (run key R h reqs sv))" "distinct (map fst reqs)"
    "rp_store r = sv_store sv" "last_applied_index r = of_nat (length (sv_wal sv))"
    "fst ` set reqs \<inter> applied_entry_timestamps r = {}"
    "verify_auth m (bearer_token rh)" "length (sv_wal sv) + length reqs < 2 ^ 63" "length reqs \<le> 100 * length ts"
  defines "served \<equiv> snd (run key R h reqs sv)"
  defines "out \<equiv> sync_rounds R keep_entry rh rid (map snd (sv_wal served)) ts (m, r)"
  shows "list_all is_ok (fst out) \<and> rp_store (snd (snd out)) = sv_store served
    \<and> rp_wal (snd (snd out)) = rp_wal r @ drop (length (sv_wal sv)) (map snd (sv_wal served))
    \<and> last_applied_index (snd (snd out)) = of_nat (length (sv_wal served))"
proof -
  let ?k = "length (sv_wal sv)" and ?n = "length reqs" and ?es = "map snd (sv_wal served)"
  let ?clk = "map (round_time ts) [0..<?n]"
  have "length ?clk = ?n" by simp
  from run_on_replica[OF assms(1-4) this assms(6)]
  have es: "?es = map snd (sv_wal sv) @ logged_entries reqs"
    and ap: "apply_seq R keep_entry (zip ?clk (logged_entries reqs)) r
      = (Inr (), r\<lparr>rp_store := sv_store served, rp_wal := rp_wal r @ logged_entries reqs\<rparr>)"
    unfolding served_def by blast+
  have d: "drop ?k ?es = logged_entries reqs" by (simp add: es)
  have len: "length ?es = ?k + ?n" unfolding es by simp
  have "timestamp ` set (logged_entries reqs) = fst ` set reqs"
    by (metis logged_entries_simps(4) set_map)
  then have c: "length ?es < 2 ^ 63" "?k \<le> length ?es" "distinct (map timestamp (drop ?k ?es))"
    "timestamp ` set (drop ?k ?es) \<inter> applied_entry_timestamps r = {}" "?n = min (100 * length ts) (length ?es - ?k)"
    using assms(5,8,10,11) by (simp_all only: d len logged_entries_simps)
  have "apply_seq R keep_entry (timed (round_time ts) ?n (drop ?k ?es)) r
      = (Inr (), r\<lparr>rp_store := sv_store served, rp_wal := rp_wal r @ logged_entries reqs\<rparr>)"
    using ap by (simp only: d timed_def take_all logged_entries_simps order_refl)
  from rounds_apply_prefix[OF assms(9) c(1) assms(7) c(2-5) this, of rid] obtain m1 l a b xs where
    "list_all is_ok xs" "out = (xs, m1, with_marks (of_nat (?k + ?n))
       (applied_entry_timestamps r \<union> timestamp ` set (take ?n (drop ?k ?es))) l a b
       (r\<lparr>rp_store := sv_store served, rp_wal := rp_wal r @ logged_entries reqs\<rparr>))"
    unfolding out_def by blast
  with d len show ?thesis by (simp del: of_nat_add)
qed


lemma kv_get_published[simp]: "kv_get t (sv_store (publish_keyspace_events now sv)) k = kv_get t (sv_store sv) k"
  by (simp add: publish_keyspace_events_def drain_keyspace_events_def kv_get_def split_beta)

lemma kv_get_set_eq:
  "accepts s k v \<Longrightarrow> fits s v \<Longrightarrow> fst (kv_set now s k v) = Inr () \<and> kv_get t (snd (kv_set now s k v)) k = Some v"
  using fun_cong[OF kv_get_set[of s k v t now], of k] by (simp add: kv_set_accepts)

text \<open>C13: A PUT reaches replicas and recovered stores as JSON text. The master logs the JSON text of the
  value. Its own restart parses that text; a replica and point-in-time recovery store the text
  itself. So after an accepted PUT and a sync that reports one entry applied and no lag, GET answers
  \<open>v\<close> on the master, and the JSON text of \<open>v\<close> on the replica and in every recovered store that
  accepts it.\<close>

theorem replicas_keep_json_text:
  fixes R :: "'f runtime" and key :: "string option" and h :: headers
    and k v rid :: string and now t at :: u64 and sv :: "ideal_log server" and T :: sync_clock
  defines "text \<equiv> json_of_value R (VStr v)"
  defines "put \<equiv> handle (env_at key R now) h (RSet k v None) sv"
  assumes "require_api_key key h = None" "accepts (sv_store sv) k (VStr v)" "fits (sv_store sv) (VStr v)"
    "accepts (rp_store r) k (VStr text)" "fits (rp_store r) (VStr text)"
    "last_applied_index r = of_nat (length (sv_wal sv))" "now \<notin> applied_entry_timestamps r"
    "verify_auth m (bearer_token rh)" "length (sv_wal sv) + 1 < 2 ^ 63" "strings_read_back R"
  defines "out \<equiv> sync_rounds R keep_entry rh rid (map snd (sv_wal (snd put))) [(at, T)] (m, r)"
  shows "status (fst put) = 200 \<and> kv_get t (sv_store (snd put)) k = Some (VStr v)
    \<and> (\<exists>e. sv_wal (snd put) = sv_wal sv @ [(now, e)]
        \<and> (\<forall>s u. accepts s k (VStr v) \<and> fits s (VStr v) \<longrightarrow>
              map_sum id (\<lambda>s'. kv_get t s' k) (replay_entries R s [(u, e)]) = Inr (Some (VStr v)))
        \<and> (\<forall>s u. accepts s k (VStr text) \<and> fits s (VStr text) \<longrightarrow>
              kv_get t (snd (pitr_apply_wal_entry R u s e)) k = Some (VStr text)))
    \<and> list_all is_ok (fst out) \<and> lag_entries (snd (snd out)) = 0
    \<and> kv_get t (rp_store (snd (snd out))) k = Some (VStr text)"
proof -
  let ?e = "wal_entry_new now (WalSet k text None)" and ?k = "length (sv_wal sv)"
  note ev = api_set_value_def guarded_def env_at_def logged_first_def ideal_append_def publishing_def respond_def
  have put: "status (fst put) = 200" "sv_wal (snd put) = sv_wal sv @ [(now, ?e)]"
    "kv_get t (sv_store (snd put)) k = Some (VStr v)"
    using assms(3) kv_get_set_eq[OF assms(4,5), of now t] unfolding put_def text_def
    by (simp_all add: ev publish_keyspace_events_def drain_keyspace_events_def split_beta kv_get_def ok_body_def)
  have replay: "map_sum id (\<lambda>s'. kv_get t s' k) (replay_entries R s [(u, ?e)]) = Inr (Some (VStr v))"
    if "accepts s k (VStr v)" "fits s (VStr v)" for s u
    using kv_get_set_eq[OF that, of u t] assms(12) unfolding text_def strings_read_back_def
    by (cases "kv_set u s k (VStr v)") (simp add: wal_entry_new_def)
  have keeps: "apply_op R u s (WalSet k text None) = (Inr (), snd (kv_set u s k (VStr text)))
      \<and> kv_get t (snd (kv_set u s k (VStr text))) k = Some (VStr text)"
    if "accepts s k (VStr text)" "fits s (VStr text)" for s u
    using kv_get_set_eq[OF that, of u t] by (simp add: prod_eq_iff)
  let ?es = "map snd (sv_wal (snd put))" and ?s = "snd (kv_set (entry_time T 0) (rp_store r) k (VStr text))"
  let ?r = "r\<lparr>rp_store := ?s, rp_wal := rp_wal r @ [?e]\<rparr>"
  have d: "drop ?k ?es = [?e]" "length ?es = ?k + 1" by (simp_all add: put(2))
  have "apply_wal_entry R keep_entry (entry_time T 0) ?e r = (Inr (), ?r)"
    using apply_kept_new keeps[OF assms(6,7)] by blast
  then have ap: "apply_seq R keep_entry (timed (round_time [(at, T)]) 1 (drop ?k ?es)) r = (Inr (), ?r)"
    by (simp add: d timed_def round_time_def)
  have c: "length ?es < 2 ^ 63" "?k \<le> length ?es" "distinct (map timestamp (drop ?k ?es))"
    "timestamp ` set (drop ?k ?es) \<inter> applied_entry_timestamps r = {}" "1 = min (100 * length [(at, T)]) (length ?es - ?k)"
    using assms(9,11) by (simp_all only: d) (simp_all add: wal_entry_new_def)
  from rounds_apply_prefix[OF assms(10) c(1) assms(8) c(2-5) ap, of rid]
  have "list_all is_ok (fst out) \<and> lag_entries (snd (snd out)) = 0 \<and> rp_store (snd (snd out)) = ?s"
    unfolding out_def d(2) by auto
  then show ?thesis
    using put replay keeps[OF assms(6,7)] keeps by (auto simp: pitr_apply_wal_entry_def wal_entry_new_def simp del: replay_entries.simps)
qed


text \<open>A replica that restarts applies an entry twice. Of three new entries, the first two of one second, it
  applies the first and the third, and has advanced by two, so its index points at the third. Its
  memory of timestamps hides that from the running replica; after a restart from its own log, with
  whatever store it comes up, the next sync applies the third entry again.\<close>

theorem restarted_replica_repeats_write:
  fixes rid :: string and now at :: u64 and T T' :: sync_clock
  assumes "verify_auth m (bearer_token rh)" "length es < 2 ^ 63" "last_applied_index r = of_nat k"
    "length (rp_wal r) = k" "drop k es = [a, b, c]" "timestamp a = timestamp b" "timestamp c \<noteq> timestamp a"
    "timestamp a \<notin> applied_entry_timestamps r" "timestamp c \<notin> applied_entry_timestamps r"
    "apply_op R (entry_time T 0) (rp_store r) (operation a) = (Inr (), s1)"
    "apply_op R (entry_time T 2) s1 (operation c) = (Inr (), s2)"
    "apply_op R (entry_time T' 0) s' (operation c) = (Inr (), s3)"
  defines "out \<equiv> sync_round R keep_entry rh rid es (now, T) (m, r)"
  shows "fst out = Inr 2 \<and> rp_store (snd (snd out)) = s2 \<and> rp_wal (snd (snd out)) = rp_wal r @ [a, c]
    \<and> (\<exists>r2. replica_new (Inr (rp_wal (snd (snd out)))) s' (rp_wal (snd (snd out))) = Inr r2
        \<and> (let again = sync_round R keep_entry rh rid es (at, T') (fst (snd out), r2)
            in fst again = Inr 1 \<and> rp_store (snd (snd again)) = s3))"
proof -
  have len: "length es = k + 3" using arg_cong[OF assms(5), of length] by simp
  then have k: "k < length es" "k + 2 < length es" by simp_all
  have "drop (k + 2) es = drop 2 (drop k es)" by (simp add: add.commute)
  then have page: "take 100 (drop k es) = [a, b, c]" "take 100 (drop (k + 2) es) = [c]" by (simp_all only: assms(5)) simp_all
  have z: "[0..<3] = [0, 1, 2 :: nat]" by (simp add: upt_conv_Cons)
  let ?r1 = "r\<lparr>rp_store := s1, rp_wal := rp_wal r @ [a], applied_entry_timestamps := insert (timestamp a) (applied_entry_timestamps r)\<rparr>"
  have "apply_wal_entry R keep_entry (entry_time T 2) c ?r1 = (Inr (), ?r1\<lparr>rp_store := s2, rp_wal := rp_wal ?r1 @ [c]\<rparr>)"
    by (rule apply_kept) (simp add: assms(11))
  then have first: "sync_entries R keep_entry {} 0 (zip (map (entry_time T) [0..<length [a, b, c]]) [a, b, c]) r
      = (Inr 2, ?r1\<lparr>rp_store := s2, rp_wal := rp_wal r @ [a, c],
          applied_entry_timestamps := insert (timestamp c) (insert (timestamp a) (applied_entry_timestamps r))\<rparr>)"
    using assms(6-9) apply_kept[OF assms(10)] by (simp add: z numeral_2_eq_2)
  from sync_round_page[OF assms(1,2,3) k(1), of R keep_entry rid now T] obtain m2 where
    m2: "verify_auth m2 (bearer_token rh)" "fst (snd out) = m2" "fst out = Inr 2" "rp_store (snd (snd out)) = s2"
      "rp_wal (snd (snd out)) = rp_wal r @ [a, c]"
    unfolding out_def page(1) first by (auto simp: sync_done_def)
  obtain r2 where r2: "replica_new (Inr (rp_wal (snd (snd out)))) s' (rp_wal (snd (snd out))) = Inr r2"
    "last_applied_index r2 = of_nat (k + 2)" "rp_store r2 = s'" "applied_entry_timestamps r2 = {}"
    using m2(5) assms(4) by (simp add: replica_new_def)
  from sync_round_page[OF m2(1) assms(2) r2(2) k(2), of R keep_entry rid at T'] obtain m3 where
    "fst (sync_round R keep_entry rh rid es (at, T') (m2, r2)) = Inr 1"
    "rp_store (snd (snd (sync_round R keep_entry rh rid es (at, T') (m2, r2)))) = s3"
    unfolding page(2) using r2(3,4) apply_kept[of R "entry_time T' 0" r2 c s3] assms(12) by (auto simp: sync_done_def)
  with m2 r2(1) show ?thesis by (simp add: Let_def)
qed

subsection \<open>Concrete runs\<close>

abbreviation started :: "ideal_log server" where
  "started \<equiv> \<lparr>sv_store = kv_new, sv_wal = [], sv_pubsub = pubsub_new\<rparr>"

lemma started_facts:
  "require_api_key None no_headers = None" "quiet (sv_store started)" "rp_store fresh_replica = sv_store started"
  "last_applied_index fresh_replica = of_nat (length (sv_wal started))" "applied_entry_timestamps fresh_replica = {}"
  "verify_auth open_master (bearer_token no_headers)"
  by (simp_all add: require_api_key_def quiet_def kv_new_def with_config_def default_config_def fresh_replica_def
      concrete_facts(2))

theorem replica_matches_master_witness:
  "\<forall>F. rp_store (snd (snd (sync_rounds (toy_runtime F) keep_entry no_headers ''r1''
       (map snd (sv_wal (snd (run None (toy_runtime F) no_headers [(5, RLPush ''q'' [''x'', ''y'']), (6, RHIncrBy ''h'' ''f'' 2), (7, RLPop ''q'')] started))))
       [(9, any_clock)] (open_master, fresh_replica))))
     = sv_store (snd (run None (toy_runtime F) no_headers [(5, RLPush ''q'' [''x'', ''y'']), (6, RHIncrBy ''h'' ''f'' 2), (7, RLPop ''q'')] started))"
proof
  fix F
  let ?reqs = "[(5 :: u64, RLPush ''q'' [''x'', ''y'']), (6, RHIncrBy ''h'' ''f'' 2), (7, RLPop ''q'')]"
  have "list_all (\<lambda>(_, req). time_free req) ?reqs" by (simp add: time_free_def)
  moreover have "scalars_accepted ?reqs (fst (run None (toy_runtime F) no_headers ?reqs started))"
    by (simp add: scalars_accepted_def split_beta)
  moreover have "length (sv_wal started) + length ?reqs < 2 ^ 63" "length ?reqs \<le> 100 * length [(9 :: u64, any_clock)]" by simp_all
  ultimately show "rp_store (snd (snd (sync_rounds (toy_runtime F) keep_entry no_headers ''r1''
      (map snd (sv_wal (snd (run None (toy_runtime F) no_headers ?reqs started)))) [(9, any_clock)] (open_master, fresh_replica))))
    = sv_store (snd (run None (toy_runtime F) no_headers ?reqs started))"
    using replica_matches_master[OF started_facts(1,2) _ _ _ started_facts(3,4) _ started_facts(6), of ?reqs "toy_runtime F" "[(9, any_clock)]" "''r1''"]
      started_facts(5) by simp
qed

theorem replicas_keep_json_text_witness:
  "\<forall>F. kv_get 10 (sv_store (snd (handle (env_at None (toy_runtime F) 5) no_headers (RSet ''k'' ''v'' None) started))) ''k'' = Some (VStr ''v'')
    \<and> kv_get 10 (rp_store (snd (snd (sync_rounds (toy_runtime F) keep_entry no_headers ''r1''
         (map snd (sv_wal (snd (handle (env_at None (toy_runtime F) 5) no_headers (RSet ''k'' ''v'' None) started))))
         [(9, any_clock)] (open_master, fresh_replica))))) ''k'' = Some (VStr ''Sv'')"
proof
  fix F
  let ?R = "toy_runtime F"
  have js: "json_of_value ?R (VStr ''v'') = ''Sv''" by (simp add: toy_runtime_def)
  have a: "accepts kv_new ''k'' (VStr x) \<and> fits kv_new (VStr x)" if "length x \<le> 2" for x
    using that by (simp add: accepts_def fits_def kv_new_def with_config_def default_config_def validate_key_def
        validate_value_def in_transaction_def config_default_defs default_stats_def)
  show "kv_get 10 (sv_store (snd (handle (env_at None ?R 5) no_headers (RSet ''k'' ''v'' None) started))) ''k'' = Some (VStr ''v'')
    \<and> kv_get 10 (rp_store (snd (snd (sync_rounds ?R keep_entry no_headers ''r1''
         (map snd (sv_wal (snd (handle (env_at None ?R 5) no_headers (RSet ''k'' ''v'' None) started))))
         [(9, any_clock)] (open_master, fresh_replica))))) ''k'' = Some (VStr ''Sv'')"
    using replicas_keep_json_text[OF started_facts(1), of started "''k''" "''v''" fresh_replica ?R 5 open_master no_headers 10 "''r1''" 9 any_clock]
      started_facts(2-6) a[of "''v''"] a[of "''Sv''"] toy_runtime_reads[of F] by (simp add: js)
qed

theorem restarted_replica_repeats_write_witness:
  "\<forall>R :: nat runtime. \<exists>m1 r1 r2. snd (sync_round R keep_entry no_headers ''r1'' [push_at 1 ''x'', push_at 1 ''y'', push_at 2 ''z'']
       (9, any_clock) (open_master, fresh_replica)) = (m1, r1)
     \<and> rp_wal r1 = [push_at 1 ''x'', push_at 2 ''z''] \<and> replica_new (Inr (rp_wal r1)) kv_new (rp_wal r1) = Inr r2
     \<and> rp_store (snd (snd (sync_round R keep_entry no_headers ''r1'' [push_at 1 ''x'', push_at 1 ''y'', push_at 2 ''z'']
          (10, any_clock) (m1, r2)))) = snd (kv_rpush kv_new ''q'' [''z''])"
proof
  fix R :: "nat runtime"
  let ?es = "[push_at 1 ''x'', push_at 1 ''y'', push_at 2 ''z'']"
  have f: "length ?es < 2 ^ 63" "length (rp_wal fresh_replica) = 0" "drop 0 ?es = ?es"
    "timestamp (push_at 1 ''x'') = timestamp (push_at 1 ''y'')" "timestamp (push_at 2 ''z'') \<noteq> timestamp (push_at 1 ''x'')"
    "timestamp (push_at 1 ''x'') \<notin> applied_entry_timestamps fresh_replica"
    "timestamp (push_at 2 ''z'') \<notin> applied_entry_timestamps fresh_replica"
    by (simp_all add: push_at_def fresh_replica_def)
  have push: "apply_op R t s (operation (push_at n v)) = (Inr (), snd (kv_rpush s ''q'' [v]))" for t s n v
    by (simp add: push_at_def ignored_def)
  from restarted_replica_repeats_write[where s' = kv_new and rid = "''r1''" and now = 9 and at = 10 and T = any_clock and T' = any_clock,
      OF concrete_facts(2) f(1) concrete_facts(3) f(2-7) push push push]
  show "\<exists>m1 r1 r2. snd (sync_round R keep_entry no_headers ''r1'' ?es (9, any_clock) (open_master, fresh_replica)) = (m1, r1)
     \<and> rp_wal r1 = [push_at 1 ''x'', push_at 2 ''z''] \<and> replica_new (Inr (rp_wal r1)) kv_new (rp_wal r1) = Inr r2
     \<and> rp_store (snd (snd (sync_round R keep_entry no_headers ''r1'' ?es (10, any_clock) (m1, r2)))) = snd (kv_rpush kv_new ''q'' [''z''])"
    using f(2) by (auto simp: Let_def prod_eq_iff)
qed

end
