(* ===== verification/Server_Main.thy ===== *)
theory Server_Main
  imports Http_Endpoints Cli_Main Server_Routes Replica_State
begin

section \<open>The server process (server.rs)\<close>

text \<open>
  The settings read from the environment, the start-up (checks, load, configure, replay, role), the
  background tasks, the application every worker serves, the signals and the save at shutdown. The route table is in \<open>Server_Routes\<close>.
\<close>

subsection \<open>Settings\<close>

definition trim :: "string \<Rightarrow> string" where
  "trim s = (let blank = (\<lambda>c. c \<in> set white_space)
     in concat (rev (dropWhile blank (rev (dropWhile blank (chars s))))))"

text \<open>\<open>to_lowercase\<close> of the role only matters for the word \<open>replica\<close>, whose letters no other character lowers to.\<close>

definition parse_or :: "u64 \<Rightarrow> string option \<Rightarrow> u64" where
  "parse_or dflt var = (case Option.bind var parse_u64 of Some n \<Rightarrow> n | None \<Rightarrow> dflt)"

text \<open>A \<open>u32\<close> is parsed like a \<open>u64\<close>, with its own bound.\<close>

type_synonym u32 = "32 word"

definition parse_u32_or :: "u32 \<Rightarrow> string option \<Rightarrow> u32" where
  "parse_u32_or dflt var =
     (case Option.bind var parse_u64 of Some n \<Rightarrow> if unat n < 2 ^ 32 then ucast n else dflt | None \<Rightarrow> dflt)"

definition env_flag :: "string list \<Rightarrow> string option \<Rightarrow> bool option" where
  "env_flag words var = map_option (\<lambda>v. map ascii_lower (trim v) \<in> set words) var"

record server_settings =
  bind_address :: string
  store_path :: string
  wal_path :: string
  snapshots_dir :: string
  server_snapshot_interval :: u64
  server_ttl_interval :: u64
  server_api_key :: "string option"
  lua_allowed :: bool
  lua_max_bytes :: u64
  max_payload_bytes :: u64
  workers :: u64
  max_connections :: u64
  server_max_memory :: u64
  cors_origin :: "string option"
  rate_limit_enabled :: bool
  rate_limit_per_second :: u64
  rate_limit_burst :: u32
  is_replica :: bool
  server_master_url :: "string option"
  server_replica_id :: string
  poll_interval :: u64
  replication_secret :: "string option"
  notifications :: bool

definition settings_from_env :: "(string \<Rightarrow> string option) \<Rightarrow> server_settings" where
  "settings_from_env var =
     (let or_else = (\<lambda>name dflt. case var name of Some v \<Rightarrow> v | None \<Rightarrow> dflt);
          address = or_else ''KV_BIND'' ''127.0.0.1:8080''
      in \<lparr>bind_address = address,
          store_path = or_else ''KV_STORE_PATH'' ''server_store.json'',
          wal_path = or_else ''KV_WAL_PATH'' ''server.wal'',
          snapshots_dir = or_else ''KV_SNAPSHOTS_DIR'' ''snapshots'',
          server_snapshot_interval = parse_or 0 (var ''KV_SNAPSHOT_INTERVAL_SECS''),
          server_ttl_interval = parse_or 0 (var ''KV_TTL_CLEANUP_INTERVAL_SECS''),
          server_api_key = (case var ''KV_API_KEY'' of Some v \<Rightarrow> if v = [] then None else Some v | None \<Rightarrow> None),
          lua_allowed = (case env_flag [''0'', ''false'', ''no''] (var ''KV_ENABLE_LUA'') of Some off \<Rightarrow> \<not> off | None \<Rightarrow> True),
          lua_max_bytes = parse_or (16 * 1024) (var ''KV_MAX_LUA_SCRIPT_BYTES''),
          max_payload_bytes = parse_or (16 * 1024 * 1024) (var ''KV_MAX_PAYLOAD_BYTES''),
          workers = parse_or 0 (var ''KV_WORKERS''),
          max_connections = parse_or 25000 (var ''KV_MAX_CONNECTIONS''),
          server_max_memory = parse_or (of_nat (max_memory_bytes default_config)) (var ''KV_MAX_MEMORY_BYTES''),
          cors_origin = var ''KV_CORS_ORIGIN'',
          rate_limit_enabled = (case env_flag [''0'', ''false'', ''no''] (var ''KV_RATE_LIMIT_ENABLED'') of Some off \<Rightarrow> \<not> off | None \<Rightarrow> True),
          rate_limit_per_second = max 1 (parse_or 50 (var ''KV_RATE_LIMIT_PER_SECOND'')),
          rate_limit_burst = max 1 (parse_u32_or 100 (var ''KV_RATE_LIMIT_BURST'')),
          is_replica = (map ascii_lower (or_else ''KV_NODE_ROLE'' ''master'') = ''replica''),
          server_master_url = var ''KV_MASTER_URL'',
          server_replica_id = or_else ''KV_REPLICA_ID'' (''replica-'' @ map (\<lambda>c. if c = CHR '':'' then CHR ''-'' else c) address),
          poll_interval = parse_or 5 (var ''KV_REPLICATION_POLL_INTERVAL''),
          replication_secret = var ''KV_REPLICATION_SECRET'',
          notifications = (env_flag [''1'', ''true'', ''yes''] (var ''KV_KEYSPACE_NOTIFICATIONS'') = Some True)\<rparr>)"

subsection \<open>Start-up and shutdown\<close>

definition load_or_new :: "codec \<Rightarrow> string \<Rightarrow> disk \<Rightarrow> kv_store" where
  "load_or_new C path d =
     (if hm_get d path = None then kv_new
      else case load_from_file C path d of Some loaded \<Rightarrow> loaded | None \<Rightarrow> kv_new)"

definition server_config :: "server_settings \<Rightarrow> store_config" where
  "server_config cfg = default_config\<lparr>max_memory_bytes := unat (server_max_memory cfg)\<rparr>"

definition start_store ::
  "server_settings \<Rightarrow> codec \<Rightarrow> disk \<Rightarrow> (kv_store \<Rightarrow> string + kv_store) \<Rightarrow> string + kv_store" where
  "start_store cfg C d replay =
     (case replay (set_config (server_config cfg) (load_or_new C (store_path cfg) d)) of
        Inl e \<Rightarrow> Inl (''WAL replay failed: '' @ e)
      | Inr s \<Rightarrow> Inr (if notifications cfg then set_keyspace_notifications_enabled True s else s))"

definition shutdown_save :: "server_settings \<Rightarrow> codec \<Rightarrow> io \<Rightarrow> nat \<Rightarrow> u64 \<Rightarrow> kv_store \<Rightarrow> disk \<Rightarrow> bool \<times> disk" where
  "shutdown_save cfg C io t epoch s d = save_with_version C io t epoch (store_path cfg) 5 s d"

subsection \<open>Background tasks: one tick each\<close>

definition ttl_cleanup_tick :: "u64 \<Rightarrow> 'w server \<Rightarrow> nat \<times> 'w server" where
  "ttl_cleanup_tick now sv =
     (let (expired, s) = cleanup_expired now (sv_store sv); sv1 = sv\<lparr>sv_store := s\<rparr>
      in (expired, if expired > 0 then publish_keyspace_events now sv1 else sv1))"

definition snapshot_tick ::
  "pitr_env \<Rightarrow> string option \<Rightarrow> nat \<Rightarrow> u64 \<Rightarrow> wal_entry list result \<Rightarrow> kv_store \<Rightarrow> disk \<Rightarrow> snapshot_metadata result \<times> disk" where
  "snapshot_tick P nonce mtime ts read_log s d = create_snapshot P nonce mtime ts read_log s d"

text \<open>
  The tasks \<open>main\<close> spawns, with their periods in seconds. Two are spawned only for a positive
  period; the replica's has no such guard.
\<close>

datatype background_task = SnapshotEvery u64 | CleanupEvery u64 | SyncEvery u64

definition background_tasks :: "server_settings \<Rightarrow> background_task list" where
  "background_tasks cfg =
     (if server_snapshot_interval cfg > 0 then [SnapshotEvery (server_snapshot_interval cfg)] else [])
     @ (if server_ttl_interval cfg > 0 then [CleanupEvery (server_ttl_interval cfg)] else [])
     @ (if is_replica cfg then [SyncEvery (poll_interval cfg)] else [])"

subsection \<open>The whole start-up\<close>

text \<open>
  How \<open>main\<close> comes up: a panic, an error return, or a store with the role's half of replication. The
  outcomes of opening the log and the snapshot directory are arguments, as are the replay and the
  second reading of the log by \<open>ReplicationReplica::new\<close>.
\<close>

datatype 'w start_outcome = Panicked string | Failed string | Running kv_store "master option" "'w replica option"

definition start_server ::
  "server_settings \<Rightarrow> codec \<Rightarrow> disk \<Rightarrow> string option \<Rightarrow> string option \<Rightarrow> (kv_store \<Rightarrow> string + kv_store) \<Rightarrow>
   wal_entry list result \<Rightarrow> 'w \<Rightarrow> 'w start_outcome" where
  "start_server cfg C d log_failure dir_failure replay read_log w =
     (if is_replica cfg \<and> server_master_url cfg = None then Panicked ''Missing KV_MASTER_URL for replica''
      else case log_failure of Some e \<Rightarrow> Panicked (''WAL initialization failed: '' @ e) | None \<Rightarrow>
      case dir_failure of Some e \<Rightarrow> Panicked (''PITR initialization failed: '' @ e) | None \<Rightarrow>
      case start_store cfg C d replay of Inl e \<Rightarrow> Failed e | Inr s \<Rightarrow>
      if is_replica cfg then
        (case replica_new read_log s w of
           Inl e \<Rightarrow> Panicked (''Replication replica initialization failed: '' @ show_error e)
         | Inr r \<Rightarrow> Running s None (Some r))
      else Running s (Some (master_new 30 (replication_secret cfg))) None)"

subsection \<open>What every worker serves\<close>

text \<open>
  The application that \<open>HttpServer::new\<close> builds for each worker: its middleware and the data its
  handlers are given. What actix, actix-cors and actix-governor do with a value is theirs.
\<close>

datatype cors_policy =
    CorsPermissive
  | CorsAllow string "string list" "string list" nat
  | CorsDefault

definition cors_for :: "string option \<Rightarrow> cors_policy" where
  "cors_for origin =
     (case origin of
        Some orig \<Rightarrow>
          if orig = ''*'' then CorsPermissive
          else CorsAllow orig [''GET'', ''POST'', ''PUT'', ''DELETE''] [''content-type'', ''authorization'', ''x-api-key''] 3600
      | None \<Rightarrow> CorsDefault)"

text \<open>The limiter is permissive when it is off, so that the middleware can always be wrapped.\<close>

record rate_limiter =
  per_second :: u64
  burst_size :: u32
  permissive :: bool

definition governor_for :: "server_settings \<Rightarrow> rate_limiter" where
  "governor_for cfg = \<lparr>per_second = rate_limit_per_second cfg, burst_size = rate_limit_burst cfg,
     permissive = (\<not> rate_limit_enabled cfg)\<rparr>"

record 'w server_app =
  app_cors :: cors_policy
  app_limiter :: rate_limiter
  default_headers :: "(string \<times> string) list"
  payload_limit :: u64
  app_api_key :: "string option"
  app_lua_enabled :: bool
  app_max_script_bytes :: u64
  app_master :: "master option"
  app_replica :: "'w replica option"

definition build_app :: "server_settings \<Rightarrow> master option \<Rightarrow> 'w replica option \<Rightarrow> 'w server_app" where
  "build_app cfg m r =
     \<lparr>app_cors = cors_for (cors_origin cfg), app_limiter = governor_for cfg,
      default_headers = [(''X-Content-Type-Options'', ''nosniff''), (''X-Frame-Options'', ''DENY''),
        (''X-XSS-Protection'', ''1; mode=block''), (''Cache-Control'', ''no-store'')],
      payload_limit = max_payload_bytes cfg,
      app_api_key = server_api_key cfg, app_lua_enabled = lua_allowed cfg, app_max_script_bytes = lua_max_bytes cfg,
      app_master = m, app_replica = r\<rparr>"

text \<open>The connection limit, and the number of workers if one is set (else actix takes the processors').\<close>

definition server_limits :: "server_settings \<Rightarrow> u64 \<times> u64 option" where
  "server_limits cfg = (max_connections cfg, if workers cfg > 0 then Some (workers cfg) else None)"

text \<open>The signals that \<open>shutdown_signal\<close> waits for; a process killed in another way saves nothing.\<close>

datatype os_signal = Sigterm | Sigint | CtrlC | CtrlBreak | OtherSignal

definition shutdown_signal :: "bool \<Rightarrow> os_signal \<Rightarrow> bool" where
  "shutdown_signal unix sig \<longleftrightarrow> (if unix then sig \<in> {Sigterm, Sigint} else sig \<in> {CtrlC, CtrlBreak})"

definition on_signal ::
  "server_settings \<Rightarrow> codec \<Rightarrow> io \<Rightarrow> nat \<Rightarrow> u64 \<Rightarrow> bool \<Rightarrow> os_signal \<Rightarrow> kv_store \<Rightarrow> disk \<Rightarrow> bool \<times> disk" where
  "on_signal cfg C io t epoch unix sig s d =
     (if shutdown_signal unix sig then (True, snd (shutdown_save cfg C io t epoch s d)) else (False, d))"

text \<open>
  \<open>finish\<close> of the limiter's builder returns \<open>None\<close>, on which \<open>main\<close> panics, exactly when a rate is zero:
  no environment gives one. An API key that is set is never empty.
\<close>

lemma rate_limits_positive:
  "per_second (governor_for (settings_from_env var)) > 0" "burst_size (governor_for (settings_from_env var)) > 0"
  by (simp_all add: governor_for_def settings_from_env_def Let_def less_max_iff_disj)

lemma api_key_not_empty: "server_api_key (settings_from_env var) \<noteq> Some []"
  by (simp add: settings_from_env_def Let_def split: option.splits)


subsection \<open>The tasks and the invariant\<close>

lemma ttl_cleanup_tick_inv: "server_inv sv \<Longrightarrow> server_inv (snd (ttl_cleanup_tick now sv))"
  using publishing_inv[of "(ok_body [], sv\<lparr>sv_store := snd (cleanup_expired now (sv_store sv))\<rparr>)" now]
  by (auto simp: ttl_cleanup_tick_def publishing_def split_beta Let_def store_update_inv operation_invs server_invD)

lemma start_store_inv:
  assumes "start_store cfg C d replay = Inr s" "kv_inv (load_or_new C (store_path cfg) d)"
    "\<And>u t. kv_inv u \<Longrightarrow> replay u = Inr t \<Longrightarrow> kv_inv t"
  shows "kv_inv s"
proof -
  obtain t where t: "replay (set_config (server_config cfg) (load_or_new C (store_path cfg) d)) = Inr t"
    "s = (if notifications cfg then set_keyspace_notifications_enabled True t else t)"
    using assms(1) by (auto simp: start_store_def split: sum.splits)
  from assms(3)[OF _ t(1)] assms(2) have "kv_inv t" by (simp add: config_steps_inv)
  with t(2) show ?thesis by (simp add: config_steps_inv)
qed

text \<open>
  A server that comes up has a well-formed store and exactly one role; a replica shares the store and
  resumes after the entries of its own log, whatever the loaded store already held.
\<close>

lemma started_server:
  assumes "start_server cfg C d log_failure dir_failure replay read_log w = Running s m r"
    "kv_inv (load_or_new C (store_path cfg) d)" "\<And>u t. kv_inv u \<Longrightarrow> replay u = Inr t \<Longrightarrow> kv_inv t"
  shows "kv_inv s \<and> (if is_replica cfg then m = None \<and> server_master_url cfg \<noteq> None
      \<and> (\<exists>es r'. read_log = Inr es \<and> r = Some r' \<and> rp_store r' = s \<and> last_applied_index r' = of_nat (length es)
           \<and> applied_entry_timestamps r' = {})
    else r = None \<and> m = Some (master_new 30 (replication_secret cfg)))"
proof -
  have "start_store cfg C d replay = Inr s"
    using assms(1) by (simp add: start_server_def split: if_splits option.splits sum.splits)
  from start_store_inv[OF this assms(2,3)] have inv: "kv_inv s" .
  show ?thesis
    using assms(1) inv
    by (cases read_log) (auto simp: start_server_def replica_new_def split: if_splits option.splits sum.splits)
qed

text \<open>Only the replica's task can have period zero, for which \<open>tokio::time::interval\<close> panics.\<close>

lemma zero_period_is_the_sync_task:
  "SnapshotEvery p \<in> set (background_tasks cfg) \<or> CleanupEvery p \<in> set (background_tasks cfg) \<Longrightarrow> p > 0"
  "is_replica cfg \<Longrightarrow> poll_interval cfg = 0 \<Longrightarrow> SyncEvery 0 \<in> set (background_tasks cfg)"
  by (auto simp: background_tasks_def split: if_splits)

lemma shutdown_then_load:
  assumes "io_works io" "reads_back C (image_of s)"
  shows "load_or_new C (store_path cfg) (snd (shutdown_save cfg C io t epoch s d)) = restore (image_of s)"
proof -
  have "decode C c (encode C c (image_of s)) = Some (image_of s)" for c
    using assms(2) unfolding reads_back_def by blast
  then show ?thesis
    using save_with_version_target[of C io t epoch "store_path cfg" 5 s d] save_works[OF assms(1)]
    by (simp add: load_or_new_def shutdown_save_def load_from_file_def)
qed

text \<open>A handled signal leaves the store for the next start; after any other the next start loads the old file.\<close>

lemma signal_then_load:
  assumes "io_works io" "reads_back C (image_of s)"
  shows "load_or_new C (store_path cfg) (snd (on_signal cfg C io t epoch unix sig s d)) =
    (if shutdown_signal unix sig then restore (image_of s) else load_or_new C (store_path cfg) d)"
  using shutdown_then_load[OF assms] by (simp add: on_signal_def)

text \<open>Every worker of a server that came up is given its one role.\<close>

lemma app_has_one_role:
  assumes "start_server cfg C d log_failure dir_failure replay read_log w = Running s m r"
  shows "(app_master (build_app cfg m r) = None) = is_replica cfg" "(app_replica (build_app cfg m r) = None) = (\<not> is_replica cfg)"
  using assms by (auto simp: build_app_def start_server_def split: if_splits option.splits sum.splits)

subsection \<open>Properties\<close>


subsection \<open>Concrete instances\<close>

definition push_and_incr :: wal_codec where
  "push_and_incr = \<lparr>to_json = (\<lambda>e. Inl ''unused''),
     from_json = (\<lambda>t. if t = ''{a}'' then Some \<lparr>timestamp = 1, operation = WalLPush ''l'' [''x'']\<rparr>
                     else if t = ''{b}'' then Some \<lparr>timestamp = 2, operation = WalIncr ''n''\<rparr> else None)\<rparr>"

definition log_file :: string where "log_file = ''{a}'' @ nl # ''{b}'' @ [nl]"

definition list_and_counter :: kv_store where
  "list_and_counter = kv_new\<lparr>store := [(''l'', \<lparr>entry_value = VList [''x''], expires_at = None\<rparr>),
     (''n'', \<lparr>entry_value = VInt 1, expires_at = None\<rparr>)]\<rparr>"

lemma log_file_reads:
  "wal_read_all text_lib None push_and_incr (Some log_file) =
     Inr [\<lparr>timestamp = 1, operation = WalLPush ''l'' [''x'']\<rparr>, \<lparr>timestamp = 2, operation = WalIncr ''n''\<rparr>]"
proof -
  have "file_lines log_file = [''{a}'', ''{b}'']"
    using file_lines_line[of "''{a}''" "''{b}'' @ [nl]"] file_lines_line[of "''{b}''" "[]"]
    by (simp add: log_file_def nl_def strip_cr_def cr_def)
  moreover have "utf8_ok ''{a}''" "utf8_ok ''{b}''" "\<not> is_blank ''{a}''" "\<not> is_blank ''{b}''" by code_simp+
  moreover have "decrypt text_lib None ''{a}'' = Inr ''{a}''" "decrypt text_lib None ''{b}'' = Inr ''{b}''"
    using brace_lines by (simp_all add: decrypt_def)
  ultimately show ?thesis by (simp add: wal_read_all_def push_and_incr_def del: utf8_ok.simps)
qed


end
