(* ===== verification/Crash_Recovery.thy ===== *)
theory Crash_Recovery
  imports Server_Main
begin

section \<open>A crash and the restart after it\<close>

text \<open>
  The handlers over the log file itself: each appends the bytes of its entry, encrypted or not, to the
  file that the next start reads. What a crash at any moment leaves is the saved store of the last
  start, the file, and perhaps part of one more line. A request is durable when its entry's effect
  depends on no clock: every time-free request, and a SET without a TTL.
\<close>

definition durable_op :: "'f runtime \<Rightarrow> request \<Rightarrow> wal_operation option" where
  "durable_op R req =
     (case req of RSet k v None \<Rightarrow> Some (WalSet k (json_of_value R (VStr v)) None) | _ \<Rightarrow> op_of req)"

lemma durable_op_simps[simp]:
  "durable_op R (RSet k v None) = Some (WalSet k (json_of_value R (VStr v)) None)"
  "durable_op R (RSet k v (Some ttl)) = None" "\<not> is_set req \<Longrightarrow> durable_op R req = op_of req"
  by (simp_all add: durable_op_def) (cases req; simp)

text \<open>With a log of any kind: a request not answered 500 has appended its entry.\<close>

lemma handle_durable_set:
  assumes "quiet (sv_store sv)" "require_api_key (api_key cx) h = None" "strings_read_back (rt cx)"
    "handle cx h (RSet k v None) sv = (r, sv')" "status r = 200"
  shows "quiet (sv_store sv') \<and> log cx (WalSet k (json_of_value (rt cx) (VStr v)) None) (sv_wal sv) = (Inr (), sv_wal sv')
    \<and> replay_op (rt cx) t (sv_store sv) (WalSet k (json_of_value (rt cx) (VStr v)) None) = Inr (sv_store sv')"
proof -
  let ?op = "WalSet k (json_of_value (rt cx) (VStr v)) None"
  obtain x w where lg: "log cx ?op (sv_wal sv) = (x, w)" by fastforce
  have x: "x = Inr ()"
    using assms(2,4,5) lg by (cases x) (auto simp: api_set_value_def guarded_def logged_first_def internal_error_def)
  let ?set = "kv_set (clock_now cx) (sv_store sv) k (VStr v)"
  let ?resp = "respond (\<lambda>_. ok_body (''Set '' @ quoted k @ '' successfully'')) ?set (sv\<lparr>sv_wal := w\<rparr>)"
  have q: "quiet (sv_store (snd ?resp))" using assms(1) by (simp add: respond_def quiet_set)
  have r: "r = fst ?resp" "sv' = snd ?resp"
    using assms(2,4) lg x quiet_publish[OF q] by (auto simp: api_set_value_def guarded_def logged_first_def publishing_def)
  with assms(5) respond_status obtain u where "fst ?set = Inr u" by blast
  moreover have "kv_set t (sv_store sv) k (VStr v) = ?set" using quiet_set_clock[OF assms(1)] by blast
  ultimately have "replay_op (rt cx) t (sv_store sv) ?op = Inr (snd ?set)"
    using assms(3) by (cases ?set) (simp add: strings_read_back_def)
  then show ?thesis using q lg x unfolding r by (simp add: respond_def del: replay_op.simps)
qed

lemma handle_durable:
  assumes "quiet (sv_store sv)" "require_api_key (api_key cx) h = None" "durable_op (rt cx) req = Some op"
    "strings_read_back (rt cx)" "handle cx h req sv = (r, sv')" "status r \<noteq> 500" "is_set req \<Longrightarrow> status r = 200"
  shows "quiet (sv_store sv') \<and> log cx op (sv_wal sv) = (Inr (), sv_wal sv')
    \<and> replay_op (rt cx) t (sv_store sv) op = Inr (sv_store sv')"
proof (cases "is_set req")
  case True
  then obtain k v ttl where req: "req = RSet k v ttl" by (cases req) auto
  with assms(3) have "ttl = None" "op = WalSet k (json_of_value (rt cx) (VStr v)) None" by (cases ttl; simp)+
  with req handle_durable_set[OF assms(1,2,4) _ assms(7)[OF True]] assms(5) show ?thesis by simp
next
  case False
  with assms(3) have op: "op_of req = Some op" by simp
  have lg: "log cx op (sv_wal sv) = (x, w) \<Longrightarrow> x = Inr ()" for x w
    using assms(2,5,6) op False
    by (cases x; cases req) (auto simp: handler_defs guarded_def logged_first_def internal_error_def)
  obtain w where w: "log cx op (sv_wal sv) = (Inr (), w)" using lg by (metis prod.exhaust_sel)
  note ev = handler_defs guarded_def logged_first_def respond_def publishing_def quiet_publish split_beta Let_def
  have "quiet (sv_store sv') \<and> sv_wal sv' = w \<and> apply_op (rt cx) (clock_now cx) (sv_store sv) op = (fst (apply_op (rt cx) (clock_now cx) (sv_store sv) op), sv_store sv')"
    using assms(2,5) op w False quiet_ops[OF assms(1)]
    by (cases req) (auto simp: ev unit_result_def ignored_def)
  moreover have "replay_op (rt cx) t (sv_store sv) op = Inr (snd (apply_op (rt cx) t (sv_store sv) op))"
    using op by (cases req) (auto simp: ignored_def unit_result_def)
  ultimately show ?thesis
    using w quiet_apply_clock[OF assms(1) op, of "rt cx" t "clock_now cx"] by (metis snd_conv)
qed


subsection \<open>A run over the log file\<close>

definition file_env ::
  "string option \<Rightarrow> 'f runtime \<Rightarrow> crypto_lib \<Rightarrow> string option \<Rightarrow> wal_codec \<Rightarrow> u64 \<Rightarrow> string option \<Rightarrow> (string option, 'f) request_env" where
  "file_env key R L at_rest J now nonce = \<lparr>api_key = key, clock_now = now,
     log = (\<lambda>op. wal_append L at_rest J no_failures nonce (wal_entry_new now op)), rt = R\<rparr>"

text \<open>Each request with the clock reading and the nonce it draws.\<close>

type_synonym timed_request = "u64 \<times> string option \<times> request"

fun file_run ::
  "string option \<Rightarrow> 'f runtime \<Rightarrow> crypto_lib \<Rightarrow> string option \<Rightarrow> wal_codec \<Rightarrow> headers \<Rightarrow> timed_request list \<Rightarrow>
   string option server \<Rightarrow> response list \<times> string option server" where
  "file_run key R L at_rest J h [] sv = ([], sv)"
| "file_run key R L at_rest J h ((now, nonce, req) # rest) sv =
     (let (r, sv1) = handle (file_env key R L at_rest J now nonce) h req sv;
          (rs, sv2) = file_run key R L at_rest J h rest sv1 in (r # rs, sv2))"

text \<open>The SETs of a run were accepted, and no append failed.\<close>

definition acknowledged :: "timed_request list \<Rightarrow> response list \<Rightarrow> bool" where
  "acknowledged reqs rs \<longleftrightarrow>
     list_all2 (\<lambda>(now, nonce, req) r. status r \<noteq> 500 \<and> (is_set req \<longrightarrow> status r = 200)) reqs rs"

fun durable :: "'f runtime \<Rightarrow> timed_request \<Rightarrow> bool" where
  "durable R (now, nonce, req) \<longleftrightarrow> durable_op R req \<noteq> None \<and> (\<forall>n. nonce = Some n \<longrightarrow> length n = nonce_size)"

lemma file_run_log:
  assumes "require_api_key key h = None" "strings_read_back R"
  shows "quiet (sv_store sv) \<Longrightarrow> list_all (durable R) reqs \<Longrightarrow>
    acknowledged reqs (fst (file_run key R L at_rest J h reqs sv)) \<Longrightarrow>
    \<exists>calls. list_all nonce_ok calls \<and> map (timestamp \<circ> (\<lambda>(_, _, e). e)) calls = map fst reqs
      \<and> wal_append_all L at_rest J (sv_wal sv) calls = Some (sv_wal (snd (file_run key R L at_rest J h reqs sv)))
      \<and> (\<forall>clk. length clk = length reqs \<longrightarrow>
            replay_entries R (sv_store sv) (zip clk (map (\<lambda>(_, _, e). e) calls))
              = Inr (sv_store (snd (file_run key R L at_rest J h reqs sv))))"
proof (induction reqs arbitrary: sv)
  case (Cons nr reqs)
  obtain now nonce req where nr: "nr = (now, nonce, req)" by (cases nr)
  let ?cx = "file_env key R L at_rest J now nonce"
  obtain r sv1 where h: "handle ?cx h req sv = (r, sv1)" by fastforce
  from Cons.prems(2) nr obtain op where op: "durable_op (rt ?cx) req = Some op"
    and nonce: "\<forall>n. nonce = Some n \<longrightarrow> length n = nonce_size"
    by (auto simp: file_env_def)
  from Cons.prems(2,3) nr h have ok: "status r \<noteq> 500" "is_set req \<Longrightarrow> status r = 200" "list_all (durable R) reqs"
    "acknowledged reqs (fst (file_run key R L at_rest J h reqs sv1))"
    by (auto simp: acknowledged_def case_prod_unfold Let_def)
  have env: "api_key ?cx = key" "rt ?cx = R" "log ?cx op = wal_append L at_rest J no_failures nonce (wal_entry_new now op)"
    by (simp_all add: file_env_def)
  note step = handle_durable[OF Cons.prems(1) _ op _ h ok(1,2), unfolded env, OF assms]
  from Cons.IH[OF _ ok(3,4)] step obtain calls where calls: "list_all nonce_ok calls"
    "map (timestamp \<circ> (\<lambda>(_, _, e). e)) calls = map fst reqs"
    "wal_append_all L at_rest J (sv_wal sv1) calls = Some (sv_wal (snd (file_run key R L at_rest J h reqs sv1)))"
    "\<And>clk. length clk = length reqs \<Longrightarrow> replay_entries R (sv_store sv1) (zip clk (map (\<lambda>(_, _, e). e) calls))
       = Inr (sv_store (snd (file_run key R L at_rest J h reqs sv1)))"
    by blast
  let ?call = "(no_failures, nonce, wal_entry_new now op)"
  have "nonce_ok ?call" using nonce by (simp add: nonce_ok_def split: option.splits)
  moreover have "wal_append_all L at_rest J (sv_wal sv) (?call # calls) = wal_append_all L at_rest J (sv_wal sv1) calls"
    using step by (simp add: logged_def)
  moreover have "replay_entries R (sv_store sv) (zip clk (map (\<lambda>(_, _, e). e) (?call # calls)))
      = Inr (sv_store (snd (file_run key R L at_rest J h reqs sv1)))" if "length clk = Suc (length reqs)" for clk
    using that step calls(4) by (cases clk) (simp_all add: wal_entry_new_def del: replay_op.simps)
  ultimately show ?case
    using calls(1-3) nr h by (intro exI[of _ "?call # calls"]) (simp add: case_prod_unfold Let_def wal_entry_new_def comp_def)
qed (simp add: acknowledged_def)


lemma quiet_loaded: "quiet (set_config (server_config cfg) (load_or_new C path d))"
  by (auto simp: quiet_def set_config_def server_config_def default_config_def load_or_new_def kv_new_def with_config_def
      load_from_file_def restore_def split: option.splits)

text \<open>
  A run of durable requests over an empty log: its file reads as one entry for each request, stamped
  with the request's time, and replaying the entries on the store of the start gives the store.
\<close>

lemma durable_run:
  assumes "libs_ok L J" "strings_read_back R" "require_api_key key h = None" "quiet s0" "list_all (durable R) reqs"
    "acknowledged reqs (fst (file_run key R L at_rest J h reqs \<lparr>sv_store = s0, sv_wal = Some [], sv_pubsub = pubsub_new\<rparr>))"
  defines "out \<equiv> file_run key R L at_rest J h reqs \<lparr>sv_store = s0, sv_wal = Some [], sv_pubsub = pubsub_new\<rparr>"
  obtains content es where "sv_wal (snd out) = Some content" "terminated content"
    "wal_read_all L at_rest J (Some content) = Inr es" "map timestamp es = map fst reqs"
    "\<And>clk. length clk = length es \<Longrightarrow> replay_entries R s0 (zip clk es) = Inr (sv_store (snd out))"
proof -
  let ?sv = "\<lparr>sv_store = s0, sv_wal = Some [], sv_pubsub = pubsub_new\<rparr>"
  from file_run_log[OF assms(3,2) _ assms(5,6)] assms(4) obtain calls where
    calls: "list_all nonce_ok calls" "map (timestamp \<circ> (\<lambda>(_, _, e). e)) calls = map fst reqs"
    "wal_append_all L at_rest J (Some []) calls = Some (sv_wal (snd out))"
    "\<And>clk. length clk = length reqs \<Longrightarrow>
       replay_entries R s0 (zip clk (map (\<lambda>(_, _, e). e) calls)) = Inr (sv_store (snd out))"
    unfolding out_def by auto
  have len: "length calls = length reqs" using arg_cong[OF calls(2), of length] by simp
  have good: "good_file L J (Some [])" "read_back L at_rest J (Some []) = Some []"
    using assms(1) by (simp_all add: good_file_def terminated_def read_back_def wal_read_all_def)
  from wal.append_all_reads[OF good(1) calls(1) good(2)] calls(3)
  have "read_back L at_rest J (sv_wal (snd out)) = Some (map (\<lambda>(_, _, e). e) calls)" "good_file L J (sv_wal (snd out))"
    by (simp_all add: wal_append_all_eq)
  then obtain content where "sv_wal (snd out) = Some content" "terminated content"
    "wal_read_all L at_rest J (Some content) = Inr (map (\<lambda>(_, _, e). e) calls)"
    by (auto simp: good_file_def read_back_def split: sum.splits)
  from that[OF this] calls(2,4) len show ?thesis by simp
qed

subsection \<open>Properties\<close>


text \<open>Half an encrypted line blocks the start. When the line that a crash cut off cannot be decrypted,
  reading the log fails as a whole and the server refuses to start, whatever entries precede it.\<close>

theorem torn_encrypted_line_blocks_restart:
  assumes "terminated content" "wal_read_all L at_rest J (Some content) = Inr es"
    "nl \<notin> set torn" "torn \<noteq> []" "utf8_ok torn" "\<not> is_blank torn" "decrypt L at_rest torn = Inl e"
  shows "\<exists>n. start_store cfg C d (replay_wal R L at_rest J clock (Some (content @ torn)))
    = Inl (''WAL replay failed: '' @ show_error (OperationFailed (''Failed to decrypt WAL line '' @ show_nat n @ '': '' @ e)))"
proof -
  have "file_lines (content @ torn) = file_lines content @ [torn]"
    using file_lines_append[OF assms(1)] file_lines_last[OF assms(3,4)] by simp
  then have "\<exists>n. wal_read_all L at_rest J (Some (content @ torn))
      = Inl (OperationFailed (''Failed to decrypt WAL line '' @ show_nat n @ '': '' @ e))"
    using read_lines_append[of L at_rest J 0 "file_lines content" es "[torn]"] assms(2,5-7)
    by (auto simp: wal_read_all_def)
  then show ?thesis by (auto simp: start_store_def replay_wal_def)
qed

text \<open>C40: A restart renews every TTL. A SET with a TTL is readable until \<open>now + ttl\<close>. Its entry holds the TTL,
  and the replay counts it from the time of the replay, though the entry's own time is in the log:
  after a restart at \<open>t\<close> the key is readable until \<open>t + ttl\<close>, even if it had long expired.\<close>

theorem restart_renews_ttl:
  fixes R :: "'f runtime" and now t ttl :: u64 and sv :: "ideal_log server" and key :: "string option" and h :: headers
    and k v :: string
  assumes "require_api_key key h = None" "strings_read_back R" "accepts (sv_store sv) k (VStr v)"
    "fits (sv_store sv) (VStr v)" "ttl \<noteq> 0" "unat now + unat ttl < 2 ^ 64" "unat t + unat ttl < 2 ^ 64"
  defines "put \<equiv> handle (env_at key R now) h (RSet k v (Some ttl)) sv"
  shows "status (fst put) = 200
    \<and> (\<forall>u. kv_get u (sv_store (snd put)) k = (if u \<le> now + ttl then Some (VStr v) else None))
    \<and> (\<exists>e. sv_wal (snd put) = sv_wal sv @ [(now, e)] \<and> timestamp e = now
        \<and> (\<forall>s. accepts s k (VStr v) \<and> fits s (VStr v) \<longrightarrow>
              (\<exists>s'. replay_entries R s [(t, e)] = Inr s'
                 \<and> (\<forall>u. kv_get u s' k = (if u \<le> t + ttl then Some (VStr v) else None)))))"
proof -
  have life: "fst (kv_set_with_ttl n s k (VStr v) ttl) = Inr ()
      \<and> kv_get u (snd (kv_set_with_ttl n s k (VStr v) ttl)) k = (if u \<le> n + ttl then Some (VStr v) else None)"
    if "accepts s k (VStr v)" "fits s (VStr v)" "unat n + unat ttl < 2 ^ 64" for n s u
    using that(3) fun_cong[OF kv_get_set_with_ttl[OF that(1,2), of u n ttl], of k]
    by (auto simp: kv_set_with_ttl_accepts[OF that(1)] live_value_def checked_add_u64_def)
  let ?e = "wal_entry_new now (WalSet k (json_of_value R (VStr v)) (Some ttl))"
  note ev = api_set_value_def guarded_def env_at_def logged_first_def ideal_append_def publishing_def respond_def
  have "status (fst put) = 200" "sv_wal (snd put) = sv_wal sv @ [(now, ?e)]"
    "kv_get u (sv_store (snd put)) k = (if u \<le> now + ttl then Some (VStr v) else None)" for u
    using assms(1,5) life[OF assms(3,4,6), of u] unfolding put_def
    by (simp_all add: ev publish_keyspace_events_def drain_keyspace_events_def split_beta kv_get_def ok_body_def)
  moreover have "\<exists>s'. replay_entries R s [(t, ?e)] = Inr s' \<and> (\<forall>u. kv_get u s' k = (if u \<le> t + ttl then Some (VStr v) else None))"
    if "accepts s k (VStr v)" "fits s (VStr v)" for s
    using life[OF that assms(7)] assms(2) unfolding strings_read_back_def
    by (cases "kv_set_with_ttl t s k (VStr v) ttl") (simp add: wal_entry_new_def)
  ultimately show ?thesis by (auto simp: wal_entry_new_def simp del: replay_entries.simps)
qed


subsection \<open>Concrete crashes\<close>

definition push_codec :: wal_codec where
  "push_codec = \<lparr>to_json = (\<lambda>e. if e = \<lparr>timestamp = 1, operation = WalLPush ''l'' [''x'']\<rparr> then Inr ''{a}'' else Inl ''unsupported''),
     from_json = (\<lambda>t. if t = ''{a}'' then Some \<lparr>timestamp = 1, operation = WalLPush ''l'' [''x'']\<rparr> else None)\<rparr>"

lemma push_codec_ok: "libs_ok text_lib push_codec"
  by (auto simp: libs_ok_def text_lib_ok wal_codec_ok_def push_codec_def brace_lines split: if_splits)


theorem torn_encrypted_line_blocks_restart_witness:
  "\<forall>F C. \<exists>n. start_store (settings_from_env (\<lambda>_. None)) C []
      (replay_wal (toy_runtime F) toy_lib (Some (replicate 32 CHR ''k'')) push_codec (\<lambda>_. 9) (Some ([] @ enc_prefix @ ''ab'')))
    = Inl (''WAL replay failed: '' @ show_error (OperationFailed (''Failed to decrypt WAL line '' @ show_nat n @ '': '' @ ''invalid encrypted data'')))"
proof (intro allI)
  fix F C
  let ?t = "enc_prefix @ ''ab''" and ?key = "Some (replicate 32 CHR ''k'')"
  have a: "nl \<notin> set ?t" "?t \<noteq> []" "utf8_ok ?t" "\<not> is_blank ?t" "starts_with enc_prefix ?t"
    "drop (length enc_prefix) ?t = ''ab''" "\<not> is_blank (replicate 32 CHR ''k'')" by code_simp+
  have "key_from_env toy_lib ?key = Inr (Some (replicate 32 CHR ''k''))"
    using a(7) by (simp add: key_from_env_def toy_lib_def)
  then have d: "decrypt toy_lib ?key ?t = Inl ''invalid encrypted data''"
    using a(5,6) by (simp add: decrypt_def toy_lib_def nonce_size_def)
  have "terminated []" "wal_read_all toy_lib ?key push_codec (Some []) = Inr []"
    by (simp_all add: terminated_def wal_read_all_def)
  from torn_encrypted_line_blocks_restart[OF this a(1-4) d]
  show "\<exists>n. start_store (settings_from_env (\<lambda>_. None)) C []
      (replay_wal (toy_runtime F) toy_lib ?key push_codec (\<lambda>_. 9) (Some ([] @ ?t)))
    = Inl (''WAL replay failed: '' @ show_error (OperationFailed (''Failed to decrypt WAL line '' @ show_nat n @ '': '' @ ''invalid encrypted data'')))"
    by blast
qed

theorem restart_renews_ttl_witness:
  "\<forall>F. \<exists>e s'. sv_wal (snd (handle (env_at None (toy_runtime F) 5) no_headers (RSet ''k'' ''v'' (Some 10)) started)) = [(5, e)]
    \<and> kv_get 100 (sv_store (snd (handle (env_at None (toy_runtime F) 5) no_headers (RSet ''k'' ''v'' (Some 10)) started))) ''k'' = None
    \<and> replay_entries (toy_runtime F) kv_new [(95, e)] = Inr s' \<and> kv_get 100 s' ''k'' = Some (VStr ''v'')"
proof
  fix F
  have a: "accepts (sv_store started) ''k'' (VStr ''v'')" "fits (sv_store started) (VStr ''v'')"
    by (simp_all add: accepts_def fits_def kv_new_def with_config_def default_config_def validate_key_def
        validate_value_def in_transaction_def config_default_defs default_stats_def)
  then have b: "accepts kv_new ''k'' (VStr ''v'')" "fits kv_new (VStr ''v'')" by simp_all
  have w: "(10 :: u64) \<noteq> 0" "unat (5 :: u64) + unat (10 :: u64) < 2 ^ 64" "unat (95 :: u64) + unat (10 :: u64) < 2 ^ 64"
    "\<not> (100 :: u64) \<le> 5 + 10" "(100 :: u64) \<le> 95 + 10" by simp_all
  show "\<exists>e s'. sv_wal (snd (handle (env_at None (toy_runtime F) 5) no_headers (RSet ''k'' ''v'' (Some 10)) started)) = [(5, e)]
    \<and> kv_get 100 (sv_store (snd (handle (env_at None (toy_runtime F) 5) no_headers (RSet ''k'' ''v'' (Some 10)) started))) ''k'' = None
    \<and> replay_entries (toy_runtime F) kv_new [(95, e)] = Inr s' \<and> kv_get 100 s' ''k'' = Some (VStr ''v'')"
    using restart_renews_ttl[OF started_facts(1) toy_runtime_reads[of F] a w(1-3)] b w(4,5)
    by (auto simp del: handle.simps replay_entries.simps)
qed

end
