(* ===== verification/Concurrent_Log.thy ===== *)
theory Concurrent_Log
  imports Crash_Recovery "HOL-Library.Multiset"
begin

section \<open>Concurrent handlers over one log file\<close>

text \<open>
  The server's workers run handlers side by side. A writing handler makes three separate effects: it
  writes the line of its entry to the log (\<open>Wal::append\<close> opens the file for itself and holds no lock),
  then the newline, and then, under the store's write lock, everything else. Here each is one atomic
  step of a client, and clients interleave. With \<open>locked\<close> a line is only begun when no other is open,
  as under a mutex in \<open>append\<close>; the program is the relation without it.
\<close>

definition logged_op :: "'f runtime \<Rightarrow> request \<Rightarrow> wal_operation option" where
  "logged_op R req =
     (case req of
        RSet k v ttl \<Rightarrow> if ttl = Some 0 then None else Some (WalSet k (json_of_value R (VStr v)) ttl)
      | RExpire k ttl \<Rightarrow> if ttl = 0 then None else Some (WalExpire k ttl)
      | RGetSet k v \<Rightarrow> Some (WalGetSet k v)
      | RMset ps \<Rightarrow> Some (WalMset ps)
      | _ \<Rightarrow> op_of req)"

text \<open>What a handler does after its append: the same handler over a log that is already written.\<close>

definition after_append :: "string option \<Rightarrow> 'f runtime \<Rightarrow> u64 \<Rightarrow> ('w, 'f) request_env" where
  "after_append key R now = \<lparr>api_key = key, clock_now = now, log = (\<lambda>op w. (Inr (), w)), rt = R\<rparr>"

lemma handler_halves:
  assumes "require_api_key (api_key cx) h = None" "logged_op (rt cx) req = Some op" "log cx op (sv_wal sv) = (Inr (), w)"
  shows "handle cx h req sv = handle (after_append (api_key cx) (rt cx) (clock_now cx)) h req (sv\<lparr>sv_wal := w\<rparr>)"
  using assms
  by (cases req) (auto simp: logged_op_def handler_defs guarded_def logged_first_def after_append_def
      split: if_splits option.splits cong: option.case_cong)

lemma durable_logged: "durable_op R req = Some op \<Longrightarrow> logged_op R req = Some op"
  by (cases req) (auto simp: durable_op_def logged_op_def split: option.splits)


subsection \<open>The interleaving of clients\<close>

text \<open>
  The server's log is its bytes. \<open>written\<close> lists the entries in the order their lines were begun, and a
  client in flight carries the position of its entry there; \<open>answered\<close> lists the finished requests in
  the order they took the lock, with position, clock reading and response.
\<close>

datatype phase = Idle | LineWritten nat headers request | EntryLogged nat headers request

record conc =
  csv :: "string server"
  phase_of :: "nat \<Rightarrow> phase"
  written :: "wal_entry list"
  answered :: "(nat \<times> u64 \<times> request \<times> response) list"

definition no_open_line :: "conc \<Rightarrow> bool" where
  "no_open_line s \<longleftrightarrow> (\<forall>j n h req. phase_of s j \<noteq> LineWritten n h req)"

definition line_written :: "nat \<Rightarrow> headers \<Rightarrow> request \<Rightarrow> wal_entry \<Rightarrow> string \<Rightarrow> conc \<Rightarrow> conc" where
  "line_written i h req e l s =
     s\<lparr>csv := (csv s)\<lparr>sv_wal := sv_wal (csv s) @ l\<rparr>, phase_of := (phase_of s)(i := LineWritten (length (written s)) h req),
       written := written s @ [e]\<rparr>"

definition newline_written :: "nat \<Rightarrow> nat \<Rightarrow> headers \<Rightarrow> request \<Rightarrow> conc \<Rightarrow> conc" where
  "newline_written i n h req s =
     s\<lparr>csv := (csv s)\<lparr>sv_wal := sv_wal (csv s) @ [nl]\<rparr>, phase_of := (phase_of s)(i := EntryLogged n h req)\<rparr>"

definition request_answered :: "nat \<Rightarrow> nat \<Rightarrow> u64 \<Rightarrow> request \<Rightarrow> response \<times> string server \<Rightarrow> conc \<Rightarrow> conc" where
  "request_answered i n now req out s =
     s\<lparr>csv := snd out, phase_of := (phase_of s)(i := Idle), answered := answered s @ [(n, now, req, fst out)]\<rparr>"

inductive conc_step ::
  "bool \<Rightarrow> string option \<Rightarrow> 'f runtime \<Rightarrow> crypto_lib \<Rightarrow> string option \<Rightarrow> wal_codec \<Rightarrow> conc \<Rightarrow> conc \<Rightarrow> bool"
  for locked key R L at_rest J where
  line: "phase_of s i = Idle \<Longrightarrow> (locked \<longrightarrow> no_open_line s) \<Longrightarrow> require_api_key key h = None \<Longrightarrow>
    logged_op R req = Some op \<Longrightarrow> to_json J (wal_entry_new now op) = Inr j \<Longrightarrow> encrypt L at_rest nonce j = Inr l \<Longrightarrow>
    (\<forall>n. nonce = Some n \<longrightarrow> length n = nonce_size) \<Longrightarrow>
    conc_step locked key R L at_rest J s (line_written i h req (wal_entry_new now op) l s)"
| newline: "phase_of s i = LineWritten n h req \<Longrightarrow> conc_step locked key R L at_rest J s (newline_written i n h req s)"
| answer: "phase_of s i = EntryLogged n h req \<Longrightarrow>
    conc_step locked key R L at_rest J s (request_answered i n now req (handle (after_append key R now) h req (csv s)) s)"

definition conc_start :: "kv_store \<Rightarrow> string \<Rightarrow> conc" where
  "conc_start s0 content = \<lparr>csv = \<lparr>sv_store = s0, sv_wal = content, sv_pubsub = pubsub_new\<rparr>, phase_of = (\<lambda>_. Idle),
     written = [], answered = []\<rparr>"

definition conc_reachable ::
  "bool \<Rightarrow> string option \<Rightarrow> 'f runtime \<Rightarrow> crypto_lib \<Rightarrow> string option \<Rightarrow> wal_codec \<Rightarrow> kv_store \<Rightarrow> string \<Rightarrow> conc \<Rightarrow> bool" where
  "conc_reachable locked key R L at_rest J s0 content s \<longleftrightarrow>
     (conc_step locked key R L at_rest J)\<^sup>*\<^sup>* (conc_start s0 content) s"

lemma conc_begin: "conc_reachable locked key R L at_rest J s0 content (conc_start s0 content)"
  by (simp add: conc_reachable_def)

lemma conc_then:
  "conc_reachable locked key R L at_rest J s0 content s \<Longrightarrow> conc_step locked key R L at_rest J s t \<Longrightarrow>
   conc_reachable locked key R L at_rest J s0 content t"
  by (simp add: conc_reachable_def)

text \<open>The entry that a client in flight has begun, and the request it carries.\<close>

fun position :: "phase \<Rightarrow> nat option" where
  "position Idle = None"
| "position (LineWritten n h req) = Some n"
| "position (EntryLogged n h req) = Some n"

fun carried :: "phase \<Rightarrow> (headers \<times> request) option" where
  "carried Idle = None"
| "carried (LineWritten n h req) = Some (h, req)"
| "carried (EntryLogged n h req) = Some (h, req)"

lemmas conc_defs = line_written_def newline_written_def request_answered_def


subsection \<open>Every entry is in flight or answered, once\<close>

definition positions_ok :: "nat \<Rightarrow> nat list \<Rightarrow> (nat \<Rightarrow> nat option) \<Rightarrow> bool" where
  "positions_ok w done_at pos \<longleftrightarrow>
     distinct done_at \<and> set done_at \<subseteq> {..<w}
     \<and> (\<forall>n < w. n \<in> set done_at \<or> (\<exists>i. pos i = Some n))
     \<and> (\<forall>i n. pos i = Some n \<longrightarrow> n < w \<and> n \<notin> set done_at)
     \<and> (\<forall>i j n. pos i = Some n \<longrightarrow> pos j = Some n \<longrightarrow> i = j)"

lemma positions_begin:
  assumes "positions_ok w done_at pos" "pos i = None"
  shows "positions_ok (Suc w) done_at (pos(i := Some w))"
proof -
  have "\<exists>j. (pos(i := Some w)) j = Some n" if "n < Suc w" "n \<notin> set done_at" for n
  proof (cases "n = w")
    case False
    with that have "n < w" by simp
    with assms(1) that(2) obtain j where "pos j = Some n" unfolding positions_ok_def by blast
    moreover from this assms(2) have "j \<noteq> i" by auto
    ultimately show ?thesis by (intro exI[of _ j]) simp
  qed auto
  then have "\<forall>n < Suc w. n \<in> set done_at \<or> (\<exists>j. (pos(i := Some w)) j = Some n)" by blast
  with assms show ?thesis unfolding positions_ok_def by (intro conjI) (auto simp: less_Suc_eq split: if_splits)
qed

lemma positions_end:
  assumes "positions_ok w done_at pos" "pos i = Some n"
  shows "positions_ok w (done_at @ [n]) (pos(i := None))"
proof -
  have "\<exists>j. (pos(i := None)) j = Some m" if "m < w" "m \<notin> set done_at" "m \<noteq> n" for m
  proof -
    from that(1,2) assms(1) obtain j where "pos j = Some m" unfolding positions_ok_def by blast
    with that(3) assms(2) show ?thesis by (intro exI[of _ j]) auto
  qed
  then have "\<forall>m < w. m \<in> set (done_at @ [n]) \<or> (\<exists>j. (pos(i := None)) j = Some m)" by fastforce
  with assms show ?thesis unfolding positions_ok_def by (intro conjI) (auto split: if_splits)
qed

definition position_inv :: "conc \<Rightarrow> bool" where
  "position_inv s \<longleftrightarrow> positions_ok (length (written s)) (map fst (answered s)) (position \<circ> phase_of s)"

definition request_inv :: "string option \<Rightarrow> 'f runtime \<Rightarrow> conc \<Rightarrow> bool" where
  "request_inv key R s \<longleftrightarrow>
     (\<forall>i n h req. position (phase_of s i) = Some n \<longrightarrow> carried (phase_of s i) = Some (h, req) \<longrightarrow>
        n < length (written s) \<and> require_api_key key h = None \<and> logged_op R req = Some (operation (written s ! n)))
     \<and> (\<forall>n now req r. (n, now, req, r) \<in> set (answered s) \<longrightarrow>
        n < length (written s) \<and> logged_op R req = Some (operation (written s ! n)))"

lemma position_inv_step:
  assumes "conc_step locked key R L at_rest J s t" "position_inv s"
  shows "position_inv t"
  using assms(1)
proof cases
  case (line i h req op j nonce l)
  then show ?thesis
    using positions_begin[OF assms(2)[unfolded position_inv_def], of i]
    by (simp add: position_inv_def line_written_def fun_upd_comp)
next
  case (newline i n h req)
  then have "position \<circ> phase_of t = position \<circ> phase_of s"
    by (auto simp: newline_written_def)
  with newline assms(2) show ?thesis by (simp add: position_inv_def newline_written_def)
next
  case (answer i n h req now)
  then show ?thesis
    using positions_end[OF assms(2)[unfolded position_inv_def], of i n]
    by (simp add: position_inv_def request_answered_def fun_upd_comp)
qed

lemma request_inv_step:
  assumes "conc_step locked key R L at_rest J s t" "request_inv key R s"
  shows "request_inv key R t"
  using assms(1)
proof cases
  case (line i h req op j nonce l)
  then show ?thesis
    using assms(2) by (auto simp: request_inv_def line_written_def nth_append wal_entry_new_def less_Suc_eq)
next
  case (newline i n h req)
  then have "position (phase_of s i) = Some n" "carried (phase_of s i) = Some (h, req)" by simp_all
  with assms(2) have "n < length (written s) \<and> require_api_key key h = None \<and> logged_op R req = Some (operation (written s ! n))"
    unfolding request_inv_def by blast
  with newline assms(2) show ?thesis by (auto simp: request_inv_def newline_written_def)
next
  case (answer i n h req now)
  then have "position (phase_of s i) = Some n" "carried (phase_of s i) = Some (h, req)" by simp_all
  with assms(2) have "n < length (written s) \<and> require_api_key key h = None \<and> logged_op R req = Some (operation (written s ! n))"
    unfolding request_inv_def by blast
  with answer assms(2) show ?thesis by (auto simp: request_inv_def request_answered_def)
qed


subsection \<open>Under a lock the file always holds whole entries\<close>

text \<open>The entry on the line that is being written is complete as soon as its bytes are.\<close>

definition line_of :: "crypto_lib \<Rightarrow> string option \<Rightarrow> wal_codec \<Rightarrow> wal_entry \<Rightarrow> string \<Rightarrow> bool" where
  "line_of L at_rest J e l \<longleftrightarrow> line_ok l \<and> (\<exists>j. decrypt L at_rest l = Inr j \<and> from_json J j = Some e)"

lemma line_of_appended:
  assumes "libs_ok L J" "to_json J e = Inr j" "encrypt L at_rest nonce j = Inr l"
    "\<forall>n. nonce = Some n \<longrightarrow> length n = nonce_size"
  shows "line_of L at_rest J e l"
proof -
  have "line_ok l" using assms(1) encrypt_line_ok[OF _ _ assms(2,3)] by (simp add: libs_ok_def)
  moreover have "decrypt L at_rest l = Inr j" "from_json J j = Some e"
    using assms decrypt_encrypt[of L at_rest nonce j l] by (auto simp: libs_ok_def wal_codec_ok_def)
  ultimately show ?thesis by (simp add: line_of_def)
qed

lemma read_open_line:
  assumes "terminated c" "wal_read_all L at_rest J (Some c) = Inr es" "line_of L at_rest J e l"
  shows "wal_read_all L at_rest J (Some (c @ l)) = Inr (es @ [e])"
    and "wal_read_all L at_rest J (Some (c @ l @ [nl])) = Inr (es @ [e])"
proof -
  from assms(3) obtain j where l: "line_ok l" "decrypt L at_rest l = Inr j" "from_json J j = Some e"
    by (auto simp: line_of_def)
  have "file_lines (c @ l) = file_lines c @ [l]" "file_lines (c @ l @ [nl]) = file_lines c @ [l]"
    using l(1) file_lines_append[OF assms(1)] file_lines_last[of l] file_lines_line[of l "[]"]
    by (simp_all add: line_ok_def strip_cr_def)
  moreover have "read_lines L at_rest J 0 (file_lines c @ [l]) = Inr (es @ [e])"
    using read_lines_append[of L at_rest J 0 "file_lines c" es "[l]"] read_lines_one[OF l] assms(2)
    by (simp add: wal_read_all_def)
  ultimately show "wal_read_all L at_rest J (Some (c @ l)) = Inr (es @ [e])"
    and "wal_read_all L at_rest J (Some (c @ l @ [nl])) = Inr (es @ [e])"
    by (simp_all add: wal_read_all_def)
qed

text \<open>At most one line is open, and it is the last.\<close>

definition file_inv :: "crypto_lib \<Rightarrow> string option \<Rightarrow> wal_codec \<Rightarrow> wal_entry list \<Rightarrow> conc \<Rightarrow> bool" where
  "file_inv L at_rest J es0 s \<longleftrightarrow>
     (if no_open_line s
      then terminated (sv_wal (csv s)) \<and> wal_read_all L at_rest J (Some (sv_wal (csv s))) = Inr (es0 @ written s)
      else (\<exists>c l ws e. sv_wal (csv s) = c @ l \<and> written s = ws @ [e] \<and> terminated c
              \<and> wal_read_all L at_rest J (Some c) = Inr (es0 @ ws) \<and> line_of L at_rest J e l))
     \<and> (\<forall>i j n h req n' h' req'. phase_of s i = LineWritten n h req \<longrightarrow> phase_of s j = LineWritten n' h' req' \<longrightarrow> i = j)"

lemma file_inv_reads: "file_inv L at_rest J es0 s \<Longrightarrow> wal_read_all L at_rest J (Some (sv_wal (csv s))) = Inr (es0 @ written s)"
  using read_open_line(1) by (fastforce simp: file_inv_def split: if_splits)

lemma pipeline_log_nothing[simp]: "snd (pipeline_log (\<lambda>op w. (Inr (), w)) cmds w) = w"
  by (induction cmds) (simp_all add: Let_def split_beta split: option.splits)

lemma after_append_keeps_file: "sv_wal (snd (handle (after_append key R now) h req sv)) = sv_wal sv"
  by (cases req)
     (auto simp: handler_defs guarded_def logged_first_def respond_def respond_json_def publishing_def split_beta Let_def after_append_def
       publish_keyspace_events_def internal_error_def bad_request_def split: sum.splits option.splits)

lemma file_inv_step:
  assumes "conc_step True key R L at_rest J s t" "libs_ok L J" "file_inv L at_rest J es0 s"
  shows "file_inv L at_rest J es0 t"
  using assms(1)
proof cases
  case (line i h req op now j nonce l)
  let ?e = "wal_entry_new now op"
  from line assms(3) have f: "terminated (sv_wal (csv s))"
    "wal_read_all L at_rest J (Some (sv_wal (csv s))) = Inr (es0 @ written s)" "no_open_line s"
    by (simp_all add: file_inv_def)
  have l: "line_of L at_rest J ?e l" using line_of_appended[OF assms(2)] line by blast
  have t: "\<not> no_open_line t" "sv_wal (csv t) = sv_wal (csv s) @ l" "written t = written s @ [?e]"
    using line by (auto simp: no_open_line_def line_written_def)
  have "k = i" if "phase_of t k = LineWritten n h req" for k n h req
    using line f(3) that by (auto simp: no_open_line_def line_written_def split: if_splits)
  then have "\<forall>i j n h req n' h' req'. phase_of t i = LineWritten n h req \<longrightarrow> phase_of t j = LineWritten n' h' req' \<longrightarrow> i = j"
    by metis
  then show ?thesis unfolding file_inv_def using t f(1,2) l by auto
next
  case (newline i n h req)
  then have "\<not> no_open_line s" by (auto simp: no_open_line_def)
  with assms(3) obtain c l ws e where f: "sv_wal (csv s) = c @ l" "written s = ws @ [e]" "terminated c"
    "wal_read_all L at_rest J (Some c) = Inr (es0 @ ws)" "line_of L at_rest J e l"
    unfolding file_inv_def by auto
  have "no_open_line t"
    using newline assms(3) by (auto simp: no_open_line_def newline_written_def file_inv_def split: if_splits)
  then show ?thesis
    using read_open_line(2)[OF f(3-5)] f(1,2) newline unfolding file_inv_def
    by (auto simp: newline_written_def no_open_line_def)
next
  case (answer i n h req now)
  then have p: "phase_of t k = LineWritten n' h' req' \<longleftrightarrow> phase_of s k = LineWritten n' h' req'" for k n' h' req'
    by (auto simp: request_answered_def)
  then have q: "no_open_line t = no_open_line s" by (simp add: no_open_line_def)
  have w: "sv_wal (csv t) = sv_wal (csv s)" "written t = written s"
    using answer after_append_keeps_file by (simp_all add: request_answered_def)
  show ?thesis using assms(3) by (simp only: file_inv_def p q w)
qed


lemma conc_start_invs:
  "position_inv (conc_start s0 content)" "request_inv key R (conc_start s0 content)"
  by (simp_all add: position_inv_def positions_ok_def request_inv_def conc_start_def)

interpretation conc_entries: transition_system "conc_start s0 content" "conc_step locked key R L at_rest J"
  "\<lambda>s. position_inv s \<and> request_inv key R s" for s0 content locked key R L at_rest J
  by unfold_locales (auto simp: conc_start_invs intro: position_inv_step request_inv_step)

interpretation conc_file: transition_system "conc_start s0 content" "conc_step True key R L at_rest J"
  "\<lambda>s. libs_ok L J \<longrightarrow> terminated content \<longrightarrow> wal_read_all L at_rest J (Some content) = Inr es0 \<longrightarrow> file_inv L at_rest J es0 s"
  for s0 content key R L at_rest J es0
proof
  show "libs_ok L J \<longrightarrow> terminated content \<longrightarrow> wal_read_all L at_rest J (Some content) = Inr es0
      \<longrightarrow> file_inv L at_rest J es0 (conc_start s0 content)"
    by (simp add: file_inv_def no_open_line_def conc_start_def)
qed (blast intro: file_inv_step)

lemma conc_invariants:
  assumes "conc_reachable locked key R L at_rest J s0 content s"
  shows "position_inv s" "request_inv key R s"
  using conc_entries.run_keeps[OF assms[unfolded conc_reachable_def]] by blast+

lemma locked_file:
  assumes "conc_reachable True key R L at_rest J s0 content s" "libs_ok L J" "terminated content"
    "wal_read_all L at_rest J (Some content) = Inr es0"
  shows "file_inv L at_rest J es0 s"
  using conc_file.run_keeps[OF assms(1)[unfolded conc_reachable_def]] assms(2-4) by blast


subsection \<open>Replay of what the clients did\<close>

text \<open>The answered requests are in the order of their lines, and each was accepted.\<close>

definition in_log_order :: "conc \<Rightarrow> bool" where
  "in_log_order s \<longleftrightarrow> map fst (answered s) = [0..<length (answered s)]"

definition all_accepted :: "'f runtime \<Rightarrow> conc \<Rightarrow> bool" where
  "all_accepted R s \<longleftrightarrow>
     (\<forall>(n, now, req, r) \<in> set (answered s). durable_op R req \<noteq> None \<and> status r \<noteq> 500 \<and> (is_set req \<longrightarrow> status r = 200))"

definition replay_inv :: "'f runtime \<Rightarrow> kv_store \<Rightarrow> conc \<Rightarrow> bool" where
  "replay_inv R s0 s \<longleftrightarrow>
     (in_log_order s \<longrightarrow> all_accepted R s \<longrightarrow> quiet (sv_store (csv s))
        \<and> (\<forall>clk. length clk = length (answered s) \<longrightarrow>
              replay_entries R s0 (zip clk (take (length (answered s)) (written s))) = Inr (sv_store (csv s))))"

lemma handle_durable_after:
  assumes "quiet (sv_store sv)" "require_api_key key h = None" "durable_op R req = Some op"
    "strings_read_back R" "handle (after_append key R now) h req sv = (r, sv')" "status r \<noteq> 500" "is_set req \<Longrightarrow> status r = 200"
  shows "quiet (sv_store sv') \<and> replay_op R t (sv_store sv) op = Inr (sv_store sv')"
  using handle_durable[of sv "after_append key R now", OF assms(1) _ _ _ assms(5,6,7)] assms(2,3,4)
  by (simp add: after_append_def)

lemma in_log_order_snoc:
  assumes "map fst (xs @ [(n, y)]) = [0..<length (xs @ [(n, y)])]"
  shows "map fst xs = [0..<length xs]" "n = length xs"
  using assms by (simp_all add: upt_Suc_append)

lemma replay_entries_snoc:
  assumes "length clk = Suc n" "n < length es"
    "replay_entries R s0 (zip (butlast clk) (take n es)) = Inr s" "replay_op R (last clk) s (operation (es ! n)) = Inr s'"
  shows "replay_entries R s0 (zip clk (take (Suc n) es)) = Inr s'"
proof -
  have c: "clk = butlast clk @ [last clk]" using assms(1) by (cases clk rule: rev_cases) simp_all
  have e: "take (Suc n) es = take n es @ [es ! n]" using assms(2) by (rule take_Suc_conv_app_nth)
  have "zip clk (take (Suc n) es) = zip (butlast clk) (take n es) @ [(last clk, es ! n)]"
    using assms(1,2) by (subst c, subst e, subst zip_append) simp_all
  then show ?thesis using assms(3,4) by (simp add: replay_entries_append del: replay_op.simps)
qed

lemma answered_le_written:
  assumes "position_inv s"
  shows "length (answered s) \<le> length (written s)"
proof -
  let ?ps = "map fst (answered s)"
  from assms have "distinct ?ps" "set ?ps \<subseteq> {..<length (written s)}" unfolding position_inv_def positions_ok_def by blast+
  then show ?thesis using card_mono[of "{..<length (written s)}" "set ?ps"] distinct_card[of ?ps] by simp
qed

lemma replay_inv_step:
  assumes "conc_step locked key R L at_rest J s t" "strings_read_back R" "request_inv key R s" "replay_inv R s0 s"
    "position_inv s"
  shows "replay_inv R s0 t"
  using assms(1)
proof cases
  case (line i h req op now j nonce l)
  have "length (answered s) \<le> length (written s)" by (rule answered_le_written[OF assms(5)])
  then show ?thesis
    using line assms(4) by (auto simp: replay_inv_def line_written_def in_log_order_def all_accepted_def)
next
  case (newline i n h req)
  then show ?thesis using assms(4) by (simp add: replay_inv_def newline_written_def in_log_order_def all_accepted_def)
next
  case (answer i n h req now)
  let ?out = "handle (after_append key R now) h req (csv s)"
  from answer have "position (phase_of s i) = Some n" "carried (phase_of s i) = Some (h, req)" by simp_all
  with assms(3) have rq: "n < length (written s)" "require_api_key key h = None" "logged_op R req = Some (operation (written s ! n))"
    unfolding request_inv_def by blast+
  have t: "answered t = answered s @ [(n, now, req, fst ?out)]" "written t = written s" "csv t = snd ?out"
    using answer by (simp_all add: request_answered_def)
  show ?thesis unfolding replay_inv_def
  proof (intro impI)
    assume o: "in_log_order t" and a: "all_accepted R t"
    from o have n: "in_log_order s" "n = length (answered s)"
      unfolding in_log_order_def t by (blast dest: in_log_order_snoc)+
    from a have acc: "all_accepted R s" "durable_op R req \<noteq> None" "status (fst ?out) \<noteq> 500" "is_set req \<Longrightarrow> status (fst ?out) = 200"
      by (auto simp: all_accepted_def t)
    then have op: "durable_op R req = Some (operation (written s ! n))"
      using rq(3) durable_logged by (metis option.exhaust option.inject)
    from assms(4) n(1) acc(1) have q: "quiet (sv_store (csv s))"
      and r: "\<And>clk. length clk = length (answered s) \<Longrightarrow>
        replay_entries R s0 (zip clk (take (length (answered s)) (written s))) = Inr (sv_store (csv s))"
      by (auto simp: replay_inv_def)
    note one = handle_durable_after[OF q rq(2) op assms(2) surjective_pairing acc(3,4)]
    show "quiet (sv_store (csv t)) \<and> (\<forall>clk. length clk = length (answered t) \<longrightarrow>
        replay_entries R s0 (zip clk (take (length (answered t)) (written t))) = Inr (sv_store (csv t)))"
      unfolding t using one n(2) by (auto intro: replay_entries_snoc[OF _ rq(1)[unfolded n(2)] r])
  qed
qed


interpretation conc_replay: transition_system "conc_start s0 content" "conc_step locked key R L at_rest J"
  "\<lambda>s. strings_read_back R \<longrightarrow> quiet s0 \<longrightarrow> position_inv s \<and> request_inv key R s \<and> replay_inv R s0 s"
  for s0 content locked key R L at_rest J
proof
  show "strings_read_back R \<longrightarrow> quiet s0 \<longrightarrow> position_inv (conc_start s0 content) \<and> request_inv key R (conc_start s0 content)
      \<and> replay_inv R s0 (conc_start s0 content)"
    by (simp add: conc_start_invs replay_inv_def) (simp add: conc_start_def)
qed (blast intro: position_inv_step request_inv_step replay_inv_step)

text \<open>Two lines without the newline between them are one line, which is no entry.\<close>

lemma read_shared_line:
  assumes "terminated c" "wal_read_all L at_rest J (Some c) = Inr es" "line_ok l" "line_ok m"
    "utf8_ok (l @ m)" "\<not> is_blank (l @ m)" "\<not> starts_with enc_prefix (l @ m)" "from_json J (l @ m) = None"
  shows "wal_read_all L at_rest J (Some (c @ (l @ m) @ [nl] @ [nl])) = Inr es"
proof -
  have "strip_cr (l @ m) = l @ m" using assms(4) by (simp add: strip_cr_def line_ok_def)
  moreover have "file_lines ([nl]) = [[]]" using file_lines_line[of "[]" "[]"] by (simp add: strip_cr_def)
  ultimately have "file_lines (c @ (l @ m) @ [nl] @ [nl]) = file_lines c @ [l @ m, []]"
    using file_lines_append[OF assms(1)] file_lines_line[of "l @ m" "[nl]"] assms(3,4) by (simp add: line_ok_def)
  moreover have "read_lines L at_rest J n [l @ m, []] = Inr []" for n
    using assms(5-8) by (simp add: decrypt_def is_blank_def)
  ultimately show ?thesis
    using read_lines_append[of L at_rest J 0 "file_lines c" es "[l @ m, []]"] assms(2) by (simp add: wal_read_all_def)
qed


subsection \<open>Properties\<close>

text \<open>C3: With one line written at a time, the log never loses what was answered. Take any interleaving of
  the clients in which no line is begun while another is open. At every moment, between any two writes
  included, reading the file gives the entries that were there before and then every entry begun, in the
  order of their lines. Every answered request has its own entry among them, answered once; and when no
  client is in flight the entries of this run are those of the answered requests, each once.\<close>

theorem interleaved_appends_are_logged:
  fixes s :: conc and key at_rest :: "string option" and R :: "'f runtime" and L :: crypto_lib and J :: wal_codec
  assumes "libs_ok L J" "terminated content" "wal_read_all L at_rest J (Some content) = Inr es0"
    "conc_reachable True key R L at_rest J s0 content s"
  shows "wal_read_all L at_rest J (Some (sv_wal (csv s))) = Inr (es0 @ written s)
    \<and> (\<forall>(n, now, req, r) \<in> set (answered s). n < length (written s) \<and> logged_op R req = Some (operation (written s ! n)))
    \<and> distinct (map fst (answered s))
    \<and> ((\<forall>i. phase_of s i = Idle) \<longrightarrow> mset (map ((!) (written s) \<circ> fst) (answered s)) = mset (written s))"
proof (intro conjI impI)
  note inv = conc_invariants[OF assms(4)]
  show "wal_read_all L at_rest J (Some (sv_wal (csv s))) = Inr (es0 @ written s)"
    by (rule file_inv_reads[OF locked_file[OF assms(4,1-3)]])
  show "\<forall>(n, now, req, r) \<in> set (answered s). n < length (written s) \<and> logged_op R req = Some (operation (written s ! n))"
    using inv(2) unfolding request_inv_def by blast
  show d: "distinct (map fst (answered s))" using inv(1) unfolding position_inv_def positions_ok_def by blast
  assume "\<forall>i. phase_of s i = Idle"
  then have "set (map fst (answered s)) = {..<length (written s)}"
    using inv(1) unfolding position_inv_def positions_ok_def by auto
  then have "mset (map fst (answered s)) = mset [0..<length (written s)]"
    using d set_eq_iff_mset_eq_distinct[of "map fst (answered s)" "[0..<length (written s)]"] by (simp add: lessThan_atLeast0)
  then show "mset (map ((!) (written s) \<circ> fst) (answered s)) = mset (written s)"
    by (metis map_map map_nth mset_map)
qed


text \<open>C2: Without the lock, two answered writes can both be lost. As the program is written, nothing keeps another
  worker from writing its line between an append's two writes. Then both entries share one line,
  which no entry parses from, followed by an empty one. Both appends succeed, both handlers go on to
  change the store and answer as if their entries were logged, and the file reads as if neither
  request had been sent: so does every restart.\<close>

theorem interleaved_lines_lose_both:
  fixes key at_rest :: "string option" and R :: "'f runtime" and L :: crypto_lib and J :: wal_codec
    and h1 h2 :: headers and req1 req2 :: request and s0 :: kv_store and content j1 j2 :: string and t1 t2 :: u64
  assumes "terminated content" "wal_read_all L at_rest J (Some content) = Inr es0" "key_from_env L at_rest = Inr None"
    "require_api_key key h1 = None" "require_api_key key h2 = None"
    "logged_op R req1 = Some op1" "logged_op R req2 = Some op2"
    "to_json J (wal_entry_new t1 op1) = Inr j1" "to_json J (wal_entry_new t2 op2) = Inr j2" "wal_codec_ok J"
    "utf8_ok (j1 @ j2)" "\<not> is_blank (j1 @ j2)" "\<not> starts_with enc_prefix (j1 @ j2)" "from_json J (j1 @ j2) = None"
  defines "both \<equiv> content @ (j1 @ j2) @ [nl] @ [nl]"
  defines "first \<equiv> handle (after_append key R t1) h1 req1 \<lparr>sv_store = s0, sv_wal = both, sv_pubsub = pubsub_new\<rparr>"
  defines "second \<equiv> handle (after_append key R t2) h2 req2 (snd first)"
  shows "(\<exists>s. conc_reachable False key R L at_rest J s0 content s \<and> (\<forall>i. phase_of s i = Idle) \<and> csv s = snd second
       \<and> answered s = [(0, t1, req1, fst first), (1, t2, req2, fst second)])
    \<and> sv_wal (snd second) = both \<and> wal_read_all L at_rest J (Some both) = Inr es0
    \<and> (\<forall>clock s. replay_wal R L at_rest J clock (Some both) s = replay_wal R L at_rest J clock (Some content) s)"
proof (intro conjI)
  have enc: "encrypt L at_rest None j = Inr j" for j using assms(3) by (simp add: encrypt_def)
  let ?reach = "conc_reachable False key R L at_rest J s0 content"
  let ?a = "line_written 0 h1 req1 (wal_entry_new t1 op1) j1 (conc_start s0 content)"
  let ?b = "line_written 1 h2 req2 (wal_entry_new t2 op2) j2 ?a"
  let ?c = "newline_written 1 1 h2 req2 (newline_written 0 0 h1 req1 ?b)"
  let ?d = "request_answered 0 0 t1 req1 (handle (after_append key R t1) h1 req1 (csv ?c)) ?c"
  let ?e = "request_answered 1 1 t2 req2 (handle (after_append key R t2) h2 req2 (csv ?d)) ?d"
  have "?reach ?a" by (rule conc_then[OF conc_begin line[OF _ _ assms(4,6,8) enc]]) (simp_all add: conc_start_def)
  then have "?reach ?b" by (rule conc_then[OF _ line[OF _ _ assms(5,7,9) enc]]) (simp_all add: conc_start_def line_written_def)
  then have "?reach (newline_written 0 0 h1 req1 ?b)"
    by (rule conc_then[OF _ newline]) (simp add: conc_start_def line_written_def)
  then have "?reach ?c" by (rule conc_then[OF _ newline]) (simp add: conc_start_def line_written_def newline_written_def)
  then have "?reach ?d" by (rule conc_then[OF _ answer]) (simp add: conc_start_def line_written_def newline_written_def)
  then have r: "?reach ?e" by (rule conc_then[OF _ answer]) (simp add: conc_start_def conc_defs)
  have c: "csv ?c = \<lparr>sv_store = s0, sv_wal = both, sv_pubsub = pubsub_new\<rparr>"
    by (simp add: conc_defs conc_start_def both_def)
  have "csv ?e = snd second \<and> answered ?e = [(0, t1, req1, fst first), (1, t2, req2, fst second)] \<and> (\<forall>i. phase_of ?e i = Idle)"
    unfolding second_def first_def c[symmetric]
    by (simp add: request_answered_def) (simp add: conc_start_def conc_defs)
  with r show "\<exists>s. ?reach s \<and> (\<forall>i. phase_of s i = Idle) \<and> csv s = snd second
      \<and> answered s = [(0, t1, req1, fst first), (1, t2, req2, fst second)]" by blast
  show "sv_wal (snd second) = both" unfolding second_def first_def by (simp add: after_append_keeps_file)
  have "line_ok j1" "line_ok j2" using assms(8-10) by (auto simp: wal_codec_ok_def)
  then show w: "wal_read_all L at_rest J (Some both) = Inr es0"
    unfolding both_def using read_shared_line[OF assms(1,2) _ _ assms(11-14)] by blast
  show "\<forall>clock s. replay_wal R L at_rest J clock (Some both) s = replay_wal R L at_rest J clock (Some content) s"
    using w assms(2) by (simp add: replay_wal_def)
qed


subsection \<open>Concrete interleavings\<close>

text \<open>Two clients push to one list. Client 1 begins its line once client 0 has ended its own, and before client 0
  has taken the store's lock.\<close>

definition push_entry :: wal_entry where
  "push_entry = wal_entry_new 1 (WalLPush ''l'' [''x''])"

lemma push_encrypts: "to_json push_codec push_entry = Inr ''{a}''" "encrypt text_lib None None ''{a}'' = Inr ''{a}''"
  by (simp_all add: push_codec_def push_entry_def wal_entry_new_def encrypt_def key_from_env_def)

lemma two_clients:
  assumes "R = toy_runtime F"
  shows "\<exists>s. conc_reachable True None R text_lib None push_codec s0 [] s \<and> (\<forall>i. phase_of s i = Idle)
    \<and> in_log_order s \<and> all_accepted R s \<and> written s = [push_entry, push_entry]
    \<and> sv_wal (csv s) = ''{a}'' @ nl # ''{a}'' @ [nl] \<and> map fst (answered s) = [0, 1]"
proof -
  let ?req = "RLPush ''l'' [''x'']" and ?reach = "conc_reachable True None R text_lib None push_codec s0 []"
  let ?run = "\<lambda>i n s. request_answered i n 5 ?req (handle (after_append None R 5) no_headers ?req (csv s)) s"
  let ?a = "newline_written 0 0 no_headers ?req (line_written 0 no_headers ?req push_entry ''{a}'' (conc_start s0 []))"
  let ?b = "?run 0 0 (line_written 1 no_headers ?req push_entry ''{a}'' ?a)"
  let ?e = "?run 1 1 (newline_written 1 1 no_headers ?req ?b)"
  note ready = started_facts(1) _ push_encrypts(1)[unfolded push_entry_def] push_encrypts(2)
  have begin_line: "?reach s \<Longrightarrow> phase_of s i = Idle \<Longrightarrow> no_open_line s \<Longrightarrow> ?reach (line_written i no_headers ?req push_entry ''{a}'' s)" for s i
    unfolding push_entry_def by (rule conc_then[OF _ line[OF _ _ ready]]) (simp_all add: logged_op_def)
  have "?reach ?a"
    by (rule conc_then[OF begin_line[OF conc_begin] newline]) (simp_all add: conc_start_def line_written_def no_open_line_def)
  then have "?reach (line_written 1 no_headers ?req push_entry ''{a}'' ?a)"
    by (rule begin_line) (simp_all add: conc_start_def line_written_def newline_written_def no_open_line_def)
  then have "?reach ?b" by (rule conc_then[OF _ answer]) (simp add: conc_start_def line_written_def newline_written_def)
  then have "?reach (newline_written 1 1 no_headers ?req ?b)"
    by (rule conc_then[OF _ newline]) (simp add: conc_start_def conc_defs)
  then have r: "?reach ?e" by (rule conc_then[OF _ answer]) (simp add: conc_start_def conc_defs)
  have status: "status (fst (handle (after_append None R 5) no_headers ?req sv)) \<noteq> 500" for sv :: "string server"
    by (simp add: handler_defs guarded_def after_append_def logged_first_def respond_def split_beta require_api_key_def
        bad_request_def ok_json_def length_response_def split: sum.split)
  have acc: "all_accepted R ?e" using status by (simp add: all_accepted_def request_answered_def newline_written_def line_written_def conc_start_def durable_op_def)
  have wal: "sv_wal (csv ?e) = ''{a}'' @ nl # ''{a}'' @ [nl]"
    by (simp add: request_answered_def newline_written_def line_written_def conc_start_def after_append_keeps_file del: handle.simps)
  have rest: "\<forall>i. phase_of ?e i = Idle" "in_log_order ?e" "written ?e = [push_entry, push_entry]" "map fst (answered ?e) = [0, 1]"
    by (simp_all add: in_log_order_def conc_defs conc_start_def upt_conv_Cons)
  show ?thesis by (rule exI[of _ ?e], intro conjI) (rule r rest acc wal)+
qed

theorem interleaved_appends_are_logged_witness:
  "\<forall>F s0. \<exists>s. conc_reachable True None (toy_runtime F) text_lib None push_codec s0 [] s
    \<and> wal_read_all text_lib None push_codec (Some (sv_wal (csv s))) = Inr [push_entry, push_entry]
    \<and> mset (map ((!) (written s) \<circ> fst) (answered s)) = {#push_entry, push_entry#}"
proof (intro allI)
  fix F s0
  have "terminated []" "wal_read_all text_lib None push_codec (Some []) = Inr []" by (simp_all add: terminated_def wal_read_all_def)
  note logged = interleaved_appends_are_logged[OF push_codec_ok this]
  obtain s where s: "conc_reachable True None (toy_runtime F) text_lib None push_codec s0 [] s" "\<forall>i. phase_of s i = Idle"
    "written s = [push_entry, push_entry]"
    using two_clients by blast
  from logged[OF s(1)] s show "\<exists>s. conc_reachable True None (toy_runtime F) text_lib None push_codec s0 [] s
    \<and> wal_read_all text_lib None push_codec (Some (sv_wal (csv s))) = Inr [push_entry, push_entry]
    \<and> mset (map ((!) (written s) \<circ> fst) (answered s)) = {#push_entry, push_entry#}" by (intro exI[of _ s]) simp
qed


theorem interleaved_lines_lose_both_witness:
  "\<forall>F s0. \<exists>s. conc_reachable False None (toy_runtime F) text_lib None push_codec s0 [] s
    \<and> map (fst \<circ> snd \<circ> snd) (answered s) = [RLPush ''l'' [''x''], RLPush ''l'' [''x'']]
    \<and> wal_read_all text_lib None push_codec (Some (sv_wal (csv s))) = Inr []"
proof (intro allI)
  fix F s0
  have f: "terminated []" "wal_read_all text_lib None push_codec (Some []) = Inr []" "key_from_env text_lib None = Inr None"
    by (simp_all add: terminated_def wal_read_all_def key_from_env_def)
  have l: "logged_op (toy_runtime F) (RLPush ''l'' [''x'']) = Some (WalLPush ''l'' [''x''])" by (simp add: logged_op_def)
  have t: "utf8_ok (''{a}'' @ ''{a}'')" "\<not> is_blank (''{a}'' @ ''{a}'')" "\<not> starts_with enc_prefix (''{a}'' @ ''{a}'')" by code_simp+
  have n: "from_json push_codec (''{a}'' @ ''{a}'') = None" by (simp add: push_codec_def)
  have c: "wal_codec_ok push_codec" using push_codec_ok by (simp add: libs_ok_def)
  note j = push_encrypts(1)[unfolded push_entry_def]
  from interleaved_lines_lose_both[OF f started_facts(1) started_facts(1) l l j j c t n, of s0]
  show "\<exists>s. conc_reachable False None (toy_runtime F) text_lib None push_codec s0 [] s
    \<and> map (fst \<circ> snd \<circ> snd) (answered s) = [RLPush ''l'' [''x''], RLPush ''l'' [''x'']]
    \<and> wal_read_all text_lib None push_codec (Some (sv_wal (csv s))) = Inr []"
    by (elim conjE exE) (intro exI conjI, assumption, simp only: list.map comp_apply fst_conv snd_conv, simp only:)
qed

end
