(* ===== verification/Undone_Recovery.thy ===== *)
theory Undone_Recovery
  imports Crash_Recovery
begin

section \<open>What a point-in-time recovery leaves\<close>

text \<open>
  \<open>POST /api/pitr/recover/{timestamp}\<close> replaces the served store. It touches neither the log nor the
  saved store, and the store it builds carries neither the server's configuration nor, after a
  snapshot, an LRU list.
\<close>

subsection \<open>No logged operation changes the configuration\<close>

lemma kv_set_config[simp]:
  "config (snd (kv_set now s k v)) = config s" "config (snd (kv_set_with_ttl now s k v ttl)) = config s"
  by (auto simp: kv_set_def kv_set_with_ttl_def Let_def split: sum.splits)

lemma set_configD: "kv_set now s k v = (r, s') \<Longrightarrow> config s' = config s" "queue_operation s op = (r, s') \<Longrightarrow> config s' = config s"
  using kv_set_config(1)[of now s k v] queue_operation_frame(3)[of s op] by simp_all

lemma mset_config[simp]: "config (snd (mset_queue s ps)) = config s" "config (snd (mset_now now s ps)) = config s"
  by (induction ps arbitrary: s) (auto split: sum.splits prod.splits dest: set_configD)

lemma scalar_config[simp]:
  "config (snd (kv_delete now s k)) = config s" "config (snd (kv_incr s k)) = config s" "config (snd (kv_decr s k)) = config s"
  "config (snd (kv_incrby s k a)) = config s" "config (snd (kv_append now s k t)) = config s"
  "config (snd (kv_getset now s k v)) = config s" "config (snd (kv_expire now s k ttl)) = config s"
  "config (snd (kv_persist now s k)) = config s" "config (snd (kv_mset now s ps)) = config s"
  by (auto simp: kv_delete_def kv_incr_def kv_decr_def kv_incrby_def kv_append_def kv_getset_def kv_expire_def kv_persist_def
      kv_mset_def update_lru_def count_write_def set_value_def create_entry_def emit_keyspace_event_def Let_def
    split: option.splits sum.splits kv_value.splits prod.splits dest: set_configD)

lemma hash_config[simp]:
  "config (snd (kv_hset s k fds)) = config s" "config (snd (kv_hdel s k fs)) = config s"
  "config (snd (kv_hincrby s k f a)) = config s"
  by (auto simp: kv_hset_def kv_hdel_def kv_hincrby_def update_lru_def count_write_def set_value_def create_entry_def Let_def
    split: option.splits sum.splits kv_value.splits prod.splits)

lemma kv_pfmerge_config[simp]: "config (snd (kv_pfmerge F s dest srcs)) = config s"
  by (auto simp: kv_pfmerge_def update_lru_def count_write_def put_entry_def count_keys_def add_memory_def Let_def split: sum.splits)

lemma apply_op_config: "config (snd (apply_op R now s op)) = config s"
proof (cases op)
  case (WalSet k v ttl)
  then show ?thesis by (cases ttl) simp_all
qed (simp_all add: ignored_def unit_result_def)

lemma replay_until_config: "config (replay_until R t s les) = config s"
  by (induction R t s les rule: replay_until.induct) (simp_all add: pitr_apply_wal_entry_def apply_op_config)


subsection \<open>A recovered snapshot has no LRU list\<close>

lemma evict_own_key:
  assumes "hm_get (store s) key = Some e" "lru_order s = [key]" "memory_bytes (stats s) > max_memory_bytes (config s)"
  shows "store (evict_loop now s) = hm_remove key (store s)"
    and "memory_bytes (stats (evict_loop now s)) = memory_bytes (stats s) - estimate_value_size (entry_value e)"
proof -
  let ?t = "(evict_key now key s)\<lparr>lru_order := []\<rparr>"
  have "evict_loop now s = evict_loop now ?t" using assms(2,3) by (subst evict_loop.simps) simp
  also have "\<dots> = ?t" by (subst evict_loop.simps) simp
  finally show "store (evict_loop now s) = hm_remove key (store s)"
    and "memory_bytes (stats (evict_loop now s)) = memory_bytes (stats s) - estimate_value_size (entry_value e)"
    using assms(1) by (simp_all add: evict_key_def emit_keyspace_event_def)
qed


subsection \<open>Properties\<close>




subsection \<open>Concrete recoveries\<close>



end
