(* ===== verification/Config_File.thy ===== *)
theory Config_File
  imports Kv_Persist Wal_Log
begin

section \<open>The configuration file (config.rs)\<close>

text \<open>
  \<open>from_file\<close> and \<open>save_to_file\<close> of \<open>StoreConfig\<close>. \<open>serde_json\<close> is a parameter, \<open>config_codec\<close>; files
  and their failures are those of \<open>Kv_Persist\<close>. An error return is \<open>None\<close> or \<open>False\<close>.
\<close>

record config_codec =
  config_text :: "store_config \<Rightarrow> string option"
  config_parse :: "string \<Rightarrow> store_config option"

text \<open>\<open>read_to_string\<close> refuses bytes that are not UTF-8.\<close>

definition config_from_file :: "config_codec \<Rightarrow> string \<Rightarrow> disk \<Rightarrow> store_config option" where
  "config_from_file J path d =
     (case hm_get d path of
        None \<Rightarrow> None
      | Some f \<Rightarrow> if utf8_ok (file_bytes f) then config_parse J (file_bytes f) else None)"

text \<open>\<open>std::fs::write\<close> truncates the file before it writes: a write that fails leaves a part.\<close>

definition config_save_to_file :: "config_codec \<Rightarrow> io \<Rightarrow> nat \<Rightarrow> string \<Rightarrow> store_config \<Rightarrow> disk \<Rightarrow> bool \<times> disk" where
  "config_save_to_file J io t path c d =
     (case config_text J c of
        None \<Rightarrow> (False, d)
      | Some content \<Rightarrow>
          if \<not> create_ok io then (False, d)
          else case write_fails io of
            Some partial \<Rightarrow> (False, write_file t path partial d)
          | None \<Rightarrow> (True, write_file t path content d))"

text \<open>What serde promises of a struct it prints: UTF-8 text that it reads back.\<close>

definition config_codec_ok :: "config_codec \<Rightarrow> bool" where
  "config_codec_ok J \<longleftrightarrow> (\<forall>c content. config_text J c = Some content \<longrightarrow> utf8_ok content \<and> config_parse J content = Some c)"

lemma config_roundtrip:
  assumes "config_codec_ok J" "config_save_to_file J io t path c d = (True, d')"
  shows "config_from_file J path d' = Some c"
    and "other \<noteq> path \<Longrightarrow> config_from_file J other d' = config_from_file J other d"
  using assms
  by (auto simp: config_save_to_file_def config_from_file_def config_codec_ok_def write_file_def
      split: option.splits if_splits)

text \<open>
  A save that fails after the truncation replaces the old configuration by a part of the new one,
  unlike \<open>save_with_version\<close> of the store, which writes beside the target and renames.
\<close>

lemma failed_config_save:
  assumes "config_text J c = Some content" "create_ok io" "write_fails io = Some partial" "config_parse J partial = None"
  shows "fst (config_save_to_file J io t path c d) = False"
    and "config_from_file J path (snd (config_save_to_file J io t path c d)) = None"
  using assms by (auto simp: config_save_to_file_def config_from_file_def write_file_def)

text \<open>
  \<open>from_file\<close> does not validate. A store under a configuration that \<open>validate\<close> would refuse for its key
  size accepts no write at all.
\<close>

lemma unvalidated_config_refuses_writes:
  assumes "config_codec_ok J" "config_save_to_file J io t path c d = (True, d')" "max_key_size c = 0"
  shows "\<exists>c'. config_from_file J path d' = Some c' \<and> validate_config c' \<noteq> Inr ()
    \<and> (\<forall>now k v. \<exists>e. kv_set now (with_config c') k v = (Inl e, with_config c'))"
proof (intro exI[of _ c] conjI allI)
  show "config_from_file J path d' = Some c" by (rule config_roundtrip(1)[OF assms(1,2)])
  show "validate_config c \<noteq> Inr ()" using assms(3) by (simp add: validate_config_def)
  show "\<exists>e. kv_set now (with_config c) k v = (Inl e, with_config c)" for now k v
    using assms(3) by (simp add: kv_set_def validate_key_def with_config_def)
qed

end
