(* ===== verification/Atomic_Stats.thy ===== *)
theory Atomic_Stats
  imports Hyper_Log_Log
begin

section \<open>Lock-free statistics (stats.rs)\<close>

text \<open>
  \<open>AtomicStoreStats\<close>: counters that threads change with \<open>fetch_add\<close> and \<open>fetch_sub\<close>, which wrap at
  64 bits. Each such call is one atomic step, so a run of several threads is an interleaving of their
  calls. The store itself keeps the plain \<open>StoreStats\<close> of kv_store.rs; nothing else uses this type.
\<close>

record atomic_store_stats =
  at_reads :: u64
  at_writes :: u64
  at_deletes :: u64
  at_hits :: u64
  at_misses :: u64
  at_memory :: u64
  at_keys :: u64
  at_expired :: u64
  at_evictions :: u64

definition atomic_new :: atomic_store_stats where
  "atomic_new = \<lparr>at_reads = 0, at_writes = 0, at_deletes = 0, at_hits = 0, at_misses = 0, at_memory = 0,
     at_keys = 0, at_expired = 0, at_evictions = 0\<rparr>"

definition inc_reads :: "atomic_store_stats \<Rightarrow> atomic_store_stats" where
  "inc_reads st = st\<lparr>at_reads := at_reads st + 1\<rparr>"

definition inc_writes :: "atomic_store_stats \<Rightarrow> atomic_store_stats" where
  "inc_writes st = st\<lparr>at_writes := at_writes st + 1\<rparr>"

definition inc_deletes :: "atomic_store_stats \<Rightarrow> atomic_store_stats" where
  "inc_deletes st = st\<lparr>at_deletes := at_deletes st + 1\<rparr>"

definition inc_hits :: "atomic_store_stats \<Rightarrow> atomic_store_stats" where
  "inc_hits st = st\<lparr>at_hits := at_hits st + 1\<rparr>"

definition inc_misses :: "atomic_store_stats \<Rightarrow> atomic_store_stats" where
  "inc_misses st = st\<lparr>at_misses := at_misses st + 1\<rparr>"

definition add_memory_bytes :: "u64 \<Rightarrow> atomic_store_stats \<Rightarrow> atomic_store_stats" where
  "add_memory_bytes n st = st\<lparr>at_memory := at_memory st + n\<rparr>"

definition sub_memory_bytes :: "u64 \<Rightarrow> atomic_store_stats \<Rightarrow> atomic_store_stats" where
  "sub_memory_bytes n st = st\<lparr>at_memory := at_memory st - n\<rparr>"

text \<open>The sum wraps in a release build.\<close>

definition atomic_hit_rate :: "'f f64_arith \<Rightarrow> atomic_store_stats \<Rightarrow> 'f" where
  "atomic_hit_rate F st =
     (let all = at_hits st + at_misses st in
      if all = 0 then f_lit F ''0.0''
      else f_mul F (f_div F (f_of_nat F (unat (at_hits st))) (f_of_nat F (unat all))) (f_lit F ''100.0''))"

subsection \<open>Interleavings\<close>

datatype stat_call = IncReads | IncWrites | IncDeletes | IncHits | IncMisses | AddMemory u64 | SubMemory u64

fun stat_step :: "stat_call \<Rightarrow> atomic_store_stats \<Rightarrow> atomic_store_stats" where
  "stat_step IncReads = inc_reads"
| "stat_step IncWrites = inc_writes"
| "stat_step IncDeletes = inc_deletes"
| "stat_step IncHits = inc_hits"
| "stat_step IncMisses = inc_misses"
| "stat_step (AddMemory n) = add_memory_bytes n"
| "stat_step (SubMemory n) = sub_memory_bytes n"

lemmas stat_defs = inc_reads_def inc_writes_def inc_deletes_def inc_hits_def inc_misses_def
  add_memory_bytes_def sub_memory_bytes_def

text \<open>What the calls add up to, whatever their order.\<close>

fun memory_delta :: "stat_call \<Rightarrow> u64" where
  "memory_delta (AddMemory n) = n"
| "memory_delta (SubMemory n) = - n"
| "memory_delta _ = 0"

lemma fold_stats:
  "fold stat_step calls st = st
     \<lparr>at_reads := at_reads st + of_nat (count_list calls IncReads),
      at_writes := at_writes st + of_nat (count_list calls IncWrites),
      at_deletes := at_deletes st + of_nat (count_list calls IncDeletes),
      at_hits := at_hits st + of_nat (count_list calls IncHits),
      at_misses := at_misses st + of_nat (count_list calls IncMisses),
      at_memory := at_memory st + sum_list (map memory_delta calls)\<rparr>"
proof (induction calls arbitrary: st)
  case (Cons c calls)
  then show ?case by (cases c) (simp_all add: stat_defs)
qed simp

text \<open>The interleavings of two threads: every merge of their call lists that keeps each list's order.\<close>

inductive interleaved :: "'a list \<Rightarrow> 'a list \<Rightarrow> 'a list \<Rightarrow> bool" where
  neither: "interleaved [] [] []"
| left: "interleaved xs ys zs \<Longrightarrow> interleaved (x # xs) ys (x # zs)"
| right: "interleaved xs ys zs \<Longrightarrow> interleaved xs (y # ys) (y # zs)"

lemma interleaved_count: "interleaved xs ys zs \<Longrightarrow> count_list zs x = count_list xs x + count_list ys x"
  by (induction rule: interleaved.induct) simp_all

lemma interleaved_memory:
  "interleaved xs ys zs \<Longrightarrow>
   sum_list (map memory_delta zs) = sum_list (map memory_delta xs) + sum_list (map memory_delta ys)"
  by (induction rule: interleaved.induct) (simp_all add: algebra_simps)

subsection \<open>Properties\<close>

text \<open>No update is lost. However the calls of two threads interleave, the statistics afterwards are
  those of one thread running after the other: each counter has grown by the number of its calls,
  modulo 2^64, and the memory by what was added less what was subtracted.\<close>

theorem no_update_is_lost:
  assumes "interleaved xs ys zs"
  shows "fold stat_step zs st = fold stat_step ys (fold stat_step xs st)
    \<and> at_writes (fold stat_step zs st) = at_writes st + of_nat (count_list xs IncWrites + count_list ys IncWrites)
    \<and> at_memory (fold stat_step zs st) = at_memory st + sum_list (map memory_delta (xs @ ys))"
proof -
  have sums: "count_list zs c = count_list (xs @ ys) c" "sum_list (map memory_delta zs) = sum_list (map memory_delta (xs @ ys))" for c
    using interleaved_count[OF assms] interleaved_memory[OF assms] by simp_all
  then have "fold stat_step zs st = fold stat_step (xs @ ys) st" unfolding fold_stats by simp
  then show ?thesis using sums by (simp add: fold_stats)
qed

theorem no_update_is_lost_witness:
  "at_memory (fold stat_step [AddMemory 5, IncWrites, SubMemory 7] atomic_new) = - 2"
proof -
  have "interleaved [AddMemory 5, SubMemory 7] [IncWrites] [AddMemory 5, IncWrites, SubMemory 7]"
    by (intro interleaved.intros)
  from no_update_is_lost[OF this, of atomic_new]
  have "at_memory (fold stat_step [AddMemory 5, IncWrites, SubMemory 7] atomic_new)
      = at_memory atomic_new + sum_list (map memory_delta ([AddMemory 5, SubMemory 7] @ [IncWrites]))" by blast
  also have "\<dots> = - 2" by (simp add: atomic_new_def)
  finally show ?thesis .
qed

end
